(* ===== verification/Prelude.thy ===== *)
theory Prelude
  imports Main "HOL-Library.AList" "HOL-Library.List_Lexorder" "HOL-Library.Char_ord"
begin

text \<open>
  Shared vocabulary of the development: identifiers and digests as strings, Python dicts as
  association lists in insertion order, raised exceptions as the left side of a sum, the loops of
  the program as \<open>fold_res\<close>, and the library functions of Python the components call
  (\<open>sorted(set(..))\<close>, \<open>itertools.combinations\<close>, decimal formatting).
  The collection \<open>res_simps\<close> holds the facts by which a successful run is read backwards
  through its guards.
\<close>

named_theorems res_simps \<open>inversion of successful runs through guards and calls\<close>
named_theorems dict_simps \<open>lookups after updates in Python dicts\<close>

type_synonym ident = string
type_synonym digest = string
type_synonym time = int \<comment> \<open>a timezone-aware datetime: the instant, in microseconds\<close>

section \<open>Raised errors\<close>

text \<open>
  \<open>raise\<close> is \<open>Inl\<close>. \<open>require c e k\<close> is \<open>if not c: raise e\<close> followed by the rest \<open>k\<close> of the
  function; \<open>res_bind m f\<close> is a call whose exception propagates.
\<close>

definition require :: "bool \<Rightarrow> 'e \<Rightarrow> 'e + 'a \<Rightarrow> 'e + 'a" where
  "require c e k = (if c then k else Inl e)"

definition res_bind :: "'e + 'a \<Rightarrow> ('a \<Rightarrow> 'e + 'b) \<Rightarrow> 'e + 'b" where
  "res_bind m f = (case m of Inl e \<Rightarrow> Inl e | Inr x \<Rightarrow> f x)"

fun fold_res :: "('a \<Rightarrow> 's \<Rightarrow> 'e + 's) \<Rightarrow> 'a list \<Rightarrow> 's \<Rightarrow> 'e + 's" where
  "fold_res f [] s = Inr s"
| "fold_res f (x # xs) s = res_bind (f x s) (fold_res f xs)"

lemma require_Inr [res_simps, simp]: "require c e k = Inr x \<longleftrightarrow> c \<and> k = Inr x"
  by (simp add: require_def)

lemma require_Inl [simp]: "require c e k = Inl e' \<longleftrightarrow> (if c then k = Inl e' else e = e')"
  by (simp add: require_def)

lemma require_True [simp]: "require True e k = k"
  by (simp add: require_def)

lemma require_False [simp]: "require False e k = Inl e"
  by (simp add: require_def)

lemma res_bind_Inr [res_simps, simp]:
  "res_bind m f = Inr x \<longleftrightarrow> (\<exists>y. m = Inr y \<and> f y = Inr x)"
  by (cases m) (simp_all add: res_bind_def)

lemma res_bind_Inl:
  "res_bind m f = Inl e \<longleftrightarrow> m = Inl e \<or> (\<exists>y. m = Inr y \<and> f y = Inl e)"
  by (cases m) (simp_all add: res_bind_def)

lemma res_bind_simps [simp]: "res_bind (Inr x) f = f x" "res_bind (Inl e) f = Inl e"
  by (simp_all add: res_bind_def)

lemma res_bind_cong [fundef_cong]:
  "m = m' \<Longrightarrow> (\<And>y. m' = Inr y \<Longrightarrow> f y = f' y) \<Longrightarrow> res_bind m f = res_bind m' f'"
  by (cases m') (simp_all add: res_bind_def)

lemma require_cong [fundef_cong]:
  "c = c' \<Longrightarrow> e = e' \<Longrightarrow> (c' \<Longrightarrow> k = k') \<Longrightarrow> require c e k = require c' e' k'"
  by (simp add: require_def)

fun map_res :: "('a \<Rightarrow> 'e + 'b) \<Rightarrow> 'a list \<Rightarrow> 'e + 'b list" where
  "map_res f [] = Inr []"
| "map_res f (x # xs) = res_bind (f x) (\<lambda>y. res_bind (map_res f xs) (\<lambda>ys. Inr (y # ys)))"

lemma map_res_cong [fundef_cong]:
  "xs = ys \<Longrightarrow> (\<And>x. x \<in> set ys \<Longrightarrow> f x = g x) \<Longrightarrow> map_res f xs = map_res g ys"
  by (induction ys arbitrary: xs) (auto simp: res_bind_def split: sum.splits)

lemma fold_res_append:
  "fold_res f (xs @ ys) s = res_bind (fold_res f xs s) (fold_res f ys)"
  by (induction xs arbitrary: s) (simp_all add: res_bind_def split: sum.splits)

lemma fold_res_invariant:
  assumes "fold_res f xs s = Inr s'" and "P s"
    and "\<And>x s s'. x \<in> set xs \<Longrightarrow> P s \<Longrightarrow> f x s = Inr s' \<Longrightarrow> P s'"
  shows "P s'"
  using assms
proof (induction xs arbitrary: s)
  case Nil
  then show ?case by simp
next
  case (Cons x xs)
  then obtain t where t: "f x s = Inr t" "fold_res f xs t = Inr s'" by auto
  have "P t" using Cons.prems(2,3) t(1) by (metis list.set_intros(1))
  then show ?case using Cons.IH [OF t(2)] Cons.prems(3) by (meson list.set_intros(2))
qed

lemma fold_res_cong [fundef_cong]:
  "xs = ys \<Longrightarrow> s = t \<Longrightarrow> (\<And>x u. x \<in> set ys \<Longrightarrow> f x u = g x u) \<Longrightarrow>
   fold_res f xs s = fold_res g ys t"
  by (induction ys arbitrary: xs s t) (auto simp: res_bind_def split: sum.splits)

section \<open>Dicts\<close>

text \<open>
  A Python dict keeps insertion order, and assigning to a present key keeps its place: exactly
  \<open>AList.update\<close>.
\<close>

type_synonym ('k, 'v) dict = "('k \<times> 'v) list"

definition dict_get :: "('k, 'v) dict \<Rightarrow> 'k \<Rightarrow> 'v option" where
  "dict_get d k = map_of d k"

definition dict_get_default :: "('k, 'v) dict \<Rightarrow> 'k \<Rightarrow> 'v \<Rightarrow> 'v" where
  "dict_get_default d k v = (case map_of d k of None \<Rightarrow> v | Some x \<Rightarrow> x)"

definition dict_set :: "('k, 'v) dict \<Rightarrow> 'k \<Rightarrow> 'v \<Rightarrow> ('k, 'v) dict" where
  "dict_set d k v = AList.update k v d"

definition dict_keys :: "('k, 'v) dict \<Rightarrow> 'k list" where
  "dict_keys d = map fst d"

definition dict_values :: "('k, 'v) dict \<Rightarrow> 'v list" where
  "dict_values d = map snd d"

definition dict_update :: "('k, 'v) dict \<Rightarrow> ('k, 'v) dict \<Rightarrow> ('k, 'v) dict" where
  "dict_update d e = fold (\<lambda>(k, v) d. dict_set d k v) e d"

lemma dict_get_set [dict_simps, simp]:
  "dict_get (dict_set d k v) k' = (if k' = k then Some v else dict_get d k')"
  by (simp add: dict_get_def dict_set_def update_conv')

lemma dict_get_default_set [dict_simps, simp]:
  "dict_get_default (dict_set d k v) k' x = (if k' = k then v else dict_get_default d k' x)"
  by (simp add: dict_get_default_def dict_set_def update_conv')

lemma dict_get_empty [simp]: "dict_get [] k = None"
  by (simp add: dict_get_def)

lemma set_dict_keys_set [dict_simps, simp]:
  "set (dict_keys (dict_set d k v)) = insert k (set (dict_keys d))"
  by (induction d) (auto simp: dict_keys_def dict_set_def)

lemma dict_get_None [dict_simps]: "dict_get d k = None \<longleftrightarrow> k \<notin> set (dict_keys d)"
  by (simp add: dict_get_def dict_keys_def map_of_eq_None_iff)

lemma dict_get_SomeD: "dict_get d k = Some v \<Longrightarrow> (k, v) \<in> set d"
  by (simp add: dict_get_def map_of_SomeD)

lemma distinct_dict_set [simp]:
  "distinct (dict_keys d) \<Longrightarrow> distinct (dict_keys (dict_set d k v))"
  by (simp add: dict_keys_def dict_set_def distinct_update)

lemma dict_get_in: "distinct (dict_keys d) \<Longrightarrow> (k, v) \<in> set d \<Longrightarrow> dict_get d k = Some v"
  by (simp add: dict_get_def dict_keys_def)

section \<open>Sorting and subsets\<close>

definition sorted_set :: "'a::linorder list \<Rightarrow> 'a list" where
  "sorted_set xs = sort (remdups xs)"

lemma set_sorted_set [simp]: "set (sorted_set xs) = set xs"
  by (simp add: sorted_set_def)

lemma sorted_sorted_set [simp]: "sorted (sorted_set xs)"
  by (simp add: sorted_set_def)

lemma distinct_sorted_set [simp]: "distinct (sorted_set xs)"
  by (simp add: sorted_set_def)

lemma sorted_set_Nil [simp]: "sorted_set xs = [] \<longleftrightarrow> xs = []"
  by (metis set_empty set_sorted_set)

text \<open>\<open>itertools.combinations\<close>: the index-ordered sublists of a given length.\<close>

fun combinations :: "nat \<Rightarrow> 'a list \<Rightarrow> 'a list list" where
  "combinations 0 xs = [[]]"
| "combinations (Suc n) [] = []"
| "combinations (Suc n) (x # xs) = map ((#) x) (combinations n xs) @ combinations (Suc n) xs"

lemma combinations_sound:
  "c \<in> set (combinations n xs) \<Longrightarrow> length c = n \<and> set c \<subseteq> set xs \<and> (distinct xs \<longrightarrow> distinct c)"
  by (induction n xs arbitrary: c rule: combinations.induct) (auto, blast+)

lemma combinations_complete:
  assumes "B \<subseteq> set xs" and "distinct xs"
  shows "\<exists>c \<in> set (combinations (card B) xs). set c = B"
  using assms
proof (induction xs arbitrary: B)
  case Nil
  then show ?case by simp
next
  case (Cons x xs)
  show ?case
  proof (cases "x \<in> B")
    case True
    have fin: "finite B" using Cons.prems(1) finite_subset by blast
    have sub: "B - {x} \<subseteq> set xs" using Cons.prems(1) by auto
    obtain c where c: "c \<in> set (combinations (card (B - {x})) xs)" "set c = B - {x}"
      using Cons.IH [OF sub] Cons.prems(2) by auto
    have card: "card B = Suc (card (B - {x}))"
      using True fin by (metis card.remove)
    have "x # c \<in> set (combinations (card B) (x # xs))" using c(1) by (simp add: card)
    moreover have "set (x # c) = B" using c(2) True by auto
    ultimately show ?thesis by blast
  next
    case False
    then have sub: "B \<subseteq> set xs" using Cons.prems(1) by auto
    obtain c where c: "c \<in> set (combinations (card B) xs)" "set c = B"
      using Cons.IH [OF sub] Cons.prems(2) by auto
    have "c \<in> set (combinations (card B) (x # xs))" using c(1) by (cases "card B") auto
    with c(2) show ?thesis by blast
  qed
qed

section \<open>Text\<close>

fun show_nat :: "nat \<Rightarrow> string" where
  "show_nat n = (if n < 10 then [char_of (48 + n)] else show_nat (n div 10) @ [char_of (48 + n mod 10)])"

declare show_nat.simps [simp del]

lemma show_nat_digits: "c \<in> set (show_nat n) \<Longrightarrow> (48::nat) \<le> of_char c \<and> of_char c \<le> (57::nat)"
proof (induction n rule: show_nat.induct)
  case (1 n)
  have d: "of_char (char_of (48 + k) :: char) = (48 + k :: nat)" if "k < 10" for k :: nat
    using that by (simp add: of_char_of)
  show ?case
  proof (cases "n < 10")
    case True
    with "1.prems" show ?thesis by (auto simp: show_nat.simps [of n] d)
  next
    case False
    have "n mod 10 < 10" by simp
    with False "1.prems" "1.IH" [OF False] show ?thesis
      by (auto simp: show_nat.simps [of n] d)
  qed
qed

text \<open>\<open>ID_PATTERN\<close>: an \<open>Identifier\<close>.\<close>

definition id_head_char :: "char \<Rightarrow> bool" where
  "id_head_char c = (let n = (of_char c :: nat) in
     (48 \<le> n \<and> n \<le> 57) \<or> (65 \<le> n \<and> n \<le> 90) \<or> (97 \<le> n \<and> n \<le> 122))"

definition id_tail_char :: "char \<Rightarrow> bool" where
  "id_tail_char c = (id_head_char c \<or> c \<in> set ''._:-'')"

definition is_identifier :: "string \<Rightarrow> bool" where
  "is_identifier s = (case s of [] \<Rightarrow> False
     | c # cs \<Rightarrow> id_head_char c \<and> list_all id_tail_char cs \<and> length cs \<le> 127)"

end
