(* ===== verification/Structural.thy ===== *)
theory Structural
  imports Prelude Complex_Main
begin

text \<open>
  \<open>v6/structural_analysis.py\<close>: the analysis budget (\<open>Budget\<close> of \<open>v6/science.py\<close>), transformations with
  their positive flows, the two closure loops, and the bounded exact enumerations of siphons, RAFs, cut
  sets and enablement sets. A \<open>Rational\<close> field is the \<open>rat\<close> it denotes (\<open>Fraction\<close> of the string). A
  mapping of transformations is a dict. Python sets that are only tested are HOL sets; a
  \<open>frozenset(values)\<close> of a combination is the combination, a sorted list without repetitions, so that
  \<open>tuple(sorted(item))\<close> is the list itself.
\<close>

section \<open>Budget\<close>

text \<open>
  \<open>spend\<close> raises when the operation count is used up or the clock has passed the deadline. The clock is
  the parameter \<open>clock\<close>: its \<open>n\<close>-th reading. \<open>ticks\<close> counts the readings so far; as in the source the
  clock is not read once the count is negative.
\<close>

record budget =
  remaining :: int
  deadline_at :: int
  ticks :: nat

datatype analysis_error = AnalysisBudgetExceeded | AnalysisValueError string | AnalysisIndexError | AnalysisStopIteration

type_synonym 'a analysed = "analysis_error + 'a \<times> budget"

definition new_budget :: "(nat \<Rightarrow> int) \<Rightarrow> int \<Rightarrow> int \<Rightarrow> budget" where
  "new_budget clock operations deadline_seconds =
     \<lparr>remaining = operations, deadline_at = clock 0 + deadline_seconds, ticks = 1\<rparr>"

definition spend :: "(nat \<Rightarrow> int) \<Rightarrow> int \<Rightarrow> budget \<Rightarrow> analysis_error + budget" where
  "spend clock amount b =
     (let left = remaining b - amount
      in if left < 0 \<or> clock (ticks b) > deadline_at b then Inl AnalysisBudgetExceeded
         else Inr (b\<lparr>remaining := left, ticks := Suc (ticks b)\<rparr>))"

section \<open>Transformations\<close>

record transformation =
  tr_id :: ident
  tr_inputs :: "(ident, rat) dict"
  tr_outputs :: "(ident, rat) dict"
  catalyst_clauses :: "ident list list"
  inhibitors :: "ident list"
  uncatalyzed :: bool
  required_evidence :: "ident list"
  required_authority :: "ident list"

type_synonym transformations = "(ident, transformation) dict"

definition catalytic_semantics :: "transformation \<Rightarrow> bool" where
  "catalytic_semantics t \<longleftrightarrow>
     \<not> (uncatalyzed t \<and> catalyst_clauses t \<noteq> []) \<and> \<not> (tr_inputs t = [] \<and> tr_outputs t = [])"

definition flows :: "transformation \<Rightarrow> ident set \<times> ident set" where
  "flows t =
     (set (map fst (filter (\<lambda>(c, v). v > 0) (tr_inputs t))),
      set (map fst (filter (\<lambda>(c, v). v > 0) (tr_outputs t))))"

definition lookup :: "transformations \<Rightarrow> ident \<Rightarrow> transformation" where
  "lookup ts i = the (dict_get ts i)"

abbreviation ins :: "transformations \<Rightarrow> ident \<Rightarrow> ident set" where
  "ins ts i \<equiv> fst (flows (lookup ts i))"

abbreviation outs :: "transformations \<Rightarrow> ident \<Rightarrow> ident set" where
  "outs ts i \<equiv> snd (flows (lookup ts i))"

definition known_ids :: "transformations \<Rightarrow> ident list" where
  "known_ids ts = sorted_set (dict_keys ts)"

section \<open>Closures\<close>

text \<open>The \<open>for\<close> loop of \<open>structural_closure\<close> over the sorted identifiers, then the \<open>while changed\<close> loop.\<close>

fun closure_pass ::
  "(nat \<Rightarrow> int) \<Rightarrow> transformations \<Rightarrow> ident list \<Rightarrow> ident set \<Rightarrow> bool \<Rightarrow> budget \<Rightarrow> (ident set \<times> bool) analysed"
where
  "closure_pass clock ts [] available changed b = Inr ((available, changed), b)"
| "closure_pass clock ts (i # is) available changed b =
     res_bind (spend clock 1 b) (\<lambda>b.
       let (inputs, outputs) = flows (lookup ts i)
       in if inputs \<subseteq> available \<and> \<not> outputs \<subseteq> available
          then closure_pass clock ts is (available \<union> outputs) True b
          else closure_pass clock ts is available changed b)"

definition produced :: "transformations \<Rightarrow> ident list \<Rightarrow> ident set" where
  "produced ts ids = (\<Union>i \<in> set ids. outs ts i)"

lemma finite_flows [simp]: "finite (fst (flows t))" "finite (snd (flows t))"
  by (simp_all add: flows_def)

lemma finite_produced [simp]: "finite (produced ts ids)"
  by (simp add: produced_def)

lemma produced_Nil: "produced ts [] = {}"
  by (simp add: produced_def)

lemma produced_Cons: "produced ts (i # is) = outs ts i \<union> produced ts is"
  by (simp add: produced_def)

lemma closure_pass_grows:
  assumes "closure_pass clock ts is A c b = Inr ((A', c'), b')"
  shows "A \<subseteq> A' \<and> A' \<subseteq> A \<union> produced ts is \<and> (c' \<longleftrightarrow> c \<or> A' \<noteq> A)"
  using assms
proof (induction "is" arbitrary: A c b)
  case (Cons i "is")
  show ?case
  proof (cases "ins ts i \<subseteq> A \<and> \<not> outs ts i \<subseteq> A")
    case True
    then have "\<exists>b. closure_pass clock ts is (A \<union> outs ts i) True b = Inr ((A', c'), b')"
      using Cons.prems by (auto simp: case_prod_beta Let_def)
    then have "A \<union> outs ts i \<subseteq> A' \<and> A' \<subseteq> A \<union> outs ts i \<union> produced ts is \<and> c'"
      using Cons.IH by blast
    then show ?thesis using True by (auto simp: produced_Cons)
  next
    case False
    from Cons.prems have "\<exists>b. closure_pass clock ts is A c b = Inr ((A', c'), b')"
      by (simp only: closure_pass.simps res_bind_Inr case_prod_beta Let_def False if_False) blast
    then show ?thesis using Cons.IH by (force simp: produced_Cons)
  qed
qed (simp add: produced_def)

lemma pass_measure:
  assumes "A \<subseteq> A'" "A' \<subseteq> A \<union> produced ts is" "A' \<noteq> A"
  shows "card (produced ts is - A') < card (produced ts is - A)"
  by (rule psubset_card_mono) (use assms in auto)

function closure_loop ::
  "(nat \<Rightarrow> int) \<Rightarrow> transformations \<Rightarrow> ident list \<Rightarrow> ident set \<Rightarrow> budget \<Rightarrow> ident set analysed"
where
  "closure_loop clock ts ids available b =
     res_bind (closure_pass clock ts ids available False b)
       (\<lambda>r. if snd (fst r) then closure_loop clock ts ids (fst (fst r)) (snd r)
            else Inr (fst (fst r), snd r))"
  by pat_completeness auto
termination
proof (relation "measure (\<lambda>(clock, ts, ids, available, b). card (produced ts ids - available))")
  fix clock ts ids available b and r :: "(ident set \<times> bool) \<times> budget"
  assume "closure_pass clock ts ids available False b = Inr r" "snd (fst r)"
  then obtain A' b' where "r = ((A', True), b')"
    "closure_pass clock ts ids available False b = Inr ((A', True), b')" by (cases r; cases "fst r") auto
  then show "((clock, ts, ids, fst (fst r), snd r), clock, ts, ids, available, b)
      \<in> measure (\<lambda>(clock, ts, ids, available, b). card (produced ts ids - available))"
    using closure_pass_grows [of clock ts ids available False b A' True b'] by (simp add: pass_measure)
qed simp

declare closure_loop.simps [simp del]

definition allowed_ids :: "transformations \<Rightarrow> ident list option \<Rightarrow> ident list" where
  "allowed_ids ts allowed =
     (case allowed of
        None \<Rightarrow> known_ids ts
      | Some a \<Rightarrow> sorted_set (filter (\<lambda>i. i \<in> set (dict_keys ts)) a))"

definition structural_closure ::
  "(nat \<Rightarrow> int) \<Rightarrow> ident list \<Rightarrow> transformations \<Rightarrow> ident list option \<Rightarrow> budget \<Rightarrow> ident set analysed"
where
  "structural_closure clock initial ts allowed b =
     closure_loop clock ts (allowed_ids ts allowed) (set initial) b"

text \<open>\<open>_raf_closure\<close> updates without asking whether anything is new and compares sizes.\<close>

fun raf_pass ::
  "(nat \<Rightarrow> int) \<Rightarrow> transformations \<Rightarrow> ident list \<Rightarrow> ident set \<Rightarrow> bool \<Rightarrow> budget \<Rightarrow> (ident set \<times> bool) analysed"
where
  "raf_pass clock ts [] closure changed b = Inr ((closure, changed), b)"
| "raf_pass clock ts (i # is) closure changed b =
     res_bind (spend clock 1 b) (\<lambda>b.
       let (inputs, outputs) = flows (lookup ts i)
       in if inputs \<subseteq> closure
          then raf_pass clock ts is (closure \<union> outputs)
                 (changed \<or> card (closure \<union> outputs) > card closure) b
          else raf_pass clock ts is closure changed b)"

lemma raf_pass_grows:
  assumes "raf_pass clock ts is A c b = Inr ((A', c'), b')"
  shows "A \<subseteq> A' \<and> A' \<subseteq> A \<union> produced ts is \<and> (c' \<longrightarrow> c \<or> A' \<noteq> A)"
  using assms
proof (induction "is" arbitrary: A c b)
  case (Cons i "is")
  show ?case
  proof (cases "ins ts i \<subseteq> A")
    case True
    then have "\<exists>b. raf_pass clock ts is (A \<union> outs ts i) (c \<or> card (A \<union> outs ts i) > card A) b = Inr ((A', c'), b')"
      using Cons.prems by (auto simp: case_prod_beta Let_def)
    then have "A \<union> outs ts i \<subseteq> A' \<and> A' \<subseteq> A \<union> outs ts i \<union> produced ts is \<and>
        (c' \<longrightarrow> (c \<or> card (A \<union> outs ts i) > card A) \<or> A' \<noteq> A \<union> outs ts i)"
      using Cons.IH by blast
    then show ?thesis using True by (auto simp: produced_Cons Un_absorb2)
  next
    case False
    from Cons.prems have "\<exists>b. raf_pass clock ts is A c b = Inr ((A', c'), b')"
      by (simp only: raf_pass.simps res_bind_Inr case_prod_beta Let_def False if_False) blast
    then show ?thesis using Cons.IH by (force simp: produced_Cons)
  qed
qed (simp add: produced_def)

lemma card_grows: "finite A \<Longrightarrow> finite B \<Longrightarrow> card (A \<union> B) > card A \<longleftrightarrow> \<not> B \<subseteq> A"
  by (metis Un_upper1 finite_Un less_irrefl psubset_card_mono psubsetI sup.absorb_iff1 Un_commute sup_ge2 subset_Un_eq)

lemma raf_pass_closure_pass:
  "finite A \<Longrightarrow> raf_pass clock ts is A c b = closure_pass clock ts is A c b"
proof (induction "is" arbitrary: A c b)
  case (Cons i "is")
  have grow: "card (A \<union> outs ts i) > card A \<longleftrightarrow> \<not> outs ts i \<subseteq> A"
    using Cons.prems by (simp add: card_grows)
  show ?case
  proof (cases "outs ts i \<subseteq> A")
    case True
    then show ?thesis using Cons.IH [OF Cons.prems] by (simp add: case_prod_beta Let_def Un_absorb2 cong: if_cong)
  next
    case False
    then show ?thesis using grow Cons.IH Cons.prems by (simp add: case_prod_beta Let_def cong: if_cong)
  qed
qed simp

function raf_loop ::
  "(nat \<Rightarrow> int) \<Rightarrow> transformations \<Rightarrow> ident list \<Rightarrow> ident set \<Rightarrow> budget \<Rightarrow> ident set analysed"
where
  "raf_loop clock ts ids closure b =
     res_bind (raf_pass clock ts ids closure False b)
       (\<lambda>r. if snd (fst r) then raf_loop clock ts ids (fst (fst r)) (snd r)
            else Inr (fst (fst r), snd r))"
  by pat_completeness auto

termination
proof (relation "measure (\<lambda>(clock, ts, ids, closure, b). card (produced ts ids - closure))")
  fix clock ts ids closure b and r :: "(ident set \<times> bool) \<times> budget"
  assume "raf_pass clock ts ids closure False b = Inr r" "snd (fst r)"
  then obtain A' b' where "r = ((A', True), b')"
    "raf_pass clock ts ids closure False b = Inr ((A', True), b')" by (cases r; cases "fst r") auto
  then show "((clock, ts, ids, fst (fst r), snd r), clock, ts, ids, closure, b)
      \<in> measure (\<lambda>(clock, ts, ids, closure, b). card (produced ts ids - closure))"
    using raf_pass_grows [of clock ts ids closure False b A' True b'] by (simp add: pass_measure)
qed simp

declare raf_loop.simps [simp del]

definition raf_closure ::
  "(nat \<Rightarrow> int) \<Rightarrow> ident list \<Rightarrow> ident list \<Rightarrow> transformations \<Rightarrow> budget \<Rightarrow> ident set analysed"
where
  "raf_closure clock food ids ts b = raf_loop clock ts (sorted_set ids) (set food) b"

section \<open>Enumerations of minimal sets\<close>

text \<open>
  The three enumerations share one loop: candidates by size, a budget unit for each, candidates that
  contain a recorded set skipped, the test of the function otherwise.
\<close>

record enumeration_result =
  enum_values :: "ident list list"
  enum_exhaustive :: bool

definition minimal_step ::
  "(nat \<Rightarrow> int) \<Rightarrow> (ident list \<Rightarrow> budget \<Rightarrow> bool analysed) \<Rightarrow> ident list \<Rightarrow> ident list list \<times> budget \<Rightarrow>
   (ident list list) analysed" where
  "minimal_step clock test candidate s =
     (let (minimal, b) = s in
      res_bind (spend clock 1 b) (\<lambda>b.
        if \<exists>existing \<in> set minimal. set existing \<subseteq> set candidate then Inr (minimal, b)
        else res_bind (test candidate b) (\<lambda>(hit, b).
               Inr (if hit then minimal @ [candidate] else minimal, b))))"

definition candidates :: "nat \<Rightarrow> ident list \<Rightarrow> ident list list" where
  "candidates smallest ordered =
     concat (map (\<lambda>size. combinations size ordered) [smallest..<Suc (length ordered)])"

definition enumerate_minimal ::
  "(nat \<Rightarrow> int) \<Rightarrow> (ident list \<Rightarrow> budget \<Rightarrow> bool analysed) \<Rightarrow> nat \<Rightarrow> ident list \<Rightarrow> budget \<Rightarrow>
   (ident list list) analysed" where
  "enumerate_minimal clock test smallest ordered b =
     fold_res (minimal_step clock test) (candidates smallest ordered) ([], b)"

definition is_siphon :: "(ident set \<times> ident set) list \<Rightarrow> ident list \<Rightarrow> bool" where
  "is_siphon flow_pairs candidate \<longleftrightarrow>
     (\<forall>(inputs, outputs) \<in> set flow_pairs.
        outputs \<inter> set candidate = {} \<or> inputs \<inter> set candidate \<noteq> {})"

definition enumerate_minimal_siphons ::
  "(nat \<Rightarrow> int) \<Rightarrow> transformations \<Rightarrow> ident list \<Rightarrow> nat \<Rightarrow> budget \<Rightarrow> enumeration_result analysed" where
  "enumerate_minimal_siphons clock ts coordinates maximum b =
     (let ordered = sorted_set coordinates;
          flow_pairs = map flows (dict_values ts)
      in if length ordered > maximum then Inr (\<lparr>enum_values = [], enum_exhaustive = False\<rparr>, b)
         else res_bind (enumerate_minimal clock (\<lambda>c b. Inr (is_siphon flow_pairs c, b)) 1 ordered b)
                (\<lambda>(minimal, b). Inr (\<lparr>enum_values = minimal, enum_exhaustive = True\<rparr>, b)))"

definition unfed_siphons ::
  "ident list list \<Rightarrow> (ident, rat) dict \<Rightarrow> ident list \<Rightarrow> ident list list" where
  "unfed_siphons siphons initial_markings supplied =
     sort (map sorted_set (filter (\<lambda>siphon.
       \<not> (\<exists>item \<in> set siphon. dict_get_default initial_markings item 0 > 0)
       \<and> set siphon \<inter> set supplied = {}) siphons))"

definition cut_test ::
  "(nat \<Rightarrow> int) \<Rightarrow> ident list \<Rightarrow> ident list \<Rightarrow> transformations \<Rightarrow> ident list \<Rightarrow> ident list \<Rightarrow> budget \<Rightarrow>
   bool analysed" where
  "cut_test clock initial targets ts ordered candidate b =
     res_bind (structural_closure clock initial ts
                 (Some (filter (\<lambda>i. i \<notin> set candidate) ordered)) b)
       (\<lambda>(reached, b). Inr (\<not> set targets \<subseteq> reached, b))"

definition enumerate_minimal_cut_sets ::
  "(nat \<Rightarrow> int) \<Rightarrow> ident list \<Rightarrow> ident list \<Rightarrow> transformations \<Rightarrow> nat \<Rightarrow> budget \<Rightarrow>
   enumeration_result analysed" where
  "enumerate_minimal_cut_sets clock initial targets ts maximum b =
     (let ordered = known_ids ts
      in if length ordered > maximum then Inr (\<lparr>enum_values = [], enum_exhaustive = False\<rparr>, b)
         else res_bind (structural_closure clock initial ts None b) (\<lambda>(reached, b).
           if \<not> set targets \<subseteq> reached
           then Inr (\<lparr>enum_values = [[]], enum_exhaustive = True\<rparr>, b)
           else res_bind (enumerate_minimal clock (cut_test clock initial targets ts ordered) 1 ordered b)
             (\<lambda>(minimal, b). Inr (\<lparr>enum_values = minimal, enum_exhaustive = True\<rparr>, b))))"

definition enablement_test ::
  "(nat \<Rightarrow> int) \<Rightarrow> ident list \<Rightarrow> ident list \<Rightarrow> transformations \<Rightarrow> ident list \<Rightarrow> budget \<Rightarrow>
   bool analysed" where
  "enablement_test clock initial targets ts candidate b =
     res_bind (structural_closure clock initial ts (Some candidate) b)
       (\<lambda>(reached, b). Inr (set targets \<subseteq> reached, b))"

definition enumerate_minimal_enablement_sets ::
  "(nat \<Rightarrow> int) \<Rightarrow> ident list \<Rightarrow> ident list \<Rightarrow> transformations \<Rightarrow> nat \<Rightarrow> budget \<Rightarrow>
   enumeration_result analysed" where
  "enumerate_minimal_enablement_sets clock initial targets ts maximum b =
     (let ordered = known_ids ts
      in if length ordered > maximum then Inr (\<lparr>enum_values = [], enum_exhaustive = False\<rparr>, b)
         else res_bind (enumerate_minimal clock (enablement_test clock initial targets ts) 0 ordered b)
           (\<lambda>(minimal, b). Inr (\<lparr>enum_values = minimal, enum_exhaustive = True\<rparr>, b)))"

section \<open>Autocatalytic sets\<close>

text \<open>
  The conditions under which a transformation may run in a set of available coordinates, which
  \<open>_is_generalized_raf\<close> checks against a closure and the generative loop against earlier layers.
\<close>

definition supported ::
  "transformations \<Rightarrow> ident list \<Rightarrow> ident list \<Rightarrow> ident set \<Rightarrow> ident \<Rightarrow> bool" where
  "supported ts evidence authority available i \<longleftrightarrow>
     (let t = lookup ts i in
      fst (flows t) \<subseteq> available \<and>
      set (inhibitors t) \<inter> available = {} \<and>
      set (required_evidence t) \<subseteq> set evidence \<and>
      set (required_authority t) \<subseteq> set authority \<and>
      (uncatalyzed t \<or> (\<exists>clause \<in> set (catalyst_clauses t). set clause \<subseteq> available)))"

definition is_generalized_raf ::
  "ident list \<Rightarrow> transformations \<Rightarrow> ident set \<Rightarrow> ident list \<Rightarrow> ident list \<Rightarrow> bool" where
  "is_generalized_raf ids ts closure evidence authority \<longleftrightarrow>
     ids \<noteq> [] \<and> (\<forall>i \<in> set ids. supported ts evidence authority closure i)"

record raf_analysis =
  maximal_rafs :: "ident list list"
  full_set_is_raf :: bool
  generalized_closure :: "ident list"
  generative_layers :: "ident list list"
  generative_closure :: "ident list"
  raf_exhaustive :: bool

definition raf_step ::
  "(nat \<Rightarrow> int) \<Rightarrow> transformations \<Rightarrow> ident list \<Rightarrow> ident list \<Rightarrow> ident list \<Rightarrow> ident list \<Rightarrow>
   (ident list, ident set) dict \<times> budget \<Rightarrow> ((ident list, ident set) dict) analysed" where
  "raf_step clock ts food evidence authority candidate s =
     (let (valid, b) = s in
      res_bind (spend clock 1 b) (\<lambda>b.
      res_bind (raf_closure clock food candidate ts b) (\<lambda>(closure, b).
        Inr (if is_generalized_raf candidate ts closure evidence authority
             then valid @ [(candidate, closure)] else valid, b))))"

fun layer_loop ::
  "(nat \<Rightarrow> int) \<Rightarrow> transformations \<Rightarrow> ident list \<Rightarrow> ident list \<Rightarrow> ident set \<Rightarrow> ident list \<Rightarrow> budget \<Rightarrow>
   (ident list) analysed" where
  "layer_loop clock ts evidence authority available [] b = Inr ([], b)"
| "layer_loop clock ts evidence authority available (i # is) b =
     res_bind (spend clock 1 b) (\<lambda>b.
     res_bind (layer_loop clock ts evidence authority available is b) (\<lambda>(layer, b).
       Inr (if supported ts evidence authority available i then i # layer else layer, b)))"

lemma layer_loop_filter:
  "layer_loop clock ts ev au A is b = Inr (layer, b') \<Longrightarrow> layer = filter (supported ts ev au A) is"
  by (induction "is" arbitrary: b layer b') (auto split: if_splits)

function generative_loop ::
  "(nat \<Rightarrow> int) \<Rightarrow> transformations \<Rightarrow> ident list \<Rightarrow> ident list \<Rightarrow> ident set \<Rightarrow> ident list \<Rightarrow>
   ident list list \<Rightarrow> budget \<Rightarrow> (ident set \<times> ident list list) analysed" where
  "generative_loop clock ts evidence authority available rest layers b =
     (if rest = [] then Inr ((available, layers), b)
      else res_bind (layer_loop clock ts evidence authority available rest b) (\<lambda>r.
        if fst r = [] then Inr ((available, layers), snd r)
        else generative_loop clock ts evidence authority (available \<union> produced ts (fst r))
               (filter (\<lambda>i. i \<notin> set (fst r)) rest) (layers @ [fst r]) (snd r)))"
  by pat_completeness auto
termination
proof (relation "measure (\<lambda>(clock, ts, ev, au, available, rest, layers, b). length rest)")
  fix clock ts ev au available rest b layers and r :: "ident list \<times> budget"
  assume h: "rest \<noteq> []" "layer_loop clock ts ev au available rest b = Inr r" "fst r \<noteq> []"
  then have "fst r = filter (supported ts ev au available) rest"
    using layer_loop_filter [of clock ts ev au available rest b "fst r" "snd r"] by simp
  then obtain i where "i \<in> set rest" "i \<in> set (fst r)" using h(3) by (cases "fst r") (auto, metis filter_eq_ConsD in_set_conv_decomp)
  then have "length (filter (\<lambda>i. i \<notin> set (fst r)) rest) < length rest"
    by (metis length_filter_less)
  then show "((clock, ts, ev, au, available \<union> produced ts (fst r), filter (\<lambda>i. i \<notin> set (fst r)) rest,
        layers @ [fst r], snd r), clock, ts, ev, au, available, rest, layers, b)
      \<in> measure (\<lambda>(clock, ts, ev, au, available, rest, layers, b). length rest)"
    by simp
qed simp

declare generative_loop.simps [simp del]

definition exact_generalized_generative_raf ::
  "(nat \<Rightarrow> int) \<Rightarrow> transformations \<Rightarrow> ident list \<Rightarrow> ident list \<Rightarrow> ident list \<Rightarrow> nat \<Rightarrow> budget \<Rightarrow>
   raf_analysis analysed" where
  "exact_generalized_generative_raf clock ts food evidence authority maximum b =
     (let ids = known_ids ts
      in if length ids > maximum
         then Inr (\<lparr>maximal_rafs = [], full_set_is_raf = False, generalized_closure = sorted_set food,
                    generative_layers = [], generative_closure = sorted_set food,
                    raf_exhaustive = False\<rparr>, b)
         else
           res_bind (fold_res (raf_step clock ts food evidence authority) (candidates 1 ids) ([], b))
             (\<lambda>(valid, b).
           res_bind (generative_loop clock ts evidence authority (set food) ids [] b)
             (\<lambda>((available, layers), b).
           Inr (\<lparr>maximal_rafs =
                    sort (filter (\<lambda>c. \<not> (\<exists>other \<in> set (dict_keys valid). set c \<subset> set other)) (dict_keys valid)),
                  full_set_is_raf = (ids \<in> set (dict_keys valid)),
                  generalized_closure = sorted_list_of_set (dict_get_default valid ids (set food)),
                  generative_layers = layers,
                  generative_closure = sorted_list_of_set available,
                  raf_exhaustive = True\<rparr>, b))))"

end
