(* ===== verification/Linear.thy ===== *)
theory Linear
  imports Structural
begin

text \<open>
  Exact linear algebra of \<open>v6/structural_analysis.py\<close>: the stoichiometric matrix, the basis of its
  nullspace by Gauss-Jordan elimination, and proportionality of two rows. A matrix is a list of rows; the
  source builds only matrices whose rows all have \<open>columns\<close> entries, which is the hypothesis of the lemmas.
\<close>

section \<open>The code\<close>

definition coordinates_of :: "transformations \<Rightarrow> ident list \<Rightarrow> ident list" where
  "coordinates_of ts ids = sorted_set (concat (map (\<lambda>i.
     dict_keys (tr_inputs (lookup ts i)) @ dict_keys (tr_outputs (lookup ts i))) ids))"

definition stoichiometric_matrix :: "transformations \<Rightarrow> ident list \<Rightarrow> ident list \<times> rat list list" where
  "stoichiometric_matrix ts ids =
     (let coordinates = coordinates_of ts ids
      in (coordinates, map (\<lambda>c. map (\<lambda>i.
            dict_get_default (tr_outputs (lookup ts i)) c 0 - dict_get_default (tr_inputs (lookup ts i)) c 0) ids)
          coordinates))"

text \<open>Bring row \<open>i\<close> up to row \<open>p\<close>, make its entry in column \<open>c\<close> one, and clear the column elsewhere.\<close>

definition pivot_step :: "rat list list \<Rightarrow> nat \<Rightarrow> nat \<Rightarrow> nat \<Rightarrow> rat list list" where
  "pivot_step rows p i c =
     (let swapped = rows[p := rows ! i, i := rows ! p];
          unit = map (\<lambda>v. v / (swapped ! p ! c)) (swapped ! p)
      in map (\<lambda>(k, row). if k = p \<or> row ! c = 0 then row else map2 (\<lambda>l r. l - row ! c * r) row unit)
           (List.enumerate 0 (swapped[p := unit])))"

fun eliminate :: "nat list \<Rightarrow> rat list list \<Rightarrow> nat list \<Rightarrow> rat list list \<times> nat list" where
  "eliminate [] rows pivots = (rows, pivots)"
| "eliminate (c # cs) rows pivots =
     (case find (\<lambda>i. rows ! i ! c \<noteq> 0) [length pivots..<length rows] of
        None \<Rightarrow> eliminate cs rows pivots
      | Some i \<Rightarrow>
          let rows = pivot_step rows (length pivots) i c; pivots = pivots @ [c]
          in if length pivots = length rows then (rows, pivots) else eliminate cs rows pivots)"

definition basis_vector :: "nat \<Rightarrow> rat list list \<Rightarrow> nat list \<Rightarrow> nat \<Rightarrow> rat list" where
  "basis_vector columns rows pivots free =
     fold (\<lambda>(k, pivot) v. v[pivot := - (rows ! k ! free)]) (List.enumerate 0 pivots)
       ((replicate columns 0)[free := 1])"

definition nullspace :: "rat list list \<Rightarrow> nat \<Rightarrow> rat list list" where
  "nullspace matrix columns =
     (let (rows, pivots) = eliminate [0..<columns] matrix []
      in map (basis_vector columns rows pivots) (filter (\<lambda>c. c \<notin> set pivots) [0..<columns]))"

text \<open>The loop of \<open>_proportional\<close>, with the ratio found so far.\<close>

fun proportional_loop :: "(rat \<times> rat) list \<Rightarrow> rat option \<Rightarrow> bool" where
  "proportional_loop [] ratio = (ratio \<noteq> None)"
| "proportional_loop ((l, r) # rest) ratio =
     (if l = 0 \<and> r = 0 then proportional_loop rest ratio
      else if l = 0 \<or> r = 0 then False
      else if l / r \<le> 0 then False
      else case ratio of
          None \<Rightarrow> proportional_loop rest (Some (l / r))
        | Some q \<Rightarrow> if l / r \<noteq> q then False else proportional_loop rest ratio)"

definition proportional :: "rat list \<Rightarrow> rat list \<Rightarrow> bool" where
  "proportional left right = proportional_loop (zip left right) None"

text \<open>The exact recheck of a linear combination.\<close>

definition dot :: "rat list \<Rightarrow> rat list \<Rightarrow> rat" where
  "dot row v = sum_list (map2 (*) row v)"

section \<open>Solutions are preserved\<close>

definition rectangular :: "nat \<Rightarrow> rat list list \<Rightarrow> bool" where
  "rectangular n rows \<longleftrightarrow> (\<forall>r \<in> set rows. length r = n)"

definition solutions :: "nat \<Rightarrow> rat list list \<Rightarrow> rat list set" where
  "solutions n rows = {v. length v = n \<and> (\<forall>r \<in> set rows. dot r v = 0)}"

lemma dot_sum: "length r = n \<Longrightarrow> length v = n \<Longrightarrow> dot r v = (\<Sum>c<n. r ! c * v ! c)"
  by (simp add: dot_def sum_list_sum_nth atLeast0LessThan)

lemma dot_scaled: "dot (map (\<lambda>x. x / d) r) v = dot r v / d"
  unfolding dot_def
  by (induction r v rule: list_induct2') (simp_all add: add_divide_distrib)

lemma dot_combined:
  "length a = length b \<Longrightarrow> length v = length b \<Longrightarrow>
   dot (map2 (\<lambda>l r. l - f * r) a b) v = dot a v - f * dot b v"
  unfolding dot_def by (induction a b arbitrary: v rule: list_induct2) (auto simp: length_Suc_conv algebra_simps)

lemma pivot_step_length [simp]: "length (pivot_step rows p i c) = length rows"
  by (simp add: pivot_step_def Let_def)

text \<open>The new rows, one by one.\<close>

lemma pivot_step_nth:
  fixes c :: nat
  assumes "p \<le> i" "i < length rows" "k < length rows"
  defines "unit \<equiv> map (\<lambda>v. v / (rows ! i ! c)) (rows ! i)"
  defines "old \<equiv> (if k = i then rows ! p else rows ! k)"
  shows "pivot_step rows p i c ! k =
    (if k = p then unit else if old ! c = 0 then old else map2 (\<lambda>l r. l - old ! c * r) old unit)"
proof -
  have "rows[p := rows ! i, i := rows ! p] ! p = rows ! i"
    using assms(1,2) by (cases "p = i") auto
  moreover have "k \<noteq> p \<Longrightarrow> rows[p := rows ! i, i := rows ! p] ! k = old"
    using assms by (auto simp: nth_list_update)
  ultimately show ?thesis
    using assms by (auto simp: pivot_step_def Let_def nth_enumerate_eq)
qed

lemma pivot_step_rectangular:
  assumes "p \<le> i" "i < length rows" "rectangular n rows"
  shows "rectangular n (pivot_step rows p i c)"
proof -
  have "length (pivot_step rows p i c ! k) = n" if "k < length rows" for k
    using assms that unfolding rectangular_def
    by (subst pivot_step_nth) (auto simp: all_set_conv_all_nth)
  then show ?thesis by (auto simp: rectangular_def all_set_conv_all_nth)
qed

lemma pivot_step_entry:
  assumes "p \<le> i" "i < length rows" "rectangular n rows" "k < length rows" "d < n" "c < n"
  defines "old \<equiv> (if k = i then rows ! p else rows ! k)"
  shows "pivot_step rows p i c ! k ! d =
    (if k = p then rows ! i ! d / rows ! i ! c
     else old ! d - old ! c * (rows ! i ! d / rows ! i ! c))"
proof -
  have "length (rows ! j) = n" if "j < length rows" for j
    using assms(3) that by (auto simp: rectangular_def)
  then show ?thesis
    using assms unfolding old_def by (subst pivot_step_nth) auto
qed

lemma pivot_step_dot:
  assumes "p \<le> i" "i < length rows" "rectangular n rows" "k < length rows" "length v = n"
  defines "old \<equiv> (if k = i then rows ! p else rows ! k)"
  shows "dot (pivot_step rows p i c ! k) v =
    (if k = p then dot (rows ! i) v / rows ! i ! c
     else dot old v - old ! c * (dot (rows ! i) v / rows ! i ! c))"
proof -
  have "length (rows ! j) = n" if "j < length rows" for j
    using assms(3) that by (auto simp: rectangular_def)
  then show ?thesis
    using assms unfolding old_def
    by (subst pivot_step_nth) (auto simp: dot_scaled dot_combined)
qed

lemma pivot_step_solutions:
  assumes "p \<le> i" "i < length rows" "rectangular n rows" "rows ! i ! c \<noteq> 0"
  shows "solutions n (pivot_step rows p i c) = solutions n rows"
proof -
  have "(\<forall>k < length rows. dot (pivot_step rows p i c ! k) v = 0) \<longleftrightarrow> (\<forall>k < length rows. dot (rows ! k) v = 0)"
    if v: "length v = n" for v
  proof
    assume new: "\<forall>k < length rows. dot (pivot_step rows p i c ! k) v = 0"
    have i0: "dot (rows ! i) v = 0"
      using new [rule_format, of p] assms v by (simp add: pivot_step_dot)
    have "dot (rows ! k) v = 0" if "k < length rows" "k \<noteq> i" for k
    proof (cases "k = p")
      case True
      then show ?thesis using new [rule_format, of i] assms v that i0 by (simp add: pivot_step_dot)
    next
      case False
      then show ?thesis using new [rule_format, of k] assms v that i0 by (simp add: pivot_step_dot)
    qed
    with i0 have "dot (rows ! k) v = 0" if "k < length rows" for k
      using that by (cases "k = i") auto
    then show "\<forall>k < length rows. dot (rows ! k) v = 0" by simp
  next
    assume "\<forall>k < length rows. dot (rows ! k) v = 0"
    then show "\<forall>k < length rows. dot (pivot_step rows p i c ! k) v = 0"
      using assms v by (auto simp: pivot_step_dot)
  qed
  then show ?thesis by (auto simp: solutions_def all_set_conv_all_nth)
qed

section \<open>The reduced form\<close>

text \<open>Column \<open>c\<close> is next: the pivot columns are unit columns, the rows below the pivots are zero so far.\<close>

definition reduced :: "nat \<Rightarrow> nat \<Rightarrow> rat list list \<Rightarrow> nat list \<Rightarrow> bool" where
  "reduced n c rows pivots \<longleftrightarrow>
     rectangular n rows \<and> c \<le> n \<and> length pivots \<le> length rows \<and> distinct pivots \<and> set pivots \<subseteq> {..<c} \<and>
     (\<forall>k < length rows. \<forall>j < length pivots. rows ! k ! (pivots ! j) = of_bool (k = j)) \<and>
     (\<forall>k < length rows. length pivots \<le> k \<longrightarrow> (\<forall>d < c. rows ! k ! d = 0))"

lemma reduced_skip:
  assumes "reduced n c rows pivots" "c < n"
    and "find (\<lambda>i. rows ! i ! c \<noteq> 0) [length pivots..<length rows] = None"
  shows "reduced n (Suc c) rows pivots"
  using assms by (fastforce simp: reduced_def find_None_iff less_Suc_eq)

lemma reduced_pivot:
  assumes red: "reduced n c rows pivots" and c: "c < n"
    and i: "length pivots \<le> i" "i < length rows" "rows ! i ! c \<noteq> 0"
  shows "reduced n (Suc c) (pivot_step rows (length pivots) i c) (pivots @ [c])"
proof -
  let ?p = "length pivots"
  let ?new = "pivot_step rows ?p i c"
  have rect: "rectangular n rows" and below: "\<And>k d. k < length rows \<Longrightarrow> ?p \<le> k \<Longrightarrow> d < c \<Longrightarrow> rows ! k ! d = 0"
    and unit: "\<And>k j. k < length rows \<Longrightarrow> j < ?p \<Longrightarrow> rows ! k ! (pivots ! j) = of_bool (k = j)"
    and piv: "distinct pivots" "set pivots \<subseteq> {..<c}"
    using red by (simp_all add: reduced_def)
  have entry: "?new ! k ! d = (if k = ?p then rows ! i ! d / rows ! i ! c
      else (if k = i then rows ! ?p else rows ! k) ! d -
           (if k = i then rows ! ?p else rows ! k) ! c * (rows ! i ! d / rows ! i ! c))"
    if "k < length rows" "d < n" for k d
    using pivot_step_entry [OF i(1,2) rect that(1,2) c] by simp
  have old: "?new ! k ! (pivots ! j) = of_bool (k = j)" if "k < length rows" "j < ?p" for k j
  proof -
    have "pivots ! j < n" using piv(2) that c nth_mem [of j pivots] by fastforce
    then show ?thesis
      using that i unit [of k j] unit [of i j] unit [of ?p j] by (auto simp: entry)
  qed
  have col: "?new ! k ! c = of_bool (k = ?p)" if "k < length rows" for k
    using that c i by (simp add: entry)
  have zero: "?new ! k ! d = 0" if "k < length rows" "?p < k" "d < c" for k d
    using that c i below [of k d] below [of i d] below [of ?p d] by (simp add: entry)
  show ?thesis
    using i c piv old col zero pivot_step_rectangular [OF i(1,2) rect]
    by (auto simp: reduced_def nth_append less_Suc_eq)
qed

lemma eliminate_reduced:
  assumes "eliminate [c..<n] rows pivots = (rows', pivots')" "reduced n c rows pivots"
  shows "solutions n rows' = solutions n rows \<and> length rows' = length rows \<and>
    (reduced n n rows' pivots' \<or> (\<exists>c' \<le> n. reduced n c' rows' pivots' \<and> length pivots' = length rows'))"
  using assms
proof (induction "[c..<n]" arbitrary: c rows pivots)
  case Nil
  then have "[c..<n] = []" "c \<le> n" by (simp_all add: reduced_def)
  then have "c = n" by auto
  with Nil show ?case by simp
next
  case (Cons d cs)
  have "[c..<n] = d # cs" using Cons.hyps(2) by simp
  then have c: "d = c" "cs = [Suc c..<n]" "c < n"
    using upt_eq_Cons_conv [of c n d cs] by auto
  show ?case
  proof (cases "find (\<lambda>i. rows ! i ! c \<noteq> 0) [length pivots..<length rows]")
    case None
    have "eliminate cs rows pivots = (rows', pivots')"
      using Cons.prems(1) c None by (simp add: upt_conv_Cons)
    then have "eliminate [Suc c..<n] rows pivots = (rows', pivots')" using c(2) by simp
    then show ?thesis by (rule Cons.hyps(1) [OF c(2) _ reduced_skip [OF Cons.prems(2) c(3) None]])
  next
    case (Some i)
    then have i: "length pivots \<le> i" "i < length rows" "rows ! i ! c \<noteq> 0"
      by (auto simp: find_Some_iff)
    let ?new = "pivot_step rows (length pivots) i c"
    have red: "reduced n (Suc c) ?new (pivots @ [c])"
      using Cons.prems(2) c(3) i by (rule reduced_pivot)
    have sol: "solutions n ?new = solutions n rows"
      using Cons.prems(2) i by (intro pivot_step_solutions) (auto simp: reduced_def)
    show ?thesis
    proof (cases "Suc (length pivots) = length rows")
      case True
      then have "rows' = ?new" "pivots' = pivots @ [c]"
        using Cons.prems(1) c Some by (auto simp: upt_conv_Cons Let_def)
      then show ?thesis using red sol True c by (auto intro: exI [of _ "Suc c"])
    next
      case False
      then have "eliminate [Suc c..<n] ?new (pivots @ [c]) = (rows', pivots')"
        using Cons.prems(1) c Some by (auto simp: upt_conv_Cons Let_def)
      from Cons.hyps(1) [OF c(2) this red] show ?thesis unfolding sol pivot_step_length .
    qed
  qed
qed

section \<open>The basis\<close>

definition combination :: "nat \<Rightarrow> rat list \<Rightarrow> rat list list \<Rightarrow> rat list" where
  "combination n cs vs = map (\<lambda>c. \<Sum>k<length vs. cs ! k * vs ! k ! c) [0..<n]"

abbreviation frees :: "nat \<Rightarrow> nat list \<Rightarrow> nat list" where
  "frees n pivots \<equiv> filter (\<lambda>c. c \<notin> set pivots) [0..<n]"

lemma basis_vector_fold:
  fixes rows :: "rat list list" and free m :: nat
  assumes "distinct pivots" "set pivots \<subseteq> {..<length v}"
  defines "w \<equiv> fold (\<lambda>(k, pivot) v. v[pivot := - (rows ! k ! free)]) (List.enumerate m pivots) v"
  shows "length w = length v \<and> (\<forall>j < length pivots. w ! (pivots ! j) = - (rows ! (m + j) ! free)) \<and>
    (\<forall>c < length v. c \<notin> set pivots \<longrightarrow> w ! c = v ! c)"
  using assms(1,2) unfolding w_def
proof (induction pivots arbitrary: m v)
  case (Cons p ps)
  then show ?case using Cons.IH [of "v[p := - (rows ! m ! free)]" "Suc m"]
    by (auto simp: nth_Cons' less_Suc_eq_0_disj split: nat.splits)
qed simp

lemma basis_vector_facts:
  assumes "distinct pivots" "set pivots \<subseteq> {..<n}" "free < n" "free \<notin> set pivots"
  shows "length (basis_vector n rows pivots free) = n"
    and "j < length pivots \<Longrightarrow> basis_vector n rows pivots free ! (pivots ! j) = - (rows ! j ! free)"
    and "c < n \<Longrightarrow> c \<notin> set pivots \<Longrightarrow> basis_vector n rows pivots free ! c = of_bool (c = free)"
  using basis_vector_fold [of pivots "(replicate n 0)[free := 1]" rows free 0] assms
  by (auto simp: basis_vector_def nth_list_update)

text \<open>A solution is its free entries: each pivot entry follows from them.\<close>

lemma reduced_solutions:
  assumes "reduced n c rows pivots" "c = n \<or> length pivots = length rows" "length v = n"
  shows "v \<in> solutions n rows \<longleftrightarrow>
    (\<forall>j < length pivots. v ! (pivots ! j) = - (\<Sum>d \<in> {..<n} - set pivots. rows ! j ! d * v ! d))"
proof -
  have piv: "distinct pivots" "set pivots \<subseteq> {..<n}" "length pivots \<le> length rows"
    using assms(1) by (auto simp: reduced_def)
  have row: "dot (rows ! k) v = (\<Sum>d \<in> set pivots. rows ! k ! d * v ! d) +
      (\<Sum>d \<in> {..<n} - set pivots. rows ! k ! d * v ! d)" if "k < length rows" for k
  proof -
    have "length (rows ! k) = n" using assms(1) that by (auto simp: reduced_def rectangular_def)
    then show ?thesis
      using sum.subset_diff [OF piv(2), of "\<lambda>d. rows ! k ! d * v ! d"] assms(3) by (simp add: dot_sum)
  qed
  have pivot_sum: "(\<Sum>d \<in> set pivots. rows ! k ! d * v ! d) =
      (if k < length pivots then v ! (pivots ! k) else 0)" if "k < length rows" for k
  proof -
    have "(\<Sum>d \<in> set pivots. rows ! k ! d * v ! d) =
        (\<Sum>j<length pivots. rows ! k ! (pivots ! j) * v ! (pivots ! j))"
      using sum.reindex_bij_betw [OF bij_betw_nth [OF piv(1) refl refl], of "\<lambda>d. rows ! k ! d * v ! d"] by simp
    also have "\<dots> = (\<Sum>j<length pivots. if k = j then v ! (pivots ! j) else 0)"
      using assms(1) that by (intro sum.cong) (auto simp: reduced_def)
    finally show ?thesis by simp
  qed
  have zero: "(\<Sum>d \<in> {..<n} - set pivots. rows ! k ! d * v ! d) = 0"
    if "k < length rows" "length pivots \<le> k" for k
    using assms(1,2) that by (intro sum.neutral) (auto simp: reduced_def)
  have "v \<in> solutions n rows \<longleftrightarrow> (\<forall>k < length rows. dot (rows ! k) v = 0)"
    using assms(3) by (auto simp: solutions_def all_set_conv_all_nth)
  also have "\<dots> \<longleftrightarrow> (\<forall>k < length pivots. dot (rows ! k) v = 0)"
  proof -
    have "dot (rows ! k) v = 0" if "k < length rows" "length pivots \<le> k" for k
      using row [OF that(1)] pivot_sum [OF that(1)] zero [OF that] that(2) by simp
    then show ?thesis using piv(3) by (meson less_le_trans not_le)
  qed
  also have "\<dots> \<longleftrightarrow> (\<forall>j < length pivots. v ! (pivots ! j) = - (\<Sum>d \<in> {..<n} - set pivots. rows ! j ! d * v ! d))"
    using row pivot_sum piv(3) by (auto simp: eq_neg_iff_add_eq_0)
  finally show ?thesis .
qed

lemma eliminate_start:
  assumes "rectangular n m" "eliminate [0..<n] m [] = (rows, pivots)"
  shows "solutions n rows = solutions n m \<and>
    (\<exists>c. reduced n c rows pivots \<and> (c = n \<or> length pivots = length rows))"
proof -
  have "reduced n 0 m []" using assms(1) by (simp add: reduced_def)
  from eliminate_reduced [OF assms(2) this] show ?thesis by blast
qed

lemma nullspace_cases:
  assumes "rectangular n m"
  obtains rows pivots c where "nullspace m n = map (basis_vector n rows pivots) (frees n pivots)"
    "solutions n rows = solutions n m" "reduced n c rows pivots" "c = n \<or> length pivots = length rows"
proof -
  obtain rows pivots where e: "eliminate [0..<n] m [] = (rows, pivots)" by (cases "eliminate [0..<n] m []")
  then obtain c where "solutions n rows = solutions n m" "reduced n c rows pivots"
    "c = n \<or> length pivots = length rows"
    using eliminate_start [OF assms e] by blast
  moreover have "nullspace m n = map (basis_vector n rows pivots) (frees n pivots)"
    by (simp add: nullspace_def e)
  ultimately show thesis using that by blast
qed

lemma combination_frees:
  fixes rows :: "rat list list"
  assumes "distinct pivots" "set pivots \<subseteq> {..<n}" "length cs = length (frees n pivots)"
  defines "v \<equiv> combination n cs (map (basis_vector n rows pivots) (frees n pivots))"
  shows "length v = n" and "k < length (frees n pivots) \<Longrightarrow> v ! (frees n pivots ! k) = cs ! k"
    and "j < length pivots \<Longrightarrow> v ! (pivots ! j) = - (\<Sum>d \<in> {..<n} - set pivots. rows ! j ! d * v ! d)"
proof -
  let ?F = "frees n pivots"
  have F: "?F ! k < n" "?F ! k \<notin> set pivots" if "k < length ?F" for k
    using nth_mem [OF that] by auto
  show len: "length v = n" by (simp add: v_def combination_def)
  have free: "v ! (?F ! k) = cs ! k" if k: "k < length ?F" for k
  proof -
    have "v ! (?F ! k) = (\<Sum>l<length ?F. cs ! l * of_bool (?F ! k = ?F ! l))"
      using F [OF k] by (auto simp: v_def combination_def basis_vector_facts [OF assms(1,2) F] intro!: sum.cong)
    also have "\<dots> = (\<Sum>l<length ?F. if k = l then cs ! l else 0)"
      using k by (intro sum.cong) (auto simp: nth_eq_iff_index_eq)
    finally show ?thesis using k by simp
  qed
  then show "k < length ?F \<Longrightarrow> v ! (?F ! k) = cs ! k" .
  assume j: "j < length pivots"
  then have "pivots ! j < n" using assms(2) nth_mem [OF j] by blast
  then have "v ! (pivots ! j) = (\<Sum>l<length ?F. cs ! l * - (rows ! j ! (?F ! l)))"
    by (auto simp: v_def combination_def basis_vector_facts(2) [OF assms(1,2) F j] intro!: sum.cong)
  also have "\<dots> = - (\<Sum>l<length ?F. rows ! j ! (?F ! l) * v ! (?F ! l))"
    by (simp add: free sum_negf mult.commute)
  also have "(\<Sum>l<length ?F. rows ! j ! (?F ! l) * v ! (?F ! l)) = (\<Sum>d \<in> set ?F. rows ! j ! d * v ! d)"
    using sum.reindex_bij_betw [OF bij_betw_nth [of ?F, OF _ refl refl], of "\<lambda>d. rows ! j ! d * v ! d"] by simp
  also have "set ?F = {..<n} - set pivots" by auto
  finally show "v ! (pivots ! j) = - (\<Sum>d \<in> {..<n} - set pivots. rows ! j ! d * v ! d)" .
qed

lemma nullspace_spans:
  assumes "rectangular n m" "v \<in> solutions n m"
  shows "\<exists>cs. length cs = length (nullspace m n) \<and> v = combination n cs (nullspace m n)"
proof -
  obtain rows pivots c where red: "nullspace m n = map (basis_vector n rows pivots) (frees n pivots)"
    "solutions n rows = solutions n m" "reduced n c rows pivots" "c = n \<or> length pivots = length rows"
    using assms(1) by (rule nullspace_cases)
  have piv: "distinct pivots" "set pivots \<subseteq> {..<n}" using red(3) by (auto simp: reduced_def)
  let ?cs = "map (\<lambda>d. v ! d) (frees n pivots)"
  let ?w = "combination n ?cs (nullspace m n)"
  note w = combination_frees [OF piv, where cs = ?cs and rows = rows, folded red(1)]
  have len: "length v = n" using assms(2) by (simp add: solutions_def)
  have free: "?w ! d = v ! d" if "d \<in> {..<n} - set pivots" for d
  proof -
    have "d \<in> set (frees n pivots)" using that by auto
    then obtain k where "k < length (frees n pivots)" "frees n pivots ! k = d"
      unfolding in_set_conv_nth [of d] by blast
    then show ?thesis using w(2) [of k] by simp
  qed
  have "?w ! d = v ! d" if "d < n" for d
  proof (cases "d \<in> set pivots")
    case True
    then obtain j where j: "j < length pivots" "pivots ! j = d" by (auto simp: in_set_conv_nth)
    have "v ! (pivots ! j) = - (\<Sum>d \<in> {..<n} - set pivots. rows ! j ! d * v ! d)"
      using reduced_solutions [OF red(3,4) len] assms(2) red(2) j(1) by blast
    then show ?thesis using w(3) [OF _ j(1)] j(2) free by simp
  next
    case False
    with that show ?thesis by (intro free) simp
  qed
  then have "v = ?w" using len w(1) by (intro nth_equalityI) auto
  then show ?thesis by (intro exI [of _ ?cs]) (simp add: red(1))
qed

lemma combination_solves:
  assumes "rectangular n m" "length cs = length (nullspace m n)"
  shows "combination n cs (nullspace m n) \<in> solutions n m"
proof -
  obtain rows pivots c where red: "nullspace m n = map (basis_vector n rows pivots) (frees n pivots)"
    "solutions n rows = solutions n m" "reduced n c rows pivots" "c = n \<or> length pivots = length rows"
    using assms(1) by (rule nullspace_cases)
  have "distinct pivots" "set pivots \<subseteq> {..<n}" "length cs = length (frees n pivots)"
    using red(1,3) assms(2) by (auto simp: reduced_def)
  note w = combination_frees [OF this, where rows = rows, folded red(1)]
  show ?thesis using reduced_solutions [OF red(3,4) w(1)] w(3) red(2) by blast
qed

lemma combination_unique:
  assumes "rectangular n m" "length cs = length (nullspace m n)" "length ds = length (nullspace m n)"
    and "combination n cs (nullspace m n) = combination n ds (nullspace m n)"
  shows "cs = ds"
proof -
  obtain rows pivots c where red: "nullspace m n = map (basis_vector n rows pivots) (frees n pivots)"
    "reduced n c rows pivots"
    using assms(1) by (rule nullspace_cases)
  have piv: "distinct pivots" "set pivots \<subseteq> {..<n}" using red(2) by (auto simp: reduced_def)
  have len: "length cs = length (frees n pivots)" "length ds = length (frees n pivots)"
    using assms(2,3) red(1) by auto
  note w = combination_frees(2) [OF piv, where rows = rows, folded red(1)]
  show ?thesis using w [OF len(1)] w [OF len(2)] assms(4) len by (intro nth_equalityI) simp_all
qed

text \<open>
  C17: the vectors \<open>_nullspace\<close> returns are a basis of the solutions: a vector solves the homogeneous
  system exactly when it is a combination of them, and its coefficients are unique.
\<close>

theorem nullspace_basis:
  assumes "rectangular n m"
  shows "v \<in> solutions n m \<longleftrightarrow>
    (\<exists>!cs. length cs = length (nullspace m n) \<and> v = combination n cs (nullspace m n))"
  using nullspace_spans [OF assms] combination_solves [OF assms] combination_unique [OF assms] by blast

theorem nullspace_basis_witness:
  "nullspace [[1, -1, 0], [0, 2, -2]] 3 = [[1, 1, 1]] \<and>
   (\<exists>!cs. length cs = 1 \<and> [3, 3, 3] = combination 3 cs [[1, 1, 1]])"
proof -
  have n: "nullspace [[1, -1, 0], [0, 2, -2]] 3 = [[1, 1, 1]]" by code_simp
  have "rectangular 3 [[1, -1, 0], [0, 2, -2]]" by (simp add: rectangular_def)
  from nullspace_basis [OF this, of "[3, 3, 3]"] n show ?thesis by (simp add: solutions_def dot_def)
qed

end
