(* ===== verification/Flux.thy ===== *)
theory Flux
  imports Linear
begin

text \<open>
  \<open>exact_flux_coupling\<close> of \<open>v6/structural_analysis.py\<close>: blocked reactions by one solver query each, whose
  models are rechecked exactly, then classes of fully coupled fluxes by a union-find over the rows of a
  nullspace basis. The z3 solver is the parameter \<open>z3\<close>: \<open>None\<close> when the import fails, else its version
  and a function from the constraint matrix and the index of the flux that must be positive to a model
  (\<open>None\<close> for any answer but \<open>sat\<close>).
\<close>

section \<open>The code\<close>

record flux_analysis =
  fc_status :: string
  fc_blocked :: "ident list"
  fc_classes :: "ident list list"
  fc_rechecked :: bool
  fc_solver :: string
  fc_version :: string

type_synonym solver = "rat list list \<Rightarrow> nat \<Rightarrow> (nat \<Rightarrow> rat) option"

definition recheck :: "rat list list \<Rightarrow> rat list \<Rightarrow> nat \<Rightarrow> analysis_error + unit" where
  "recheck matrix fluxes index =
     require (\<not> (\<exists>v \<in> set fluxes. v < 0) \<and> sum_list fluxes = 1)
       (AnalysisValueError ''solver model failed exact nonnegative normalization recheck'')
     (require (\<forall>row \<in> set matrix. dot row fluxes = 0)
       (AnalysisValueError ''solver model failed exact stoichiometric recheck'')
     (require (fluxes ! index > 0)
       (AnalysisValueError ''solver model failed exact positive-flux recheck'') (Inr ())))"

fun blocked_loop ::
  "(nat \<Rightarrow> int) \<Rightarrow> solver \<Rightarrow> rat list list \<Rightarrow> nat \<Rightarrow> (nat \<times> ident) list \<Rightarrow> ident list \<Rightarrow> budget \<Rightarrow>
   (ident list) analysed" where
  "blocked_loop clock solve matrix n [] blocked b = Inr (blocked, b)"
| "blocked_loop clock solve matrix n ((index, i) # rest) blocked b =
     res_bind (spend clock 1 b) (\<lambda>b.
       case solve matrix index of
         None \<Rightarrow> blocked_loop clock solve matrix n rest (blocked @ [i]) b
       | Some model \<Rightarrow>
           res_bind (recheck matrix (map model [0..<n]) index)
             (\<lambda>_. blocked_loop clock solve matrix n rest blocked b))"

text \<open>The union-find over a list of parents, with path halving: \<open>find\<close> also writes.\<close>

partial_function (option) find_root :: "nat list \<Rightarrow> nat \<Rightarrow> (nat \<times> nat list) option" where
  "find_root parent index =
     (if parent ! index = index then Some (index, parent)
      else let parent = parent[index := parent ! (parent ! index)]
           in find_root parent (parent ! index))"

declare find_root.simps [code]

definition unite :: "nat list \<Rightarrow> nat \<Rightarrow> nat \<Rightarrow> nat list option" where
  "unite parent left right =
     (case find_root parent left of None \<Rightarrow> None
      | Some (left_root, parent) \<Rightarrow>
          (case find_root parent right of None \<Rightarrow> None
           | Some (right_root, parent) \<Rightarrow>
               Some (if left_root \<noteq> right_root
                     then parent[max left_root right_root := min left_root right_root] else parent)))"

definition index_pairs :: "nat \<Rightarrow> (nat \<times> nat) list" where
  "index_pairs n = concat (map (\<lambda>l. map (\<lambda>r. (l, r)) [Suc l..<n]) [0..<n])"

fun union_loop ::
  "(nat \<Rightarrow> int) \<Rightarrow> rat list list \<Rightarrow> (nat \<times> nat) list \<Rightarrow> nat list \<Rightarrow> budget \<Rightarrow> ((nat list) analysed) option" where
  "union_loop clock rows [] parent b = Some (Inr (parent, b))"
| "union_loop clock rows ((left, right) # pairs) parent b =
     (case spend clock 1 b of
        Inl e \<Rightarrow> Some (Inl e)
      | Inr b \<Rightarrow>
          if proportional (rows ! left) (rows ! right)
          then (case unite parent left right of None \<Rightarrow> None | Some parent \<Rightarrow> union_loop clock rows pairs parent b)
          else union_loop clock rows pairs parent b)"

fun class_loop ::
  "(nat \<times> ident) list \<Rightarrow> nat list \<Rightarrow> (nat, ident list) dict \<Rightarrow> (nat, ident list) dict option" where
  "class_loop [] parent classes = Some classes"
| "class_loop ((index, i) # rest) parent classes =
     (case find_root parent index of None \<Rightarrow> None
      | Some (r, parent) \<Rightarrow>
          class_loop rest parent (dict_set classes r (dict_get_default classes r [] @ [i])))"

definition coupled_classes ::
  "(nat \<Rightarrow> int) \<Rightarrow> ident list \<Rightarrow> rat list list \<Rightarrow> budget \<Rightarrow> ((ident list list) analysed) option" where
  "coupled_classes clock unblocked matrix b =
     (let n = length unblocked;
          basis = nullspace matrix n;
          rows_by_flux = map (\<lambda>index. map (\<lambda>v. v ! index) basis) [0..<n]
      in case union_loop clock rows_by_flux (index_pairs n) [0..<n] b of
           None \<Rightarrow> None
         | Some (Inl e) \<Rightarrow> Some (Inl e)
         | Some (Inr (parent, b)) \<Rightarrow>
             (case class_loop (List.enumerate 0 unblocked) parent [] of
                None \<Rightarrow> None
              | Some classes \<Rightarrow>
                  Some (Inr (sort (filter (\<lambda>values. length values > 1) (dict_values classes)), b))))"

definition position :: "'a list \<Rightarrow> 'a \<Rightarrow> nat" where
  "position xs x = length (takeWhile (\<lambda>y. y \<noteq> x) xs)"

definition exact_flux_coupling ::
  "(nat \<Rightarrow> int) \<Rightarrow> (string \<times> solver) option \<Rightarrow> transformations \<Rightarrow> budget \<Rightarrow> (flux_analysis analysed) option"
where
  "exact_flux_coupling clock z3 ts b =
     (case z3 of
        None \<Rightarrow> Some (Inr (\<lparr>fc_status = ''unknown'', fc_blocked = [], fc_classes = [], fc_rechecked = False,
                  fc_solver = ''unavailable'', fc_version = ''unavailable''\<rparr>, b))
      | Some (version, solve) \<Rightarrow>
          let identifiers = known_ids ts; n = length identifiers;
              answer = (\<lambda>blocked classes. \<lparr>fc_status = ''satisfied'', fc_blocked = blocked,
                fc_classes = classes, fc_rechecked = True, fc_solver = ''z3'', fc_version = version\<rparr>)
          in if identifiers = [] then Some (Inr (answer [] [], b))
             else let (_, matrix) = stoichiometric_matrix ts identifiers
             in case blocked_loop clock solve matrix n (List.enumerate 0 identifiers) [] b of
                  Inl e \<Rightarrow> Some (Inl e)
                | Inr (blocked, b) \<Rightarrow>
                    let unblocked = filter (\<lambda>i. i \<notin> set blocked) identifiers;
                        reduced_matrix = map (\<lambda>row. map (\<lambda>i. row ! position identifiers i) unblocked) matrix
                    in (case coupled_classes clock unblocked reduced_matrix b of
                          None \<Rightarrow> None
                        | Some (Inl e) \<Rightarrow> Some (Inl e)
                        | Some (Inr (classes, b)) \<Rightarrow> Some (Inr (answer blocked classes, b))))"

section \<open>Proportional rows\<close>

lemma proportional_loop_ratio:
  "length l = length r \<Longrightarrow> proportional_loop (zip l r) (Some q) \<longleftrightarrow> q > 0 \<and> l = map (\<lambda>x. q * x) r"
  if "q > 0" for q
  by (induction l r rule: list_induct2) (use that in \<open>auto simp: field_simps\<close>)

lemma proportional_iff:
  assumes "length l = length r"
  shows "proportional l r \<longleftrightarrow> (\<exists>q > 0. l = map (\<lambda>x. q * x) r) \<and> (\<exists>x \<in> set r. x \<noteq> 0)"
  using assms unfolding proportional_def
proof (induction l r rule: list_induct2)
  case (Cons x l y r)
  show ?case
  proof (cases "x = 0 \<or> y = 0")
    case True
    then show ?thesis using Cons.IH by auto
  next
    case False
    then show ?thesis
      using proportional_loop_ratio [of "x / y" l r] Cons.hyps
      by (auto simp: not_le field_simps)
  qed
qed simp

section \<open>The union-find\<close>

text \<open>Parents point downwards, so every index has a representative.\<close>

definition descending :: "nat list \<Rightarrow> bool" where
  "descending parent \<longleftrightarrow> (\<forall>i < length parent. parent ! i \<le> i)"

lemma descendingD: "descending parent \<Longrightarrow> i < length parent \<Longrightarrow> parent ! i \<le> i"
  by (simp add: descending_def)

lemma descending_update: "descending parent \<Longrightarrow> v \<le> i \<Longrightarrow> descending (parent[i := v])"
  unfolding descending_def by (metis length_list_update nth_list_update_eq nth_list_update_neq)

function representative :: "nat list \<Rightarrow> nat \<Rightarrow> nat" where
  "representative parent i = (if parent ! i < i then representative parent (parent ! i) else i)"
  by pat_completeness auto
termination by (relation "measure snd") auto

declare representative.simps [simp del]

lemma representative_le: "representative parent i \<le> i"
  by (induction parent i rule: representative.induct) (subst representative.simps, fastforce)

lemma representative_root:
  "descending parent \<Longrightarrow> i < length parent \<Longrightarrow> parent ! representative parent i = representative parent i"
proof (induction parent i rule: representative.induct)
  case (1 parent i)
  then show ?case
    by (subst (1 2) representative.simps) (auto simp: descending_def dest: le_neq_implies_less intro: le_antisym)
qed

lemma representative_step:
  "descending parent \<Longrightarrow> i < length parent \<Longrightarrow> representative parent (parent ! i) = representative parent i"
  by (subst (2) representative.simps)
     (auto simp: descending_def representative.simps [of parent i])

lemma representative_halved:
  assumes "descending parent" "i < length parent" "j < length parent"
  shows "representative (parent[i := parent ! (parent ! i)]) j = representative parent j"
  using assms(3)
proof (induction j rule: less_induct)
  case (less j)
  let ?new = "parent[i := parent ! (parent ! i)]"
  have le: "parent ! i \<le> i" using assms(1,2) by (rule descendingD)
  then have le2: "parent ! (parent ! i) \<le> parent ! i" using assms(1,2) by (intro descendingD) simp_all
  show ?case
  proof (cases "j = i")
    case True
    have "representative ?new i = (if parent ! (parent ! i) < i then representative parent (parent ! (parent ! i)) else i)"
      using less.IH [of "parent ! (parent ! i)"] True assms(2)
      by (subst representative.simps) auto
    also have "\<dots> = representative parent i"
    proof (cases "parent ! (parent ! i) < i")
      case True
      then show ?thesis
        using representative_step [OF assms(1), of "parent ! i"] representative_step [OF assms(1,2)] le assms(2) by simp
    next
      case False
      with le le2 have "parent ! i = i" by simp
      then show ?thesis by (simp add: representative.simps)
    qed
    finally show ?thesis using True by simp
  next
    case False
    then show ?thesis
      using less.IH [of "parent ! j"] less.prems by (subst (1 2) representative.simps) auto
  qed
qed

lemma find_root_returns:
  assumes "descending parent" "i < length parent"
  shows "\<exists>parent'. find_root parent i = Some (representative parent i, parent') \<and> descending parent' \<and>
    length parent' = length parent \<and>
    (\<forall>j < length parent. representative parent' j = representative parent j)"
  using assms
proof (induction i arbitrary: parent rule: less_induct)
  case (less i)
  show ?case
  proof (cases "parent ! i = i")
    case True
    then show ?thesis
      using less.prems by (subst find_root.simps) (simp add: representative.simps)
  next
    case False
    let ?new = "parent[i := parent ! (parent ! i)]"
    have le: "parent ! i < i" using less.prems False by (simp add: descending_def le_neq_implies_less)
    have "parent ! (parent ! i) \<le> parent ! i" using le less.prems by (intro descendingD) simp_all
    then have "?new ! i < i" "descending ?new"
      using le less.prems by (simp_all add: descending_update)
    then obtain parent' where p: "find_root ?new (?new ! i) = Some (representative ?new (?new ! i), parent')"
      "descending parent'" "length parent' = length parent"
      "\<forall>j < length parent. representative parent' j = representative ?new j"
      using less.IH [of "?new ! i" ?new] less.prems by fastforce
    have "representative ?new (?new ! i) = representative parent i"
      using representative_step [OF \<open>descending ?new\<close>, of i] representative_halved [OF less.prems less.prems(2)]
        less.prems(2) by simp
    then show ?thesis
      using p False representative_halved [OF less.prems] by (subst find_root.simps) simp
  qed
qed

lemma representative_united:
  assumes "descending parent" "a < b" "b < length parent" "parent ! a = a" "parent ! b = b" "j < length parent"
  shows "representative (parent[b := a]) j = (if representative parent j = b then a else representative parent j)"
  using assms(6)
proof (induction j rule: less_induct)
  case (less j)
  show ?case
  proof (cases "parent ! j < j")
    case True
    then have "parent[b := a] ! j = parent ! j" using assms(5) by (cases "j = b") auto
    then show ?thesis
      using True less.IH [OF True] less.prems by (subst (1 2 3) representative.simps) simp
  next
    case False
    then have "parent ! j = j" using assms(1) less.prems by (auto simp: descending_def intro: le_antisym)
    then have "representative parent j = j" by (simp add: representative.simps)
    moreover have "representative parent a = a" using assms(4) by (simp add: representative.simps)
    moreover have "representative (parent[b := a]) a = a"
      using assms(2,4) by (simp add: representative.simps)
    ultimately show ?thesis
      using \<open>parent ! j = j\<close> assms(2,3) by (cases "j = b") (simp_all add: representative.simps [of _ j] representative.simps [of _ b])
  qed
qed

lemma unite_returns:
  assumes "descending parent" "left < length parent" "right < length parent"
  defines "l \<equiv> representative parent left" and "r \<equiv> representative parent right"
  shows "\<exists>parent'. unite parent left right = Some parent' \<and> descending parent' \<and>
    length parent' = length parent \<and> (\<forall>j < length parent. representative parent' j =
      (if representative parent j = max l r then min l r else representative parent j))"
proof -
  obtain p1 where p1: "find_root parent left = Some (l, p1)" "descending p1" "length p1 = length parent"
    "\<forall>j < length parent. representative p1 j = representative parent j"
    using find_root_returns [OF assms(1,2)] l_def by blast
  obtain p2 where p2: "find_root p1 right = Some (r, p2)" "descending p2" "length p2 = length parent"
    "\<forall>j < length parent. representative p2 j = representative parent j"
    using find_root_returns [of p1 right] p1(2-4) assms(3) r_def by (metis (no_types, lifting))
  have bound: "l < length parent" "r < length parent"
    using representative_le [of parent left] representative_le [of parent right] assms(2,3)
    unfolding l_def r_def by linarith+
  have root: "p2 ! l = l" "p2 ! r = r"
    using representative_root [OF p2(2), of left] representative_root [OF p2(2), of right] p2(3,4) assms(2,3)
    unfolding l_def r_def by auto
  show ?thesis
  proof (cases "l = r")
    case True
    then show ?thesis using p1(1) p2 by (simp add: unite_def)
  next
    case False
    have "descending (p2[max l r := min l r])"
      using p2(2) by (intro descending_update) auto
    moreover have "representative (p2[max l r := min l r]) j =
        (if representative parent j = max l r then min l r else representative parent j)"
      if "j < length parent" for j
      using representative_united [OF p2(2), of "min l r" "max l r" j] root bound p2(3,4) that False
      by (simp add: min_def max_def split: if_splits)
    ultimately show ?thesis using p1(1) p2(1,3) False by (simp add: unite_def)
  qed
qed

text \<open>After the loop, equal representatives mean related indices, and related pairs have equal ones.\<close>

lemma union_loop_classes:
  assumes "union_loop clock rows pairs parent b = Some (Inr (parent', b'))"
    and "descending parent" "\<forall>(l, r) \<in> set pairs. l < length parent \<and> r < length parent"
    and E: "\<And>l r. proportional (rows ! l) (rows ! r) \<Longrightarrow> l < length parent \<Longrightarrow> r < length parent \<Longrightarrow> E l r" "symp E" "transp E"
    and "\<forall>i < length parent. \<forall>j < length parent. representative parent i = representative parent j \<longrightarrow> E i j"
  shows "descending parent' \<and> length parent' = length parent \<and>
    (\<forall>i < length parent. \<forall>j < length parent. representative parent' i = representative parent' j \<longrightarrow> E i j) \<and>
    (\<forall>i < length parent. \<forall>j < length parent. representative parent i = representative parent j \<longrightarrow>
       representative parent' i = representative parent' j) \<and>
    (\<forall>(l, r) \<in> set pairs. proportional (rows ! l) (rows ! r) \<longrightarrow> representative parent' l = representative parent' r)"
  using assms(1-3) E(1) assms(7)
proof (induction pairs arbitrary: parent b)
  case Nil
  from Nil.prems(1) have "parent' = parent" by simp
  with Nil.prems(2,5) show ?case by simp
next
  case (Cons lr pairs)
  obtain l r where lr: "lr = (l, r)" by (cases lr)
  have bounds: "l < length parent" "r < length parent" using Cons.prems(3) lr by auto
  obtain b1 where b1: "spend clock 1 b = Inr b1" using Cons.prems(1) lr by (auto split: sum.splits)
  show ?case
  proof (cases "proportional (rows ! l) (rows ! r)")
    case False
    then have loop: "union_loop clock rows pairs parent b1 = Some (Inr (parent', b'))"
      using Cons.prems(1) lr b1 by simp
    have pairs: "\<forall>(l, r) \<in> set pairs. l < length parent \<and> r < length parent" using Cons.prems(3) by simp
    from Cons.IH [OF loop Cons.prems(2) pairs Cons.prems(4,5)] False show ?thesis
      by (simp only: lr list.set(2) ball_simps(7) prod.case) blast
  next
    case True
    obtain p where p: "unite parent l r = Some p" "descending p" "length p = length parent"
      "\<forall>j < length parent. representative p j =
         (if representative parent j = max (representative parent l) (representative parent r)
          then min (representative parent l) (representative parent r) else representative parent j)"
      using unite_returns [OF Cons.prems(2) bounds] by blast
    have loop: "union_loop clock rows pairs p b1 = Some (Inr (parent', b'))"
      using Cons.prems(1) lr b1 True p(1) by simp
    have lE: "E l r" "E r l" using Cons.prems(4) True bounds E(2) by (auto dest: sympD)
    have near: "E i l \<or> E i r" if "i < length parent" "representative p i = representative p l" for i
    proof -
      have "representative parent i = representative parent l \<or> representative parent i = representative parent r"
        using that(2) p(4) [rule_format, OF that(1)] p(4) [rule_format, OF bounds(1)]
        by (cases "representative parent l \<le> representative parent r") (simp_all split: if_splits)
      then show ?thesis using Cons.prems(5) that(1) bounds by blast
    qed
    have "E i j" if ij: "i < length parent" "j < length parent" "representative p i = representative p j" for i j
    proof (cases "representative p i = representative p l")
      case True
      then show ?thesis using near [OF ij(1)] near [OF ij(2)] ij(3) lE E(2,3) by (metis sympD transpD)
    next
      case False
      have "representative p l = min (representative parent l) (representative parent r)"
        using p(4) [rule_format, OF bounds(1)] by (simp add: min_def max_def)
      then have "representative parent i = representative parent j"
        using False ij(3) p(4) [rule_format, OF ij(1)] p(4) [rule_format, OF ij(2)] by (simp split: if_splits)
      then show ?thesis using Cons.prems(5) ij by blast
    qed
    then have *: "\<forall>i < length p. \<forall>j < length p. representative p i = representative p j \<longrightarrow> E i j"
      using p(3) by simp
    have same: "representative p l = representative p r"
      using p(4) [rule_format, OF bounds(1)] p(4) [rule_format, OF bounds(2)] by (simp add: min_def max_def)
    have keep: "representative p i = representative p j"
      if "i < length parent" "j < length parent" "representative parent i = representative parent j" for i j
      using p(4) that by simp
    have pairs: "\<forall>(l, r) \<in> set pairs. l < length p \<and> r < length p" using Cons.prems(3) p(3) by simp
    have "\<And>l r. proportional (rows ! l) (rows ! r) \<Longrightarrow> l < length p \<Longrightarrow> r < length p \<Longrightarrow> E l r"
      using Cons.prems(4) p(3) by simp
    note IH = Cons.IH [OF loop p(2) pairs this *, unfolded p(3)]
    have "representative parent' l = representative parent' r" using IH bounds same by blast
    moreover have "representative parent' i = representative parent' j"
      if "i < length parent" "j < length parent" "representative parent i = representative parent j" for i j
      using IH keep [OF that] that(1,2) by blast
    moreover have "\<forall>(l, r) \<in> set pairs. proportional (rows ! l) (rows ! r) \<longrightarrow>
        representative parent' l = representative parent' r" using IH by blast
    ultimately have "\<forall>(l, r) \<in> set (lr # pairs). proportional (rows ! l) (rows ! r) \<longrightarrow>
        representative parent' l = representative parent' r"
      by (simp only: lr list.set(2) ball_simps(7) prod.case) blast
    moreover have "\<forall>i < length parent. \<forall>j < length parent. representative parent i = representative parent j \<longrightarrow>
        representative parent' i = representative parent' j" using IH keep by blast
    ultimately show ?thesis using IH by blast
  qed
qed

section \<open>The classes\<close>

lemma class_loop_groups:
  assumes "descending parent" "m + length is \<le> length parent" "distinct (dict_keys classes)"
  shows "\<exists>classes'. class_loop (List.enumerate m is) parent classes = Some classes' \<and>
    distinct (dict_keys classes') \<and>
    (\<forall>r. dict_get_default classes' r [] = dict_get_default classes r [] @
       map snd (filter (\<lambda>(k, i). representative parent k = r) (List.enumerate m is)))"
  using assms
proof (induction "is" arbitrary: m parent classes)
  case (Cons i "is")
  obtain p where p: "find_root parent m = Some (representative parent m, p)" "descending p"
    "length p = length parent" "\<forall>j < length parent. representative p j = representative parent j"
    using find_root_returns [of parent m] Cons.prems by auto
  let ?r = "representative parent m"
  let ?new = "dict_set classes ?r (dict_get_default classes ?r [] @ [i])"
  obtain c where c: "class_loop (List.enumerate (Suc m) is) p ?new = Some c" "distinct (dict_keys c)"
    "\<forall>r. dict_get_default c r [] = dict_get_default ?new r [] @
       map snd (filter (\<lambda>(k, i). representative p k = r) (List.enumerate (Suc m) is))"
    using Cons.IH [of p "Suc m" ?new] Cons.prems p(2,3) by auto
  have "filter (\<lambda>(k, i). representative p k = r) (List.enumerate (Suc m) is) =
      filter (\<lambda>(k, i). representative parent k = r) (List.enumerate (Suc m) is)" for r
    using p(4) Cons.prems(2) by (intro filter_cong) (auto simp: in_set_enumerate_eq)
  then show ?case using p(1) c by auto
qed simp

lemma grouped_together:
  assumes "descending parent" "length is = length parent" "distinct is"
    and "class_loop (List.enumerate 0 is) parent [] = Some classes"
    and l: "l < length is" and r: "r < length is" and "l \<noteq> r"
  shows "(\<exists>c \<in> set (filter (\<lambda>values. length values > 1) (dict_values classes)). is ! l \<in> set c \<and> is ! r \<in> set c) \<longleftrightarrow>
    representative parent l = representative parent r"
proof -
  let ?group = "\<lambda>r. map snd (filter (\<lambda>(k, i). representative parent k = r) (List.enumerate 0 is))"
  have classes: "distinct (dict_keys classes)" "\<And>r. dict_get_default classes r [] = ?group r"
    using class_loop_groups [of parent 0 "is" "[]"] assms(1,2,4)
    by (auto simp: dict_keys_def dict_get_default_def)
  have member: "is ! k \<in> set (?group r) \<longleftrightarrow> representative parent k = r" if "k < length is" for k r
  proof -
    have "set (?group r) = {x. \<exists>j < length is. x = is ! j \<and> representative parent j = r}"
      by (force simp: in_set_enumerate_eq)
    then have "is ! k \<in> set (?group r) \<longleftrightarrow> (\<exists>j < length is. is ! k = is ! j \<and> representative parent j = r)"
      by blast
    then show ?thesis using that assms(3) by (auto simp: nth_eq_iff_index_eq)
  qed
  have mem: "c \<in> set (dict_values classes) \<longleftrightarrow> (\<exists>r \<in> set (dict_keys classes). c = ?group r)" for c
  proof
    assume "c \<in> set (dict_values classes)"
    then obtain r where "(r, c) \<in> set classes" by (auto simp: dict_values_def)
    then have "dict_get classes r = Some c" "r \<in> set (dict_keys classes)"
      using classes(1) dict_get_in [of classes r c] by (auto simp: dict_keys_def intro: rev_image_eqI)
    then have "c = ?group r" using classes(2) [of r] by (simp add: dict_get_default_def dict_get_def)
    then show "\<exists>r \<in> set (dict_keys classes). c = ?group r" using \<open>r \<in> set (dict_keys classes)\<close> by blast
  next
    assume "\<exists>r \<in> set (dict_keys classes). c = ?group r"
    then obtain r where "r \<in> set (dict_keys classes)" "c = ?group r" by blast
    then obtain x where "dict_get classes r = Some x" using dict_get_None [of classes r] by auto
    moreover from this have "x = ?group r" using classes(2) [of r] by (simp add: dict_get_default_def dict_get_def)
    ultimately show "c \<in> set (dict_values classes)"
      using \<open>c = ?group r\<close> dict_get_SomeD [of classes r x] by (force simp: dict_values_def)
  qed
  show ?thesis
  proof
    assume "representative parent l = representative parent r"
    then have in_group: "is ! l \<in> set (?group (representative parent l))" "is ! r \<in> set (?group (representative parent l))"
      using member l r by auto
    moreover have "is ! l \<noteq> is ! r" using l r assms(3,7) by (simp add: nth_eq_iff_index_eq)
    ultimately have "length (?group (representative parent l)) > 1"
      by (cases "?group (representative parent l)"; cases "tl (?group (representative parent l))") auto
    moreover have "representative parent l \<in> set (dict_keys classes)"
    proof (rule ccontr)
      assume "representative parent l \<notin> set (dict_keys classes)"
      then have "dict_get classes (representative parent l) = None" by (simp add: dict_get_None)
      then have "?group (representative parent l) = []"
        using classes(2) [of "representative parent l"] by (simp add: dict_get_default_def dict_get_def)
      then show False using in_group(1) by simp
    qed
    ultimately show "\<exists>c \<in> set (filter (\<lambda>values. length values > 1) (dict_values classes)). is ! l \<in> set c \<and> is ! r \<in> set c"
      using in_group mem by (intro bexI [of _ "?group (representative parent l)"]) auto
  next
    assume "\<exists>c \<in> set (filter (\<lambda>values. length values > 1) (dict_values classes)). is ! l \<in> set c \<and> is ! r \<in> set c"
    then obtain k where "is ! l \<in> set (?group k)" "is ! r \<in> set (?group k)" using mem by auto
    then show "representative parent l = representative parent r" using member l r by metis
  qed
qed

section \<open>Coupling in the nullspace\<close>

lemma basis_solves: "rectangular n m \<Longrightarrow> v \<in> set (nullspace m n) \<Longrightarrow> v \<in> solutions n m"
proof -
  assume m: "rectangular n m" and "v \<in> set (nullspace m n)"
  then obtain k where k: "k < length (nullspace m n)" "v = nullspace m n ! k" by (auto simp: in_set_conv_nth)
  let ?cs = "(replicate (length (nullspace m n)) 0)[k := 1]"
  obtain rows pivots c where red: "nullspace m n = map (basis_vector n rows pivots) (frees n pivots)"
    "reduced n c rows pivots"
    using m by (rule nullspace_cases)
  have "length v = n"
  proof -
    have len: "k < length (frees n pivots)" using k(1) red(1) by simp
    have "frees n pivots ! k < n" "frees n pivots ! k \<notin> set pivots" using nth_mem [OF len] by auto
    moreover have "distinct pivots" "set pivots \<subseteq> {..<n}" using red(2) by (auto simp: reduced_def)
    ultimately show ?thesis using k(2) len red(1) by (simp add: basis_vector_facts(1))
  qed
  moreover have "combination n ?cs (nullspace m n) ! d = v ! d" if "d < n" for d
  proof -
    have "(\<Sum>l<length (nullspace m n). ?cs ! l * nullspace m n ! l ! d) =
        (\<Sum>l<length (nullspace m n). if k = l then nullspace m n ! l ! d else 0)"
      by (intro sum.cong) (auto simp: nth_list_update)
    then show ?thesis using k that by (simp add: combination_def)
  qed
  ultimately have "combination n ?cs (nullspace m n) = v"
    by (intro nth_equalityI) (auto simp: combination_def)
  then show ?thesis using combination_solves [OF m, of ?cs] by simp
qed

lemma proportional_rows:
  assumes "rectangular n m" "l < n" "r < n"
  defines "row \<equiv> \<lambda>k. map (\<lambda>v. v ! k) (nullspace m n)"
  shows "proportional (row l) (row r) \<longleftrightarrow>
    (\<exists>q > 0. \<forall>u \<in> solutions n m. u ! l = q * u ! r) \<and> (\<exists>u \<in> solutions n m. u ! r \<noteq> 0)"
proof -
  have span: "\<exists>cs. \<forall>k < n. u ! k = (\<Sum>i<length (nullspace m n). cs ! i * nullspace m n ! i ! k)"
    if "u \<in> solutions n m" for u
    using nullspace_spans [OF assms(1) that] by (auto simp: combination_def)
  have "proportional (row l) (row r) \<longleftrightarrow> (\<exists>q > 0. \<forall>v \<in> set (nullspace m n). v ! l = q * v ! r) \<and>
      (\<exists>v \<in> set (nullspace m n). v ! r \<noteq> 0)"
    by (simp add: proportional_iff row_def comp_def)
  also have "(\<exists>q > 0. \<forall>v \<in> set (nullspace m n). v ! l = q * v ! r) \<longleftrightarrow>
      (\<exists>q > 0. \<forall>u \<in> solutions n m. u ! l = q * u ! r)"
  proof -
    have "u ! l = q * u ! r" if u: "u \<in> solutions n m" and q: "\<forall>v \<in> set (nullspace m n). v ! l = q * v ! r" for u q
    proof -
      obtain cs where "\<forall>k < n. u ! k = (\<Sum>i<length (nullspace m n). cs ! i * nullspace m n ! i ! k)"
        using span [OF u] by blast
      then show ?thesis using assms(2,3) q by (simp add: sum_distrib_left mult.left_commute)
    qed
    then show ?thesis using basis_solves [OF assms(1)] by blast
  qed
  also have "(\<exists>v \<in> set (nullspace m n). v ! r \<noteq> 0) \<longleftrightarrow> (\<exists>u \<in> solutions n m. u ! r \<noteq> 0)"
  proof -
    have "\<exists>v \<in> set (nullspace m n). v ! r \<noteq> 0" if u: "u \<in> solutions n m" "u ! r \<noteq> 0" for u
    proof (rule ccontr)
      assume "\<not> ?thesis"
      moreover obtain cs where "\<forall>k < n. u ! k = (\<Sum>i<length (nullspace m n). cs ! i * nullspace m n ! i ! k)"
        using span [OF u(1)] by blast
      ultimately show False using assms(3) u(2) by simp
    qed
    then show ?thesis using basis_solves [OF assms(1)] by blast
  qed
  finally show ?thesis .
qed

lemma index_pairs_mem: "(l, r) \<in> set (index_pairs n) \<longleftrightarrow> l < r \<and> r < n"
  by (auto simp: index_pairs_def image_iff)

lemma coupled_classes_exact:
  assumes "rectangular n m" "distinct unblocked" "n = length unblocked"
    and run: "coupled_classes clock unblocked m b = Some (Inr (classes, b'))"
    and active: "\<And>k. k < n \<Longrightarrow> \<exists>u \<in> solutions n m. u ! k \<noteq> 0"
    and l: "l < n" and r: "r < n" and "l \<noteq> r"
  shows "(\<exists>c \<in> set classes. unblocked ! l \<in> set c \<and> unblocked ! r \<in> set c) \<longleftrightarrow>
    (\<exists>q > 0. \<forall>u \<in> solutions n m. u ! l = q * u ! r)"
proof -
  let ?rows = "map (\<lambda>index. map (\<lambda>v. v ! index) (nullspace m n)) [0..<n]"
  define E where "E l r \<longleftrightarrow> (\<exists>q > 0. \<forall>u \<in> solutions n m. u ! l = q * u ! r)" for l r :: nat
  have E: "symp E" "transp E"
  proof -
    show "symp E" unfolding symp_def E_def
    proof clarify
      fix x y and q :: rat assume "q > 0" "\<forall>u \<in> solutions n m. u ! x = q * u ! y"
      then show "\<exists>q > 0. \<forall>u \<in> solutions n m. u ! y = q * u ! x" by (intro exI [of _ "1 / q"]) simp
    qed
    show "transp E" unfolding transp_def E_def
    proof clarify
      fix x y z and p q :: rat
      assume "p > 0" "\<forall>u \<in> solutions n m. u ! x = p * u ! y" "q > 0" "\<forall>u \<in> solutions n m. u ! y = q * u ! z"
      then show "\<exists>q > 0. \<forall>u \<in> solutions n m. u ! x = q * u ! z" by (intro exI [of _ "p * q"]) simp
    qed
  qed
  have rows: "proportional (?rows ! l) (?rows ! r) \<longleftrightarrow> E l r" if "l < n" "r < n" for l r
    using proportional_rows [OF assms(1) that] active [OF that(2)] that by (simp add: E_def)
  obtain parent b1 groups where loop: "union_loop clock ?rows (index_pairs n) [0..<n] b = Some (Inr (parent, b1))"
    and groups: "class_loop (List.enumerate 0 unblocked) parent [] = Some groups"
    "set classes = set (filter (\<lambda>values. length values > 1) (dict_values groups))"
    using run assms(3) by (auto simp: coupled_classes_def Let_def split: option.splits sum.splits prod.splits)
  have "representative [0..<n] k = k" if "k < n" for k using that by (simp add: representative.simps)
  then have start: "\<forall>i < length [0..<n]. \<forall>j < length [0..<n].
      representative [0..<n] i = representative [0..<n] j \<longrightarrow> E i j"
    by (auto simp: E_def intro: exI [of _ 1])
  have "descending [0..<n]" by (simp add: descending_def)
  moreover have "\<forall>(l, r) \<in> set (index_pairs n). l < length [0..<n] \<and> r < length [0..<n]"
    by (auto simp: index_pairs_mem)
  moreover have "\<And>l r. proportional (?rows ! l) (?rows ! r) \<Longrightarrow> l < length [0..<n] \<Longrightarrow> r < length [0..<n] \<Longrightarrow> E l r"
    using rows by simp
  ultimately have all: "descending parent \<and> length parent = n \<and>
      (\<forall>i < n. \<forall>j < n. representative parent i = representative parent j \<longrightarrow> E i j) \<and>
      (\<forall>i < n. \<forall>j < n. representative [0..<n] i = representative [0..<n] j \<longrightarrow>
         representative parent i = representative parent j) \<and>
      (\<forall>(l, r) \<in> set (index_pairs n). proportional (?rows ! l) (?rows ! r) \<longrightarrow>
         representative parent l = representative parent r)"
    using union_loop_classes [OF loop _ _ _ E start] unfolding length_upt diff_zero by blast
  then have parent: "descending parent" "length parent = n"
    "\<forall>i < n. \<forall>j < n. representative parent i = representative parent j \<longrightarrow> E i j"
    "\<forall>(l, r) \<in> set (index_pairs n). proportional (?rows ! l) (?rows ! r) \<longrightarrow> representative parent l = representative parent r"
    by blast+
  have "representative parent l = representative parent r \<longleftrightarrow> E l r"
  proof
    assume e: "E l r"
    then have "E r l" using E(1) by (rule sympD [rotated])
    have "(l, r) \<in> set (index_pairs n) \<or> (r, l) \<in> set (index_pairs n)"
      using l r assms(8) by (auto simp: index_pairs_mem)
    then show "representative parent l = representative parent r"
      using parent(4) rows [OF l r] rows [OF r l] e \<open>E r l\<close> by fastforce
  qed (use parent(3) l r in blast)
  then show ?thesis
    using grouped_together [OF parent(1) _ assms(2) groups(1), of l r] parent(2) l r assms(3,8) groups(2)
    by (simp add: E_def)
qed

section \<open>Steady states\<close>

text \<open>A steady state: nonnegative fluxes under which no coordinate changes.\<close>

definition net :: "transformations \<Rightarrow> ident \<Rightarrow> ident \<Rightarrow> rat" where
  "net ts c i = dict_get_default (tr_outputs (lookup ts i)) c 0 - dict_get_default (tr_inputs (lookup ts i)) c 0"

definition steady :: "transformations \<Rightarrow> (ident \<Rightarrow> rat) \<Rightarrow> bool" where
  "steady ts \<phi> \<longleftrightarrow> (\<forall>i \<in> set (known_ids ts). \<phi> i \<ge> 0) \<and>
     (\<forall>c. (\<Sum>i\<leftarrow>known_ids ts. net ts c i * \<phi> i) = 0)"

lemma default_outside: "c \<notin> set (dict_keys d) \<Longrightarrow> dict_get_default d c x = x"
  by (simp add: dict_get_default_def dict_get_None [unfolded dict_get_def, THEN iffD2])

lemma net_outside: "c \<notin> set (coordinates_of ts is) \<Longrightarrow> i \<in> set is \<Longrightarrow> net ts c i = 0"
  by (simp add: coordinates_of_def net_def default_outside)

lemma position_nth: "distinct xs \<Longrightarrow> k < length xs \<Longrightarrow> position xs (xs ! k) = k"
proof (induction xs arbitrary: k)
  case (Cons x xs)
  then show ?case by (cases k) (auto simp: position_def)
qed simp

lemma position_less: "x \<in> set xs \<Longrightarrow> position xs x < length xs \<and> xs ! position xs x = x"
  by (induction xs) (auto simp: position_def)

text \<open>A steady state is a nonnegative solution of the matrix.\<close>

lemma row_dot: "dot (map f is) (map \<phi> is) = (\<Sum>i\<leftarrow>is. f i * \<phi> i)"
  by (induction "is") (simp_all add: dot_def)

lemma zero_sum: "(\<And>i. i \<in> set is \<Longrightarrow> f i = 0) \<Longrightarrow> (\<Sum>i\<leftarrow>is. f i) = (0::rat)"
  by (induction "is") auto

lemma matrix_rows: "snd (stoichiometric_matrix ts is) = map (\<lambda>c. map (net ts c) is) (coordinates_of ts is)"
  by (simp add: stoichiometric_matrix_def Let_def net_def)

lemma steady_matrix:
  "steady ts \<phi> \<longleftrightarrow> (\<forall>i \<in> set (known_ids ts). \<phi> i \<ge> 0) \<and>
     (\<forall>row \<in> set (snd (stoichiometric_matrix ts (known_ids ts))). dot row (map \<phi> (known_ids ts)) = 0)"
proof -
  have "(\<Sum>i\<leftarrow>known_ids ts. net ts c i * \<phi> i) = 0" if "c \<notin> set (coordinates_of ts (known_ids ts))" for c
    using net_outside [OF that] by (intro zero_sum) simp
  then show ?thesis by (auto simp: steady_def matrix_rows row_dot)
qed

lemma reduced_rows:
  assumes "set us \<subseteq> set is" "distinct is"
  shows "map (\<lambda>row. map (\<lambda>i. row ! position is i) us) (snd (stoichiometric_matrix ts is)) =
    map (\<lambda>c. map (net ts c) us) (coordinates_of ts is)"
proof -
  have "map f is ! position is i = f i" if "i \<in> set us" for f :: "ident \<Rightarrow> rat" and i
    using position_less [of i "is"] assms(1) that by auto
  then show ?thesis by (simp add: matrix_rows)
qed

text \<open>A positive flux in the solver's terms: some steady state has it.\<close>

lemma blocked_loop_exact:
  assumes "blocked_loop clock solve m n ps blocked b = Inr (blocked', b')"
  shows "blocked' = blocked @ map snd (filter (\<lambda>(k, i). solve m k = None) ps)"
    and "(k, i) \<in> set ps \<Longrightarrow> solve m k \<noteq> None \<Longrightarrow>
      \<exists>model. let v = map model [0..<n] in (\<forall>x \<in> set v. 0 \<le> x) \<and> (\<forall>row \<in> set m. dot row v = 0) \<and> v ! k > 0"
proof -
  have "blocked' = blocked @ map snd (filter (\<lambda>(k, i). solve m k = None) ps) \<and>
    (\<forall>(k, i) \<in> set ps. solve m k \<noteq> None \<longrightarrow>
      (\<exists>model. let v = map model [0..<n] in (\<forall>x \<in> set v. 0 \<le> x) \<and> (\<forall>row \<in> set m. dot row v = 0) \<and> v ! k > 0))"
    using assms
  proof (induction ps arbitrary: blocked b)
    case (Cons p ps)
    obtain k i where p: "p = (k, i)" by (cases p)
    obtain b1 where b1: "spend clock 1 b = Inr b1" using Cons.prems p by auto
    show ?case
    proof (cases "solve m k")
      case None
      then show ?thesis using Cons.IH [of "blocked @ [i]" b1] Cons.prems p b1 by auto
    next
      case (Some model)
      then have "recheck m (map model [0..<n]) k = Inr ()" "blocked_loop clock solve m n ps blocked b1 = Inr (blocked', b')"
        using Cons.prems p b1 by auto
      moreover have "let v = map model [0..<n] in (\<forall>x \<in> set v. 0 \<le> x) \<and> (\<forall>row \<in> set m. dot row v = 0) \<and> v ! k > 0"
        using calculation(1) by (auto simp: recheck_def Let_def not_less)
      ultimately show ?thesis using Cons.IH [of blocked b1] p Some by auto
    qed
  qed simp
  then show "blocked' = blocked @ map snd (filter (\<lambda>(k, i). solve m k = None) ps)"
    "(k, i) \<in> set ps \<Longrightarrow> solve m k \<noteq> None \<Longrightarrow>
      \<exists>model. let v = map model [0..<n] in (\<forall>x \<in> set v. 0 \<le> x) \<and> (\<forall>row \<in> set m. dot row v = 0) \<and> v ! k > 0"
    by auto
qed

text \<open>The reactions that some steady state uses.\<close>

definition carrying :: "transformations \<Rightarrow> ident list \<Rightarrow> bool" where
  "carrying ts us \<longleftrightarrow> (\<exists>P. us = filter P (known_ids ts)) \<and>
     (\<forall>i \<in> set us. \<exists>\<phi>. steady ts \<phi> \<and> \<phi> i > 0) \<and>
     (\<forall>i \<in> set (known_ids ts) - set us. \<forall>\<phi>. steady ts \<phi> \<longrightarrow> \<phi> i = 0)"

lemma coupling_transfer:
  assumes "carrying ts us"
  defines "m \<equiv> map (\<lambda>c. map (net ts c) us) (coordinates_of ts (known_ids ts))"
  shows "steady ts \<phi> \<Longrightarrow> map \<phi> us \<in> solutions (length us) m"
    and "\<exists>\<psi>. steady ts \<psi> \<and> (\<forall>i \<in> set us. \<psi> i > 0)"
    and "u \<in> solutions (length us) m \<Longrightarrow> steady ts \<psi> \<Longrightarrow> (\<And>k. k < length us \<Longrightarrow> \<psi> (us ! k) + u ! k \<ge> 0) \<Longrightarrow>
      steady ts (\<lambda>i. if i \<in> set us then \<psi> i + u ! position us i else 0)"
proof -
  obtain P where us: "us = filter P (known_ids ts)" using assms(1) by (auto simp: carrying_def)
  have active: "\<exists>\<phi>. steady ts \<phi> \<and> \<phi> i > 0" if "i \<in> set us" for i
    using assms(1) that by (simp add: carrying_def)
  have idle: "\<phi> i = 0" if "i \<in> set (known_ids ts)" "i \<notin> set us" "steady ts \<phi>" for i \<phi>
    using assms(1) that by (simp add: carrying_def)
  have part: "(\<Sum>i\<leftarrow>known_ids ts. net ts c i * \<phi> i) = (\<Sum>i\<leftarrow>us. net ts c i * \<phi> i)"
    if "\<And>i. i \<in> set (known_ids ts) \<Longrightarrow> i \<notin> set us \<Longrightarrow> \<phi> i = 0" for \<phi> c
    unfolding us using that by (intro sum_list_map_filter [symmetric]) (auto simp: us)
  have sol: "map \<phi> us \<in> solutions (length us) m \<longleftrightarrow>
      (\<forall>c \<in> set (coordinates_of ts (known_ids ts)). (\<Sum>i\<leftarrow>us. net ts c i * \<phi> i) = 0)" for \<phi>
    by (auto simp: solutions_def m_def row_dot)
  show "steady ts \<phi> \<Longrightarrow> map \<phi> us \<in> solutions (length us) m" for \<phi>
  proof -
    assume st: "steady ts \<phi>"
    then have "(\<Sum>i\<leftarrow>us. net ts c i * \<phi> i) = 0" for c
      using part [of \<phi> c] idle [of _ \<phi>] by (simp add: steady_def)
    then show ?thesis by (simp add: sol)
  qed
  have "\<exists>\<psi>. steady ts \<psi> \<and> (\<forall>i \<in> set js. \<psi> i > 0)" if "set js \<subseteq> set us" for js
    using that
  proof (induction js)
    case Nil
    have "steady ts (\<lambda>_. 0)" by (simp add: steady_def)
    then show ?case by auto
  next
    case (Cons j js)
    then obtain \<psi> where "steady ts \<psi>" "\<forall>i \<in> set js. \<psi> i > 0" by auto
    moreover obtain \<chi> where "steady ts \<chi>" "\<chi> j > 0" using active Cons.prems by auto
    moreover have "\<psi> i \<ge> 0" "\<chi> i \<ge> 0" if "i \<in> set (j # js)" for i
      using calculation(1,3) Cons.prems that us by (auto simp: steady_def)
    ultimately have "steady ts (\<lambda>i. \<psi> i + \<chi> i) \<and> (\<forall>i \<in> set (j # js). \<psi> i + \<chi> i > 0)"
      by (force simp: steady_def distrib_left sum_list_addf add_pos_nonneg add_nonneg_pos)
    then show ?case by blast
  qed
  then show "\<exists>\<psi>. steady ts \<psi> \<and> (\<forall>i \<in> set us. \<psi> i > 0)" by blast
  assume u: "u \<in> solutions (length us) m" "steady ts \<psi>" "\<And>k. k < length us \<Longrightarrow> \<psi> (us ! k) + u ! k \<ge> 0"
  have dist: "distinct us" unfolding us by (simp add: known_ids_def)
  let ?\<chi> = "\<lambda>i. if i \<in> set us then \<psi> i + u ! position us i else 0"
  have "map (\<lambda>i. u ! position us i) us = u"
    using u(1) dist by (intro nth_equalityI) (auto simp: solutions_def position_nth)
  then have "(\<Sum>i\<leftarrow>us. net ts c i * u ! position us i) = 0" if "c \<in> set (coordinates_of ts (known_ids ts))" for c
    using sol [of "\<lambda>i. u ! position us i"] u(1) that by simp
  moreover have "(\<Sum>i\<leftarrow>us. net ts c i * \<psi> i) = 0" for c
    using u(2) part [of \<psi> c] idle [OF _ _ u(2)] by (simp add: steady_def)
  moreover have "(\<Sum>i\<leftarrow>us. net ts c i * ?\<chi> i) =
      (\<Sum>i\<leftarrow>us. net ts c i * \<psi> i) + (\<Sum>i\<leftarrow>us. net ts c i * u ! position us i)" for c
    by (simp add: sum_list_addf [symmetric] distrib_left cong: map_cong)
  ultimately have "(\<Sum>i\<leftarrow>known_ids ts. net ts c i * ?\<chi> i) = 0" if "c \<in> set (coordinates_of ts (known_ids ts))" for c
    using part [of ?\<chi> c] that by simp
  moreover have "(\<Sum>i\<leftarrow>known_ids ts. net ts c i * ?\<chi> i) = 0" if "c \<notin> set (coordinates_of ts (known_ids ts))" for c
    using net_outside [OF that] by (intro zero_sum) simp
  moreover have "?\<chi> i \<ge> 0" for i
    using u(3) [of "position us i"] position_less [of i us] by auto
  ultimately show "steady ts ?\<chi>" unfolding steady_def by blast
qed

lemma steady_scaled: "steady ts \<phi> \<Longrightarrow> c \<ge> 0 \<Longrightarrow> steady ts (\<lambda>i. c * \<phi> i)"
  by (simp add: steady_def mult.left_commute [of _ c] sum_list_const_mult)

text \<open>A common interior point: what holds of all steady states holds of the whole solution space.\<close>

lemma coupled_solutions:
  assumes us: "carrying ts us" and l: "l < length us" and r: "r < length us"
  shows "(\<forall>u \<in> solutions (length us) (map (\<lambda>c. map (net ts c) us) (coordinates_of ts (known_ids ts))). u ! l = q * u ! r) \<longleftrightarrow>
    (\<forall>\<phi>. steady ts \<phi> \<longrightarrow> \<phi> (us ! l) = q * \<phi> (us ! r))"
proof
  note move = coupling_transfer [OF us]
  let ?S = "solutions (length us) (map (\<lambda>c. map (net ts c) us) (coordinates_of ts (known_ids ts)))"
  {
    assume "\<forall>u \<in> ?S. u ! l = q * u ! r"
    then show "\<forall>\<phi>. steady ts \<phi> \<longrightarrow> \<phi> (us ! l) = q * \<phi> (us ! r)"
      using move(1) l r by (metis nth_map)
  next
    assume all: "\<forall>\<phi>. steady ts \<phi> \<longrightarrow> \<phi> (us ! l) = q * \<phi> (us ! r)"
    obtain \<psi> where \<psi>: "steady ts \<psi>" "\<forall>i \<in> set us. \<psi> i > 0" using move(2) by blast
    show "\<forall>u \<in> ?S. u ! l = q * u ! r"
    proof
      fix u assume u: "u \<in> ?S"
      let ?c = "\<Sum>k<length us. \<bar>u ! k\<bar> / \<psi> (us ! k)"
      have pos: "\<psi> (us ! k) > 0" if "k < length us" for k using \<psi>(2) that by simp
      have "?c * \<psi> (us ! k) + u ! k \<ge> 0" if k: "k < length us" for k
      proof -
        have "\<bar>u ! k\<bar> / \<psi> (us ! k) \<le> ?c"
          using k pos by (intro member_le_sum) (auto simp: less_imp_le)
        then have "\<bar>u ! k\<bar> \<le> ?c * \<psi> (us ! k)" using pos [OF k] by (simp add: pos_divide_le_eq)
        then show ?thesis by linarith
      qed
      moreover have scaled: "steady ts (\<lambda>i. ?c * \<psi> i)"
        using \<psi>(1) pos by (intro steady_scaled sum_nonneg) (auto simp: less_imp_le)
      ultimately have "steady ts (\<lambda>i. if i \<in> set us then ?c * \<psi> i + u ! position us i else 0)"
        using move(3) [OF u scaled] by simp
      with all have "?c * \<psi> (us ! l) + u ! position us (us ! l) = q * (?c * \<psi> (us ! r) + u ! position us (us ! r))"
        using l r by fastforce
      moreover have "distinct us" using us by (auto simp: carrying_def known_ids_def)
      moreover have "?c * \<psi> (us ! l) = q * (?c * \<psi> (us ! r))" using all scaled by blast
      ultimately show "u ! l = q * u ! r" using l r by (simp add: position_nth distrib_left)
    qed
  }
qed

lemma flux_coupling_run:
  assumes "exact_flux_coupling clock (Some (version, solve)) ts b = Some (Inr (r, b'))"
  defines "ids \<equiv> known_ids ts" and "m \<equiv> snd (stoichiometric_matrix ts (known_ids ts))"
  defines "us \<equiv> filter (\<lambda>i. i \<notin> set (fc_blocked r)) ids"
  shows "\<exists>b1 b2. blocked_loop clock solve m (length ids) (List.enumerate 0 ids) [] b = Inr (fc_blocked r, b1) \<and>
    (ids = [] \<or> coupled_classes clock us (map (\<lambda>row. map (\<lambda>i. row ! position ids i) us) m) b1 = Some (Inr (fc_classes r, b2)))"
  using assms(1) unfolding exact_flux_coupling_def ids_def m_def us_def
  by (auto simp: Let_def case_prod_beta split: option.splits sum.splits if_splits)

text \<open>What z3 promises for linear rational constraints: a query that some steady state meets gets a model.\<close>

definition solver_complete :: "transformations \<Rightarrow> solver \<Rightarrow> bool" where
  "solver_complete ts solve \<longleftrightarrow> (\<forall>k < length (known_ids ts). \<forall>\<phi>. steady ts \<phi> \<longrightarrow> \<phi> (known_ids ts ! k) > 0 \<longrightarrow>
     solve (snd (stoichiometric_matrix ts (known_ids ts))) k \<noteq> None)"

text \<open>The queries with a model single out the reactions that carry flux.\<close>

lemma flux_carrying:
  assumes run: "exact_flux_coupling clock (Some (version, solve)) ts b = Some (Inr (r, b'))"
    and complete: "solver_complete ts solve"
  shows "carrying ts (filter (\<lambda>i. i \<notin> set (fc_blocked r)) (known_ids ts)) \<and>
    set (fc_blocked r) \<subseteq> set (known_ids ts)"
proof -
  let ?ids = "known_ids ts"
  let ?m = "snd (stoichiometric_matrix ts ?ids)"
  define us where "us = filter (\<lambda>i. i \<notin> set (fc_blocked r)) ?ids"
  obtain b1 b2 where loop: "blocked_loop clock solve ?m (length ?ids) (List.enumerate 0 ?ids) [] b = Inr (fc_blocked r, b1)"
    using flux_coupling_run [OF run] by blast
  have dist: "distinct ?ids" by (simp add: known_ids_def)
  have blocked: "?ids ! k \<in> set (fc_blocked r) \<longleftrightarrow> solve ?m k = None" if "k < length ?ids" for k
    using blocked_loop_exact(1) [OF loop] that dist
    by (auto simp: in_set_enumerate_eq nth_eq_iff_index_eq image_iff)
  have active: "\<exists>\<phi>. steady ts \<phi> \<and> \<phi> i > 0" if "i \<in> set us" for i
  proof -
    have "i \<in> set ?ids" using that by (simp add: us_def)
    then obtain k where k: "k < length ?ids" "?ids ! k = i" by (auto simp: in_set_conv_nth)
    then have k3: "solve ?m k \<noteq> None" using blocked that by (auto simp: us_def)
    from k have "(k, i) \<in> set (List.enumerate 0 ?ids)" by (auto simp: in_set_enumerate_eq)
    from blocked_loop_exact(2) [OF loop this k3] obtain model where model:
      "\<forall>x \<in> set (map model [0..<length ?ids]). 0 \<le> x" "\<forall>row \<in> set ?m. dot row (map model [0..<length ?ids]) = 0"
      "model k > 0" using k(1) by (auto simp: Let_def)
    let ?\<phi> = "\<lambda>i. model (position ?ids i)"
    have "map ?\<phi> ?ids = map model [0..<length ?ids]" using dist by (intro nth_equalityI) (simp_all add: position_nth)
    then have "steady ts ?\<phi>" using model(1,2) position_less unfolding steady_matrix by fastforce
    then show ?thesis using model(3) k(1,2) dist by (intro exI [of _ ?\<phi>]) (auto simp: position_nth)
  qed
  have idle: "\<phi> i = 0" if "i \<in> set ?ids" "i \<notin> set us" "steady ts \<phi>" for i \<phi>
  proof -
    obtain k where "k < length ?ids" "?ids ! k = i" using \<open>i \<in> set ?ids\<close> by (auto simp: in_set_conv_nth)
    moreover have "i \<in> set (fc_blocked r)" using that by (simp add: us_def)
    ultimately have "\<not> \<phi> i > 0" using blocked complete \<open>steady ts \<phi>\<close> unfolding solver_complete_def by blast
    moreover have "\<phi> i \<ge> 0" using that by (simp add: steady_def)
    ultimately show ?thesis by simp
  qed
  have "carrying ts us" using active idle unfolding carrying_def us_def by blast
  moreover have "set (fc_blocked r) \<subseteq> set ?ids"
    using blocked_loop_exact(1) [OF loop] by (auto simp: in_set_enumerate_eq)
  ultimately show ?thesis by (simp add: us_def)
qed

lemma flux_classes:
  assumes run: "exact_flux_coupling clock (Some (version, solve)) ts b = Some (Inr (r, b'))"
  defines "us \<equiv> filter (\<lambda>i. i \<notin> set (fc_blocked r)) (known_ids ts)"
  assumes carrying: "carrying ts us" and "i \<in> set us" "j \<in> set us" "i \<noteq> j"
  shows "(\<exists>c \<in> set (fc_classes r). i \<in> set c \<and> j \<in> set c) \<longleftrightarrow> (\<exists>q > 0. \<forall>\<phi>. steady ts \<phi> \<longrightarrow> \<phi> i = q * \<phi> j)"
proof -
  let ?ids = "known_ids ts"
  let ?m = "snd (stoichiometric_matrix ts ?ids)"
  obtain k l where kl: "k < length us" "us ! k = i" "l < length us" "us ! l = j" "k \<noteq> l"
    using assms(4-6) by (auto simp: in_set_conv_nth)
  let ?r = "map (\<lambda>c. map (net ts c) us) (coordinates_of ts ?ids)"
  have dist: "distinct us" by (simp add: us_def known_ids_def)
  have "?ids \<noteq> []" using assms(4) by (auto simp: us_def)
  moreover have "map (\<lambda>row. map (\<lambda>i. row ! position ?ids i) us) ?m = ?r"
    by (intro reduced_rows) (auto simp: us_def known_ids_def)
  ultimately obtain b1 b2 where run': "coupled_classes clock us ?r b1 = Some (Inr (fc_classes r, b2))"
    using flux_coupling_run [OF run, folded us_def] by auto
  have "\<exists>u \<in> solutions (length us) ?r. u ! k \<noteq> 0" if "k < length us" for k
  proof -
    have "us ! k \<in> set us" using that by simp
    then obtain \<phi> where "steady ts \<phi>" "\<phi> (us ! k) > 0"
      using carrying unfolding carrying_def by blast
    then show ?thesis
      using coupling_transfer(1) [OF carrying, of \<phi>] that by (intro bexI [of _ "map \<phi> us"]) auto
  qed
  moreover have "rectangular (length us) ?r" by (simp add: rectangular_def)
  ultimately show ?thesis
    using coupled_classes_exact [OF _ dist refl run' _ kl(1,3,5)] coupled_solutions [OF carrying kl(1,3)] kl(2,4)
    by simp
qed

text \<open>
  C6: when the solver never misses a feasible query, a reaction is reported blocked exactly when no steady
  state uses it, and two others share a class exactly when their fluxes stand in one fixed ratio in
  every steady state.
\<close>

theorem exact_flux_coupling_exact:
  assumes run: "exact_flux_coupling clock (Some (version, solve)) ts b = Some (Inr (r, b'))"
    and complete: "solver_complete ts solve"
  shows "set (fc_blocked r) = {i \<in> set (known_ids ts). \<forall>\<phi>. steady ts \<phi> \<longrightarrow> \<phi> i = 0} \<and>
    (\<forall>i j. {i, j} \<subseteq> set (known_ids ts) - set (fc_blocked r) \<and> i \<noteq> j \<longrightarrow>
      ((\<exists>c \<in> set (fc_classes r). i \<in> set c \<and> j \<in> set c) \<longleftrightarrow>
       (\<exists>q > 0. \<forall>\<phi>. steady ts \<phi> \<longrightarrow> \<phi> i = q * \<phi> j)))"
proof -
  let ?us = "filter (\<lambda>i. i \<notin> set (fc_blocked r)) (known_ids ts)"
  have us: "carrying ts ?us" "set (fc_blocked r) \<subseteq> set (known_ids ts)"
    using flux_carrying [OF run complete] by blast+
  have "i \<in> set (fc_blocked r) \<longleftrightarrow> (\<forall>\<phi>. steady ts \<phi> \<longrightarrow> \<phi> i = 0)" if "i \<in> set (known_ids ts)" for i
    using us(1) that by (auto simp: carrying_def) (metis less_irrefl)
  then have "set (fc_blocked r) = {i \<in> set (known_ids ts). \<forall>\<phi>. steady ts \<phi> \<longrightarrow> \<phi> i = 0}"
    using us(2) by blast
  then show ?thesis using flux_classes [OF run us(1)] by (simp cong: conj_cong)
qed

definition demo_network :: transformations where
  "demo_network = map (\<lambda>(i, inputs, outputs). (i, \<lparr>tr_id = i, tr_inputs = inputs, tr_outputs = outputs,
       catalyst_clauses = [], inhibitors = [], uncatalyzed = True, required_evidence = [], required_authority = []\<rparr>))
     [(''there'', [(''a'', 1)], [(''b'', 1)]), (''back'', [(''b'', 1)], [(''a'', 1)]), (''waste'', [(''a'', 1)], [(''c'', 1)])]"

definition demo_solver :: solver where
  "demo_solver m k = (if k < 2 then Some (\<lambda>j. if j < 2 then 1 / 2 else 0) else None)"

lemma demo_flux:
  "\<exists>b'. exact_flux_coupling (\<lambda>_. 0) (Some (''4.13'', demo_solver)) demo_network (new_budget (\<lambda>_. 0) 100 60) =
    Some (Inr (\<lparr>fc_status = ''satisfied'', fc_blocked = [''waste''], fc_classes = [[''back'', ''there'']],
      fc_rechecked = True, fc_solver = ''z3'', fc_version = ''4.13''\<rparr>, b'))"
proof -
  have "map_option (map_sum id fst) (exact_flux_coupling (\<lambda>_. 0) (Some (''4.13'', demo_solver)) demo_network
      (new_budget (\<lambda>_. 0) 100 60)) = Some (Inr \<lparr>fc_status = ''satisfied'', fc_blocked = [''waste''],
        fc_classes = [[''back'', ''there'']], fc_rechecked = True, fc_solver = ''z3'', fc_version = ''4.13''\<rparr>)"
    by code_simp
  then obtain z where "exact_flux_coupling (\<lambda>_. 0) (Some (''4.13'', demo_solver)) demo_network (new_budget (\<lambda>_. 0) 100 60) = Some z"
    "map_sum id fst z = Inr \<lparr>fc_status = ''satisfied'', fc_blocked = [''waste''],
        fc_classes = [[''back'', ''there'']], fc_rechecked = True, fc_solver = ''z3'', fc_version = ''4.13''\<rparr>"
    by auto
  then show ?thesis by (cases z) auto
qed

lemma demo_steady:
  assumes "steady demo_network \<phi>"
  shows "\<phi> ''waste'' = 0"
proof -
  have ids: "known_ids demo_network = [''back'', ''there'', ''waste'']" by code_simp
  have net: "net demo_network ''c'' ''back'' = 0" "net demo_network ''c'' ''there'' = 0" "net demo_network ''c'' ''waste'' = 1"
    by code_simp+
  have "(\<Sum>i\<leftarrow>known_ids demo_network. net demo_network ''c'' i * \<phi> i) = 0"
    using assms by (simp add: steady_def)
  then show ?thesis by (simp add: ids net)
qed

theorem exact_flux_coupling_exact_witness:
  "\<exists>r b'. exact_flux_coupling (\<lambda>_. 0) (Some (''4.13'', demo_solver)) demo_network (new_budget (\<lambda>_. 0) 100 60) =
      Some (Inr (r, b')) \<and> fc_blocked r = [''waste''] \<and>
    (\<exists>q. q > 0 \<and> Collect (steady demo_network) \<subseteq> {\<phi>. \<phi> ''back'' = q * \<phi> ''there''})"
proof -
  obtain r b' where r: "exact_flux_coupling (\<lambda>_. 0) (Some (''4.13'', demo_solver)) demo_network (new_budget (\<lambda>_. 0) 100 60) =
      Some (Inr (r, b'))" "fc_blocked r = [''waste'']" "fc_classes r = [[''back'', ''there'']]"
    using demo_flux by auto
  have ids: "known_ids demo_network = [''back'', ''there'', ''waste'']" by code_simp
  have "solver_complete demo_network demo_solver"
    using demo_steady by (fastforce simp: solver_complete_def ids demo_solver_def less_Suc_eq numeral_3_eq_3)
  from exact_flux_coupling_exact [OF r(1) this] r(2,3)
  have "\<exists>q > 0. \<forall>\<phi>. steady demo_network \<phi> \<longrightarrow> \<phi> ''back'' = q * \<phi> ''there''"
    by (auto simp: ids)
  with r show ?thesis by blast
qed

section \<open>The union-find always ends\<close>

lemma union_loop_returns:
  assumes "descending parent" "\<forall>(l, r) \<in> set pairs. l < length parent \<and> r < length parent"
  shows "\<exists>out. union_loop clock rows pairs parent b = Some out \<and>
    (\<forall>parent' b'. out = Inr (parent', b') \<longrightarrow> descending parent' \<and> length parent' = length parent)"
  using assms
proof (induction pairs arbitrary: parent b)
  case (Cons lr pairs)
  obtain l r where lr: "lr = (l, r)" by (cases lr)
  with Cons.prems obtain p where p: "unite parent l r = Some p" "descending p" "length p = length parent"
    using unite_returns [of parent l r] by auto
  show ?case
  proof (cases "spend clock 1 b")
    case (Inr b1)
    then show ?thesis
      using Cons.IH [of p b1] Cons.IH [of parent b1] Cons.prems p lr by auto
  qed (simp add: lr)
qed simp

text \<open>
  the \<open>while\<close> loops of \<open>find\<close> always end: the analysis returns or raises on every input.
\<close>

lemma flux_coupling_returns: "exact_flux_coupling clock z3 ts b \<noteq> None"
proof -
  have total: "coupled_classes clock us m b \<noteq> None" for us m b
  proof -
    let ?rows = "map (\<lambda>index. map (\<lambda>v. v ! index) (nullspace m (length us))) [0..<length us]"
    have "descending [0..<length us]" by (simp add: descending_def)
    then obtain out where out: "union_loop clock ?rows (index_pairs (length us)) [0..<length us] b = Some out"
      "\<forall>parent b'. out = Inr (parent, b') \<longrightarrow> descending parent \<and> length parent = length us"
      using union_loop_returns [of "[0..<length us]" "index_pairs (length us)" clock ?rows b] index_pairs_mem
      by fastforce
    show ?thesis
    proof (cases out)
      case (Inr pb)
      then have "descending (fst pb)" "length (fst pb) = length us" using out(2) by (cases pb; simp)+
      then show ?thesis
        using class_loop_groups [of "fst pb" 0 us "[]"] out(1) Inr
        by (auto simp: coupled_classes_def Let_def dict_keys_def split: prod.splits)
    qed (use out(1) in \<open>simp add: coupled_classes_def Let_def\<close>)
  qed
  show ?thesis
    by (simp add: exact_flux_coupling_def Let_def total split: option.splits sum.splits prod.splits)
qed

end
