(* ===== verification/Prefix.thy ===== *)
theory Prefix
  imports Structural
begin

text \<open>
  \<open>bounded_occurrence_prefix\<close> of \<open>v6/structural_analysis.py\<close>: a breadth-first unfolding of a 1-safe net
  with catalysts and inhibitors into conditions and events. A \<open>frozenset\<close> of states is a set; the sets
  that \<open>conflict_map\<close> holds are lists without repetitions, sorted when they are read.
\<close>

section \<open>The code\<close>

record prefix_condition =
  pc_id :: ident
  pc_state :: ident
  pc_producer :: "ident option"

record prefix_event =
  pe_id :: ident
  pe_transformation :: ident
  pe_preset :: "ident list"
  pe_postset :: "ident list"
  pe_causal :: "ident list"
  pe_conflicts :: "ident list"

record occurrence_prefix =
  op_conditions :: "prefix_condition list"
  op_events :: "prefix_event list"
  op_cutoffs :: "ident list"
  op_exhaustive :: bool

type_synonym marking = "(ident, ident) dict"

text \<open>The variables of the loop.\<close>

record unfolding_state =
  uf_conditions :: "(ident, prefix_condition) dict"
  uf_queue :: "(marking \<times> ident set) list"
  uf_seen :: "(ident set, nat) dict"
  uf_events :: "prefix_event list"
  uf_cutoff :: "ident list"
  uf_exhausted :: bool

definition unit_flows :: "transformation \<Rightarrow> bool" where
  "unit_flows t \<longleftrightarrow> (\<forall>v \<in> set (dict_values (tr_inputs t) @ dict_values (tr_outputs t)). v = 1)"

definition add_initial ::
  "nat \<times> ident \<Rightarrow> (ident, prefix_condition) dict \<times> marking \<Rightarrow> (ident, prefix_condition) dict \<times> marking" where
  "add_initial x acc =
     (let (index, s) = x; (conditions, m) = acc; c = ''c-init-'' @ show_nat index
      in (dict_set conditions c \<lparr>pc_id = c, pc_state = s, pc_producer = None\<rparr>, dict_set m s c))"

text \<open>Whether a transformation fires in a marking (the three \<open>continue\<close> guards).\<close>

definition fires :: "transformation \<Rightarrow> ident set \<Rightarrow> bool" where
  "fires t states \<longleftrightarrow>
     (let (inputs, outputs) = flows t in
      inputs \<subseteq> states \<and> set (inhibitors t) \<inter> states = {} \<and>
      \<not> (\<not> uncatalyzed t \<and> catalyst_clauses t \<noteq> [] \<and> \<not> (\<exists>cl \<in> set (catalyst_clauses t). set cl \<subseteq> states)) \<and>
      outputs \<inter> (states - inputs) = {})"

definition input_list :: "transformation \<Rightarrow> ident list" where
  "input_list t = sorted_set (map fst (filter (\<lambda>(c, v). v > 0) (tr_inputs t)))"

definition output_list :: "transformation \<Rightarrow> ident list" where
  "output_list t = sorted_set (map fst (filter (\<lambda>(c, v). v > 0) (tr_outputs t)))"

definition condition_at :: "marking \<Rightarrow> ident \<Rightarrow> ident" where
  "condition_at m s = the (dict_get m s)"

text \<open>The conditions an event depends on: its preset and the first catalyst clause that holds.\<close>

definition dependencies :: "transformation \<Rightarrow> marking \<Rightarrow> ident list" where
  "dependencies t m = map (condition_at m) (input_list t) @
     (case find (\<lambda>cl. set cl \<subseteq> set (dict_keys m)) (catalyst_clauses t) of
        None \<Rightarrow> [] | Some cl \<Rightarrow> map (condition_at m) cl)"

definition direct_causes :: "(ident, prefix_condition) dict \<Rightarrow> ident list \<Rightarrow> ident list" where
  "direct_causes conditions ds = List.map_filter (\<lambda>c. pc_producer (the (dict_get conditions c))) ds"

definition causes :: "prefix_event list \<Rightarrow> ident list \<Rightarrow> analysis_error + ident list" where
  "causes events direct =
     res_bind (map_res (\<lambda>p. case find (\<lambda>e. pe_id e = p) events of
         None \<Rightarrow> Inl AnalysisStopIteration | Some e \<Rightarrow> Inr (pe_causal e)) direct)
       (\<lambda>found. Inr (sorted_set (direct @ concat found)))"

text \<open>The conditions an event produces, in the order of their states.\<close>

definition produce ::
  "ident \<Rightarrow> ident \<Rightarrow> (ident, prefix_condition) dict \<times> marking \<times> ident list \<Rightarrow>
   (ident, prefix_condition) dict \<times> marking \<times> ident list" where
  "produce event s acc =
     (let (conditions, m, postset) = acc; c = ''c-'' @ show_nat (length conditions)
      in (dict_set conditions c \<lparr>pc_id = c, pc_state = s, pc_producer = Some event\<rparr>, dict_set m s c, postset @ [c]))"

text \<open>A marking reached at no smaller depth is a cutoff; any other is noted and enqueued.\<close>

definition note_marking :: "ident \<Rightarrow> marking \<Rightarrow> ident set \<Rightarrow> unfolding_state \<Rightarrow> unfolding_state" where
  "note_marking e successor history st =
     (let abstract = set (dict_keys successor); depth = card history + 1;
          enqueued = st\<lparr>uf_seen := dict_set (uf_seen st) abstract depth,
                        uf_queue := uf_queue st @ [(successor, insert e history)]\<rparr>
      in case dict_get (uf_seen st) abstract of
           Some previous \<Rightarrow> if previous \<le> depth then st\<lparr>uf_cutoff := uf_cutoff st @ [e]\<rparr> else enqueued
         | None \<Rightarrow> enqueued)"

definition add_event ::
  "ident \<Rightarrow> transformation \<Rightarrow> marking \<Rightarrow> ident set \<Rightarrow> unfolding_state \<Rightarrow> analysis_error + unfolding_state" where
  "add_event i t m history st =
     (let e = ''e-'' @ show_nat (length (uf_events st));
          preset = map (condition_at m) (input_list t)
      in res_bind (causes (uf_events st) (direct_causes (uf_conditions st) (dependencies t m))) (\<lambda>causal.
         let (conditions, successor, postset) = fold (produce e) (output_list t)
               (uf_conditions st, filter (\<lambda>(s, c). s \<notin> fst (flows t)) m, []);
             conflicts = map pe_id (filter (\<lambda>p. set preset \<inter> set (pe_preset p) \<noteq> {} \<and> pe_id p \<notin> set causal)
               (uf_events st))
         in Inr (note_marking e successor history (st\<lparr>uf_conditions := conditions, uf_events := uf_events st @
               [\<lparr>pe_id = e, pe_transformation = i, pe_preset = preset, pe_postset = postset, pe_causal = causal,
                 pe_conflicts = conflicts\<rparr>]\<rparr>))))"

fun event_pass ::
  "(nat \<Rightarrow> int) \<Rightarrow> transformations \<Rightarrow> nat \<Rightarrow> marking \<Rightarrow> ident set \<Rightarrow> ident list \<Rightarrow> unfolding_state \<Rightarrow> budget \<Rightarrow>
   unfolding_state analysed" where
  "event_pass clock ts maximum m history [] st b = Inr (st, b)"
| "event_pass clock ts maximum m history (i # is) st b =
     res_bind (spend clock 1 b) (\<lambda>b.
       if \<not> fires (lookup ts i) (set (dict_keys m)) then event_pass clock ts maximum m history is st b
       else if length (uf_events st) \<ge> maximum then Inr (st\<lparr>uf_exhausted := False, uf_queue := []\<rparr>, b)
       else res_bind (add_event i (lookup ts i) m history st)
              (\<lambda>st. event_pass clock ts maximum m history is st b))"

abbreviation work_left :: "nat \<Rightarrow> unfolding_state \<Rightarrow> nat" where
  "work_left maximum st \<equiv> length (uf_queue st) + 2 * (maximum - length (uf_events st))"

lemma add_event_work:
  assumes "add_event i t m history st = Inr st'"
  shows "length (uf_events st') = Suc (length (uf_events st)) \<and> length (uf_queue st') \<le> Suc (length (uf_queue st))"
  using assms by (auto simp: add_event_def note_marking_def Let_def case_prod_beta split: option.splits)

lemma event_pass_work:
  "event_pass clock ts maximum m history is st b = Inr (st', b') \<Longrightarrow> work_left maximum st' \<le> work_left maximum st"
proof (induction "is" arbitrary: st b)
  case (Cons i "is")
  obtain b1 where b1: "spend clock 1 b = Inr b1" using Cons.prems by auto
  consider "\<not> fires (lookup ts i) (set (dict_keys m))"
    | "fires (lookup ts i) (set (dict_keys m))" "length (uf_events st) \<ge> maximum"
    | "fires (lookup ts i) (set (dict_keys m))" "length (uf_events st) < maximum" by linarith
  then show ?case
  proof cases
    case 3
    then obtain st1 where st1: "add_event i (lookup ts i) m history st = Inr st1"
      "event_pass clock ts maximum m history is st1 b1 = Inr (st', b')"
      using Cons.prems b1 by auto
    show ?thesis using Cons.IH [OF st1(2)] add_event_work [OF st1(1)] 3(2) by linarith
  qed (use Cons b1 in auto)
qed simp

function unfold_loop ::
  "(nat \<Rightarrow> int) \<Rightarrow> transformations \<Rightarrow> nat \<Rightarrow> unfolding_state \<Rightarrow> budget \<Rightarrow> unfolding_state analysed" where
  "unfold_loop clock ts maximum st b =
     (case uf_queue st of [] \<Rightarrow> Inr (st, b)
      | (m, history) # rest \<Rightarrow>
          res_bind (event_pass clock ts maximum m history (known_ids ts) (st\<lparr>uf_queue := rest\<rparr>) b)
            (\<lambda>(st, b). unfold_loop clock ts maximum st b))"
  by pat_completeness auto
termination
  by (relation "measure (\<lambda>(clock, ts, maximum, st, b). work_left maximum st)") (auto dest!: event_pass_work)

declare unfold_loop.simps [simp del]

text \<open>The symmetric closure of the conflicts.\<close>

definition spread :: "ident \<Rightarrow> (ident, ident list) dict \<Rightarrow> (ident, ident list) dict" where
  "spread e conflict_map =
     fold (\<lambda>other d. dict_set d other (List.insert e (dict_get_default d other [])))
       (dict_get_default conflict_map e []) conflict_map"

definition conflict_map_of :: "prefix_event list \<Rightarrow> (ident, ident list) dict" where
  "conflict_map_of events =
     fold spread (map pe_id events) (dict_update [] (map (\<lambda>e. (pe_id e, remdups (pe_conflicts e))) events))"

definition bounded_occurrence_prefix ::
  "(nat \<Rightarrow> int) \<Rightarrow> ident list \<Rightarrow> transformations \<Rightarrow> nat \<Rightarrow> budget \<Rightarrow> occurrence_prefix analysed" where
  "bounded_occurrence_prefix clock initial ts maximum b =
     (if \<exists>t \<in> set (dict_values ts). \<not> unit_flows t
      then Inr (\<lparr>op_conditions = [], op_events = [], op_cutoffs = [], op_exhaustive = False\<rparr>, b)
      else let (conditions, m) = fold add_initial (List.enumerate 0 (sorted_set initial)) ([], [])
        in res_bind (unfold_loop clock ts maximum
             \<lparr>uf_conditions = conditions, uf_queue = [(m, {})], uf_seen = [(set (dict_keys m), 0)], uf_events = [],
              uf_cutoff = [], uf_exhausted = True\<rparr> b) (\<lambda>(st, b).
           let conflicts = conflict_map_of (uf_events st)
           in Inr (\<lparr>op_conditions = dict_values (uf_conditions st),
                op_events = map (\<lambda>e. e\<lparr>pe_conflicts := sorted_set (dict_get_default conflicts (pe_id e) [])\<rparr>) (uf_events st),
                op_cutoffs = uf_cutoff st, op_exhaustive = uf_exhausted st\<rparr>, b)))"

section \<open>Reachable markings\<close>

definition after :: "transformation \<Rightarrow> ident set \<Rightarrow> ident set" where
  "after t M = (M - fst (flows t)) \<union> snd (flows t)"

text \<open>
  What the net means: a transformation may occur in a marking that has its inputs and none of its inhibitors,
  with a catalyst clause if it needs one, and where no output is present that is not an input.
\<close>

definition may_occur :: "transformation \<Rightarrow> ident set \<Rightarrow> bool" where
  "may_occur t M \<longleftrightarrow>
     (\<forall>(c, v) \<in> set (tr_inputs t). v > 0 \<longrightarrow> c \<in> M) \<and> (\<forall>x \<in> set (inhibitors t). x \<notin> M) \<and>
     (uncatalyzed t \<or> catalyst_clauses t = [] \<or> (\<exists>clause \<in> set (catalyst_clauses t). \<forall>x \<in> set clause. x \<in> M)) \<and>
     (\<forall>(c, v) \<in> set (tr_outputs t). v > 0 \<and> c \<in> M \<longrightarrow> (\<exists>w > 0. (c, w) \<in> set (tr_inputs t)))"

inductive reachable :: "transformations \<Rightarrow> ident set \<Rightarrow> ident set \<Rightarrow> bool" for ts M0 where
  start: "reachable ts M0 M0"
| fire: "reachable ts M0 M \<Longrightarrow> i \<in> set (known_ids ts) \<Longrightarrow> may_occur (lookup ts i) M \<Longrightarrow> reachable ts M0 (after (lookup ts i) M)"

lemma fires_may_occur: "fires t M = may_occur t M"
proof -
  have "(\<forall>x \<in> set (inhibitors t). x \<notin> M) \<longleftrightarrow> set (inhibitors t) \<inter> M = {}" by blast
  moreover have "(\<forall>(c, v) \<in> set (tr_inputs t). v > 0 \<longrightarrow> c \<in> M) \<longleftrightarrow> fst (flows t) \<subseteq> M" by (force simp: flows_def)
  moreover have "(\<forall>(c, v) \<in> set (tr_outputs t). v > 0 \<and> c \<in> M \<longrightarrow> (\<exists>w > 0. (c, w) \<in> set (tr_inputs t))) \<longleftrightarrow>
      snd (flows t) \<inter> (M - fst (flows t)) = {}" by (force simp: flows_def)
  ultimately show ?thesis unfolding fires_def may_occur_def by (auto simp: Let_def split: prod.splits)
qed

lemma set_output_list: "set (output_list t) = snd (flows t)"
  by (simp add: output_list_def flows_def)

lemma produce_keys:
  "fold (produce e) os (conditions, m, post) = (conditions', m', post') \<Longrightarrow>
   set (dict_keys m') = set (dict_keys m) \<union> set os"
  by (induction os arbitrary: conditions m post) (auto simp: produce_def Let_def)

lemma keys_filter: "set (dict_keys (filter (\<lambda>(s, c). P s) m)) = {s \<in> set (dict_keys m). P s}"
  by (auto simp: dict_keys_def)

text \<open>What \<open>add_event\<close> does to the queue, the markings seen and the events.\<close>

lemma note_marking_effect:
  fixes successor :: marking
  defines "M \<equiv> set (dict_keys successor)"
  shows "uf_exhausted (note_marking e successor h st) = uf_exhausted st"
    "uf_events (note_marking e successor h st) = uf_events st"
    "set (dict_keys (uf_seen (note_marking e successor h st))) = insert M (set (dict_keys (uf_seen st)))"
    "uf_queue (note_marking e successor h st) = uf_queue st \<and> M \<in> set (dict_keys (uf_seen st)) \<or>
     (\<exists>h'. uf_queue (note_marking e successor h st) = uf_queue st @ [(successor, h')])"
  using dict_get_None [of "uf_seen st" M]
  by (auto simp: note_marking_def Let_def M_def split: option.splits)

lemma add_event_effect:
  assumes "add_event i t m history st = Inr st'"
  defines "M \<equiv> after t (set (dict_keys m))"
  shows "uf_exhausted st' = uf_exhausted st"
    "map pe_transformation (uf_events st') = map pe_transformation (uf_events st) @ [i]"
    "set (dict_keys (uf_seen st')) = insert M (set (dict_keys (uf_seen st)))"
    "uf_queue st' = uf_queue st \<and> M \<in> set (dict_keys (uf_seen st)) \<or>
     (\<exists>succ h. uf_queue st' = uf_queue st @ [(succ, h)] \<and> set (dict_keys succ) = M)"
proof -
  let ?e = "''e-'' @ show_nat (length (uf_events st))"
  obtain conditions succ post where p: "fold (produce ?e) (output_list t)
      (uf_conditions st, filter (\<lambda>(s, c). s \<notin> fst (flows t)) m, []) = (conditions, succ, post)"
    by (cases "fold (produce ?e) (output_list t) (uf_conditions st, filter (\<lambda>(s, c). s \<notin> fst (flows t)) m, [])")
  have M: "set (dict_keys succ) = M"
    using produce_keys [OF p] by (auto simp: keys_filter set_output_list M_def after_def)
  have "\<exists>ev. st' = note_marking ?e succ history (st\<lparr>uf_conditions := conditions, uf_events := uf_events st @ [ev]\<rparr>) \<and>
      pe_transformation ev = i"
    using assms(1) p by (clarsimp simp: add_event_def Let_def) (rule exI, rule conjI, rule refl, simp)
  then obtain ev where ev: "pe_transformation ev = i"
    "st' = note_marking ?e succ history (st\<lparr>uf_conditions := conditions, uf_events := uf_events st @ [ev]\<rparr>)" by blast
  show "uf_exhausted st' = uf_exhausted st"
    "map pe_transformation (uf_events st') = map pe_transformation (uf_events st) @ [i]"
    "set (dict_keys (uf_seen st')) = insert M (set (dict_keys (uf_seen st)))"
    "uf_queue st' = uf_queue st \<and> M \<in> set (dict_keys (uf_seen st)) \<or>
     (\<exists>succ h. uf_queue st' = uf_queue st @ [(succ, h)] \<and> set (dict_keys succ) = M)"
    using ev(1) M note_marking_effect(4) [of ?e succ history "st\<lparr>uf_conditions := conditions, uf_events := uf_events st @ [ev]\<rparr>"]
    unfolding ev(2) by (auto simp: note_marking_effect(1-3))
qed

text \<open>
  The invariant of the exploration: everything noted is reachable, and every marking seen is explored
  already, waits in the queue, or is the one being explored.
\<close>

definition explored :: "transformations \<Rightarrow> unfolding_state \<Rightarrow> ident set \<Rightarrow> ident \<Rightarrow> bool" where
  "explored ts st M i \<longleftrightarrow> (fires (lookup ts i) M \<longrightarrow>
     i \<in> pe_transformation ` set (uf_events st) \<and> after (lookup ts i) M \<in> set (dict_keys (uf_seen st)))"

definition waiting :: "unfolding_state \<Rightarrow> ident set set" where
  "waiting st = (\<lambda>(m, h). set (dict_keys m)) ` set (uf_queue st)"

definition sound_state :: "transformations \<Rightarrow> ident set \<Rightarrow> unfolding_state \<Rightarrow> bool" where
  "sound_state ts M0 st \<longleftrightarrow> (\<forall>M \<in> set (dict_keys (uf_seen st)). reachable ts M0 M) \<and>
     waiting st \<subseteq> set (dict_keys (uf_seen st)) \<and>
     (\<forall>i \<in> pe_transformation ` set (uf_events st). i \<in> set (known_ids ts) \<and> (\<exists>M. reachable ts M0 M \<and> fires (lookup ts i) M))"

lemma event_pass_effect:
  assumes "event_pass clock ts maximum m history is st b = Inr (st', b')"
    and "sound_state ts M0 st" "reachable ts M0 (set (dict_keys m))" "set is \<subseteq> set (known_ids ts)"
  shows "sound_state ts M0 st' \<and>
    (uf_exhausted st' \<longrightarrow> uf_exhausted st \<and> waiting st \<subseteq> waiting st' \<and>
       set (dict_keys (uf_seen st)) \<subseteq> set (dict_keys (uf_seen st')) \<and>
       pe_transformation ` set (uf_events st) \<subseteq> pe_transformation ` set (uf_events st') \<and>
       set (dict_keys (uf_seen st')) \<subseteq> set (dict_keys (uf_seen st)) \<union> waiting st' \<and>
       (\<forall>i \<in> set is. explored ts st' (set (dict_keys m)) i))"
  using assms
proof (induction "is" arbitrary: st b)
  case (Cons i "is")
  let ?M = "set (dict_keys m)"
  obtain b1 where b1: "spend clock 1 b = Inr b1" using Cons.prems by auto
  consider "\<not> fires (lookup ts i) ?M"
    | "fires (lookup ts i) ?M" "length (uf_events st) \<ge> maximum"
    | "fires (lookup ts i) ?M" "length (uf_events st) < maximum" by linarith
  then show ?case
  proof cases
    case 1
    then have "event_pass clock ts maximum m history is st b1 = Inr (st', b')" using Cons.prems b1 by auto
    from Cons.IH [OF this Cons.prems(2,3)] Cons.prems(4) 1 show ?thesis by (simp add: explored_def)
  next
    case 2
    then have "st' = st\<lparr>uf_exhausted := False, uf_queue := []\<rparr>" using Cons.prems b1 by auto
    then show ?thesis using Cons.prems(2) by (simp add: sound_state_def waiting_def)
  next
    case 3
    then obtain st1 where st1: "add_event i (lookup ts i) m history st = Inr st1"
      "event_pass clock ts maximum m history is st1 b1 = Inr (st', b')"
      using Cons.prems b1 by auto
    note e = add_event_effect [OF st1(1)]
    have i: "i \<in> set (known_ids ts)" using Cons.prems(4) by simp
    have events: "pe_transformation ` set (uf_events st1) = insert i (pe_transformation ` set (uf_events st))"
      using arg_cong [OF e(2), of set] by simp
    have reach: "reachable ts M0 (after (lookup ts i) ?M)" using Cons.prems(3) i 3(1) [unfolded fires_may_occur] by (rule reachable.fire)
    have queue: "waiting st \<subseteq> waiting st1" "waiting st1 \<subseteq> insert (after (lookup ts i) ?M) (waiting st)"
      "set (dict_keys (uf_seen st1)) \<subseteq> set (dict_keys (uf_seen st)) \<union> waiting st1"
      using e(3,4) by (auto simp: waiting_def)
    have "sound_state ts M0 st1"
      unfolding sound_state_def e(3) events
    proof (intro conjI)
      show "\<forall>M \<in> insert (after (lookup ts i) ?M) (set (dict_keys (uf_seen st))). reachable ts M0 M"
        using reach Cons.prems(2) by (simp add: sound_state_def)
      show "waiting st1 \<subseteq> insert (after (lookup ts i) ?M) (set (dict_keys (uf_seen st)))"
        using queue(2) Cons.prems(2) unfolding sound_state_def by blast
      show "\<forall>j \<in> insert i (pe_transformation ` set (uf_events st)).
          j \<in> set (known_ids ts) \<and> (\<exists>M. reachable ts M0 M \<and> fires (lookup ts j) M)"
        using Cons.prems(2,3) i 3(1) unfolding sound_state_def by simp blast
    qed
    from Cons.IH [OF st1(2) this Cons.prems(3)] Cons.prems(4)
    have IH: "sound_state ts M0 st'" "uf_exhausted st' \<Longrightarrow> uf_exhausted st1 \<and> waiting st1 \<subseteq> waiting st' \<and>
       set (dict_keys (uf_seen st1)) \<subseteq> set (dict_keys (uf_seen st')) \<and>
       pe_transformation ` set (uf_events st1) \<subseteq> pe_transformation ` set (uf_events st') \<and>
       set (dict_keys (uf_seen st')) \<subseteq> set (dict_keys (uf_seen st1)) \<union> waiting st' \<and>
       (\<forall>i \<in> set is. explored ts st' ?M i)" by auto
    show ?thesis
    proof (intro conjI impI)
      assume x: "uf_exhausted st'"
      note IH2 = IH(2) [OF x]
      show "uf_exhausted st" using IH2 e(1) by simp
      show "waiting st \<subseteq> waiting st'" using IH2 queue(1) by blast
      show "set (dict_keys (uf_seen st)) \<subseteq> set (dict_keys (uf_seen st'))" using IH2 e(3) by blast
      have "insert i (pe_transformation ` set (uf_events st)) \<subseteq> pe_transformation ` set (uf_events st')"
        using IH2 unfolding events [symmetric] by (elim conjE)
      then have grown: "pe_transformation ` set (uf_events st) \<subseteq> pe_transformation ` set (uf_events st')"
        "i \<in> pe_transformation ` set (uf_events st')" by simp_all
      show "pe_transformation ` set (uf_events st) \<subseteq> pe_transformation ` set (uf_events st')" by (rule grown)
      show "set (dict_keys (uf_seen st')) \<subseteq> set (dict_keys (uf_seen st)) \<union> waiting st'" using IH2 queue(3) by blast
      have "after (lookup ts i) ?M \<in> set (dict_keys (uf_seen st'))" using IH2 e(3) by blast
      then have "explored ts st' ?M i" using grown(2) by (simp add: explored_def)
      then show "\<forall>j \<in> set (i # is). explored ts st' ?M j" using IH2 by simp
    qed (rule IH(1))
  qed
qed simp

lemma event_pass_exhausted:
  "event_pass clock ts maximum m history is st b = Inr (st', b') \<Longrightarrow> uf_exhausted st' \<Longrightarrow> uf_exhausted st"
  by (induction "is" arbitrary: st b) (fastforce dest: add_event_effect(1) split: if_splits)+

lemma unfold_loop_exhausted:
  "unfold_loop clock ts maximum st b = Inr (st', b') \<Longrightarrow> uf_exhausted st' \<Longrightarrow> uf_exhausted st"
proof (induction clock ts maximum st b rule: unfold_loop.induct)
  case (1 clock ts maximum st b)
  show ?case
  proof (cases "uf_queue st")
    case Nil
    then show ?thesis using 1(2,3) by (simp add: unfold_loop.simps)
  next
    case (Cons mh rest)
    obtain m history where mh: "mh = (m, history)" by (cases mh)
    obtain st1 b1 where pass: "event_pass clock ts maximum m history (known_ids ts) (st\<lparr>uf_queue := rest\<rparr>) b = Inr (st1, b1)"
      and loop: "unfold_loop clock ts maximum st1 b1 = Inr (st', b')"
      using 1(2) Cons mh by (subst (asm) unfold_loop.simps) auto
    from "1.IH" [OF Cons mh [symmetric] pass] loop 1(3) event_pass_exhausted [OF pass] show ?thesis by simp
  qed
qed

lemma unfold_loop_effect:
  assumes "unfold_loop clock ts maximum st b = Inr (st', b')" "sound_state ts M0 st"
    and "uf_exhausted st' \<Longrightarrow> M0 \<in> set (dict_keys (uf_seen st)) \<and>
      (\<forall>M \<in> set (dict_keys (uf_seen st)) - waiting st. \<forall>i \<in> set (known_ids ts). explored ts st M i)"
  shows "sound_state ts M0 st' \<and> (uf_exhausted st' \<longrightarrow> M0 \<in> set (dict_keys (uf_seen st')) \<and>
    (\<forall>M \<in> set (dict_keys (uf_seen st')). \<forall>i \<in> set (known_ids ts). explored ts st' M i))"
  using assms
proof (induction clock ts maximum st b rule: unfold_loop.induct)
  case (1 clock ts maximum st b)
  show ?case
  proof (cases "uf_queue st")
    case Nil
    then have "st' = st" using 1(2) by (simp add: unfold_loop.simps)
    then show ?thesis using 1(3,4) Nil by (auto simp: waiting_def)
  next
    case (Cons mh rest)
    obtain m history where mh: "mh = (m, history)" by (cases mh)
    let ?st = "st\<lparr>uf_queue := rest\<rparr>"
    let ?M = "set (dict_keys m)"
    obtain st1 b1 where pass: "event_pass clock ts maximum m history (known_ids ts) ?st b = Inr (st1, b1)"
      and loop: "unfold_loop clock ts maximum st1 b1 = Inr (st', b')"
      using 1(2) Cons mh by (subst (asm) unfold_loop.simps) auto
    have wait: "waiting st = insert ?M (waiting ?st)" using Cons mh by (simp add: waiting_def)
    have "sound_state ts M0 ?st" using 1(3) wait by (simp add: sound_state_def)
    moreover have "reachable ts M0 ?M" using 1(3) wait by (simp add: sound_state_def)
    ultimately have eff: "sound_state ts M0 st1" "uf_exhausted st1 \<Longrightarrow> waiting ?st \<subseteq> waiting st1 \<and>
       set (dict_keys (uf_seen st)) \<subseteq> set (dict_keys (uf_seen st1)) \<and>
       pe_transformation ` set (uf_events st) \<subseteq> pe_transformation ` set (uf_events st1) \<and>
       set (dict_keys (uf_seen st1)) \<subseteq> set (dict_keys (uf_seen st)) \<union> waiting st1 \<and>
       (\<forall>i \<in> set (known_ids ts). explored ts st1 ?M i)"
      using event_pass_effect [OF pass] by auto
    have "M0 \<in> set (dict_keys (uf_seen st1)) \<and>
        (\<forall>M \<in> set (dict_keys (uf_seen st1)) - waiting st1. \<forall>i \<in> set (known_ids ts). explored ts st1 M i)"
      if x: "uf_exhausted st'"
    proof -
      have e: "uf_exhausted st1" using unfold_loop_exhausted [OF loop x] .
      have before: "M0 \<in> set (dict_keys (uf_seen st))"
        "\<And>M i. M \<in> set (dict_keys (uf_seen st)) \<Longrightarrow> M \<notin> waiting st \<Longrightarrow> i \<in> set (known_ids ts) \<Longrightarrow> explored ts st M i"
        using 1(4) [OF x] by blast+
      have "explored ts st1 M i" if "M \<in> set (dict_keys (uf_seen st1))" "M \<notin> waiting st1" "i \<in> set (known_ids ts)" for M i
      proof (cases "M = ?M")
        case False
        then have "M \<in> set (dict_keys (uf_seen st))" "M \<notin> waiting st" using that(1,2) eff(2) [OF e] wait by blast+
        from before(2) [OF this that(3)] show ?thesis using eff(2) [OF e] unfolding explored_def by blast
      qed (use eff(2) [OF e] that(3) in blast)
      then show ?thesis using before(1) eff(2) [OF e] by blast
    qed
    from "1.IH" [OF Cons mh [symmetric] pass] loop eff(1) this show ?thesis by simp
  qed
qed

lemma add_initial_keys:
  "fold add_initial xs (conditions, m) = (conditions', m') \<Longrightarrow> set (dict_keys m') = set (dict_keys m) \<union> snd ` set xs"
  by (induction xs arbitrary: conditions m) (auto simp: add_initial_def Let_def)

text \<open>
  C7: an exhaustive prefix has events for exactly the transformations that can ever fire: those enabled in
  some marking reachable from the initial states.
\<close>

theorem occurrence_prefix_exact:
  assumes "bounded_occurrence_prefix clock initial ts maximum b = Inr (r, b')" "op_exhaustive r"
  shows "pe_transformation ` set (op_events r) =
    {i \<in> set (known_ids ts). \<exists>M. reachable ts (set initial) M \<and> may_occur (lookup ts i) M}"
proof -
  obtain conditions m where init: "fold add_initial (List.enumerate 0 (sorted_set initial)) ([], []) = (conditions, m)"
    by (cases "fold add_initial (List.enumerate 0 (sorted_set initial)) ([], [])")
  let ?st = "\<lparr>uf_conditions = conditions, uf_queue = [(m, {})], uf_seen = [(set (dict_keys m), 0)], uf_events = [],
              uf_cutoff = [], uf_exhausted = True\<rparr>"
  obtain st where loop: "unfold_loop clock ts maximum ?st b = Inr (st, b')" "uf_exhausted st"
    "map pe_transformation (op_events r) = map pe_transformation (uf_events st)"
    using assms init by (auto simp: bounded_occurrence_prefix_def Let_def comp_def split: if_splits)
  have m: "set (dict_keys m) = set initial"
    using add_initial_keys [OF init] by (simp add: dict_keys_def flip: set_map)
  then have keys: "set (dict_keys (uf_seen ?st)) = {set initial}" "waiting ?st = {set initial}"
    by (simp_all add: dict_keys_def waiting_def)
  have "sound_state ts (set initial) ?st"
    using keys by (simp add: sound_state_def reachable.start)
  from unfold_loop_effect [OF loop(1) this] keys loop(2)
  have sound: "sound_state ts (set initial) st"
    and seen: "set initial \<in> set (dict_keys (uf_seen st))"
      "\<And>M i. M \<in> set (dict_keys (uf_seen st)) \<Longrightarrow> i \<in> set (known_ids ts) \<Longrightarrow> explored ts st M i"
    by auto
  have "M \<in> set (dict_keys (uf_seen st))" if "reachable ts (set initial) M" for M
    using that by induction (use seen in \<open>auto simp: explored_def fires_may_occur\<close>)
  then have "i \<in> pe_transformation ` set (uf_events st)"
    if "i \<in> set (known_ids ts)" "reachable ts (set initial) M" "may_occur (lookup ts i) M" for i M
    using seen(2) that unfolding explored_def fires_may_occur by blast
  then have sub: "{i \<in> set (known_ids ts). \<exists>M. reachable ts (set initial) M \<and> may_occur (lookup ts i) M} \<subseteq>
      pe_transformation ` set (uf_events st)" by blast
  have events: "pe_transformation ` set (op_events r) = pe_transformation ` set (uf_events st)"
    using arg_cong [OF loop(3), of set] by simp
  show ?thesis
    unfolding events using sub
  proof (rule equalityI [rotated], intro subsetI)
    fix i assume "i \<in> pe_transformation ` set (uf_events st)"
    then show "i \<in> {i \<in> set (known_ids ts). \<exists>M. reachable ts (set initial) M \<and> may_occur (lookup ts i) M}"
      using sound by (auto simp: sound_state_def fires_may_occur)
  qed
qed

definition demo_net :: transformations where
  "demo_net = map (\<lambda>(i, inputs, outputs, clauses). (i, \<lparr>tr_id = i, tr_inputs = inputs, tr_outputs = outputs,
       catalyst_clauses = clauses, inhibitors = [], uncatalyzed = False, required_evidence = [], required_authority = []\<rparr>))
     [(''t1'', [(''a'', 1)], [(''b'', 1)], []), (''t2'', [(''b'', 1)], [(''c'', 1)], []),
      (''t3'', [(''c'', 1)], [(''d'', 1)], [[''x'']])]"

theorem occurrence_prefix_exact_witness:
  "\<exists>r b'. bounded_occurrence_prefix (\<lambda>_. 0) [''a''] demo_net 4096 (new_budget (\<lambda>_. 0) 100 60) = Inr (r, b') \<and>
    op_exhaustive r \<and> {i \<in> set (known_ids demo_net). \<exists>M. reachable demo_net {''a''} M \<and> may_occur (lookup demo_net i) M} = {''t1'', ''t2''}"
proof -
  have "map_sum id (\<lambda>(r, b). (op_exhaustive r, map pe_transformation (op_events r)))
      (bounded_occurrence_prefix (\<lambda>_. 0) [''a''] demo_net 4096 (new_budget (\<lambda>_. 0) 100 60)) = Inr (True, [''t1'', ''t2''])"
    by code_simp
  then obtain r b' where r: "bounded_occurrence_prefix (\<lambda>_. 0) [''a''] demo_net 4096 (new_budget (\<lambda>_. 0) 100 60) = Inr (r, b')"
    "op_exhaustive r" "map pe_transformation (op_events r) = [''t1'', ''t2'']"
    by (cases "bounded_occurrence_prefix (\<lambda>_. 0) [''a''] demo_net 4096 (new_budget (\<lambda>_. 0) 100 60)") auto
  have "pe_transformation ` set (op_events r) = {''t1'', ''t2''}"
    using arg_cong [OF r(3), of set] by simp
  with occurrence_prefix_exact [OF r(1,2)] r(1,2) show ?thesis by auto
qed

end
