(* ===== verification/Canonical.thy ===== *)
theory Canonical
  imports Prelude
begin

text \<open>
  Canonical JSON: the strict, float-free RFC 8785 profile of \<open>canonical.py\<close>
  (\<open>_v3_value\<close>, \<open>canonical_v3_bytes\<close>) and the bounded reader checks of \<open>v6/canonical.py\<close>
  (\<open>_scan_nesting\<close>, \<open>_unique_object\<close>, \<open>_validate_tree\<close>). A Python \<open>str\<close> is its list of code points,
  \<open>bytes\<close> a list of numbers below 256. SHA-256 is a parameter \<open>sha\<close> wherever a digest is taken.
\<close>

type_synonym pystr = "nat list" \<comment> \<open>code points\<close>
type_synonym bytes = "nat list"

datatype json =
  JNull | JBool bool | JInt int | JFloat | JStr pystr | JArr "json list"
| JObj "(pystr \<times> json) list"

datatype json_error = JsonValueError string | InputLimit string | DuplicateKey pystr | UnicodeError

definition text_of :: "string \<Rightarrow> pystr" where
  "text_of s = map of_char s"

section \<open>The canonical profile\<close>

definition max_safe_integer :: int where
  "max_safe_integer = 9007199254740991"

fun v3_value :: "json \<Rightarrow> json_error + json" where
  "v3_value JFloat = Inl (JsonValueError ''v0.3 canonical JSON forbids floating-point values'')"
| "v3_value (JInt i) =
     require (\<bar>i\<bar> \<le> max_safe_integer)
       (JsonValueError ''v0.3 canonical JSON integer exceeds the I-JSON exact range'') (Inr (JInt i))"
| "v3_value (JArr xs) = res_bind (map_res v3_value xs) (\<lambda>ys. Inr (JArr ys))"
| "v3_value (JObj kvs) =
     res_bind (map_res (\<lambda>(k, v). res_bind (v3_value v) (\<lambda>w. Inr (k, w))) kvs) (\<lambda>ys. Inr (JObj ys))"
| "v3_value j = Inr j"

text \<open>\<open>json.dumps(item, ensure_ascii=False)\<close> of a string.\<close>

definition hex_digit :: "nat \<Rightarrow> nat" where
  "hex_digit n = (if n < 10 then 48 + n else 87 + n)"

definition escape_char :: "nat \<Rightarrow> pystr" where
  "escape_char c =
     (if c = 34 then [92, 34] else if c = 92 then [92, 92]
      else if c = 8 then [92, 98] else if c = 12 then [92, 102]
      else if c = 10 then [92, 110] else if c = 13 then [92, 114] else if c = 9 then [92, 116]
      else if c < 32 then [92, 117, 48, 48, hex_digit (c div 16), hex_digit (c mod 16)]
      else [c])"

definition encode_str :: "pystr \<Rightarrow> pystr" where
  "encode_str s = [34] @ concat (map escape_char s) @ [34]"

definition encode_int :: "int \<Rightarrow> pystr" where
  "encode_int i = (if i < 0 then [45] else []) @ text_of (show_nat (nat \<bar>i\<bar>))"

definition utf16_unit :: "nat \<Rightarrow> bytes" where
  "utf16_unit c =
     (if c < 65536 then [c div 256, c mod 256]
      else let v = c - 65536; hi = 55296 + v div 1024; lo = 56320 + v mod 1024
           in [hi div 256, hi mod 256, lo div 256, lo mod 256])"

definition utf16_be :: "pystr \<Rightarrow> bytes" where
  "utf16_be s = concat (map utf16_unit s)"

fun join_comma :: "pystr list \<Rightarrow> pystr" where
  "join_comma [] = []"
| "join_comma [x] = x"
| "join_comma (x # xs) = x @ [44] @ join_comma xs"

fun encode :: "json \<Rightarrow> pystr" where
  "encode JNull = text_of ''null''"
| "encode (JBool b) = text_of (if b then ''true'' else ''false'')"
| "encode (JInt i) = encode_int i"
| "encode (JStr s) = encode_str s"
| "encode (JArr xs) = [91] @ join_comma (map encode xs) @ [93]"
| "encode (JObj kvs) =
     [123] @ join_comma (map snd (sort_key (\<lambda>p. utf16_be (fst p))
               (map (\<lambda>(k, v). (k, encode_str k @ [58] @ encode v)) kvs))) @ [125]"
| "encode JFloat = []"

definition utf8_char :: "nat \<Rightarrow> json_error + bytes" where
  "utf8_char c =
     (if c < 128 then Inr [c]
      else if c < 2048 then Inr [192 + c div 64, 128 + c mod 64]
      else if 55296 \<le> c \<and> c \<le> 57343 then Inl UnicodeError
      else if c < 65536 then Inr [224 + c div 4096, 128 + c div 64 mod 64, 128 + c mod 64]
      else Inr [240 + c div 262144, 128 + c div 4096 mod 64, 128 + c div 64 mod 64, 128 + c mod 64])"

definition utf8 :: "pystr \<Rightarrow> json_error + bytes" where
  "utf8 s = res_bind (map_res utf8_char s) (\<lambda>bs. Inr (concat bs))"

definition canonical_bytes :: "json \<Rightarrow> json_error + bytes" where
  "canonical_bytes v = res_bind (v3_value v) (\<lambda>checked. utf8 (encode checked))"

section \<open>The bounded reader\<close>

definition MAX_DEPTH :: nat where "MAX_DEPTH = 64"
definition MAX_OBJECT_MEMBERS :: nat where "MAX_OBJECT_MEMBERS = 10000"
definition MAX_ARRAY_ITEMS :: nat where "MAX_ARRAY_ITEMS = 100000"
definition MAX_JSON_BYTES :: nat where "MAX_JSON_BYTES = 16 * 1024 * 1024"

text \<open>The loop of \<open>_scan_nesting\<close>: depth, inside a string, after a backslash.\<close>

fun scan_loop :: "nat \<Rightarrow> bytes \<Rightarrow> int \<Rightarrow> bool \<Rightarrow> bool \<Rightarrow> json_error + unit" where
  "scan_loop m [] depth in_string escaped =
     require (\<not> (in_string \<or> depth \<noteq> 0)) (JsonValueError ''malformed_json_structure'') (Inr ())"
| "scan_loop m (b # bs) depth in_string escaped =
     (if in_string then
        (if escaped then scan_loop m bs depth True False
         else if b = 92 then scan_loop m bs depth True True
         else if b = 34 then scan_loop m bs depth False False
         else scan_loop m bs depth True False)
      else if b = 34 then scan_loop m bs depth True escaped
      else if b = 91 \<or> b = 123 then
        require (\<not> (depth + 1 > int m)) (InputLimit ''json_nesting_too_deep'')
          (scan_loop m bs (depth + 1) False escaped)
      else if b = 93 \<or> b = 125 then
        require (\<not> (depth - 1 < 0)) (JsonValueError ''malformed_json_structure'')
          (scan_loop m bs (depth - 1) False escaped)
      else scan_loop m bs depth False escaped)"

definition scan_nesting :: "bytes \<Rightarrow> nat \<Rightarrow> json_error + unit" where
  "scan_nesting data m = scan_loop m data 0 False False"

fun unique_loop :: "(pystr \<times> json) list \<Rightarrow> (pystr \<times> json) list \<Rightarrow> json_error + (pystr \<times> json) list" where
  "unique_loop [] acc = Inr acc"
| "unique_loop ((k, v) # ps) acc =
     require (k \<notin> set (dict_keys acc)) (DuplicateKey k) (unique_loop ps (dict_set acc k v))"

definition unique_object :: "(pystr \<times> json) list \<Rightarrow> json_error + (pystr \<times> json) list" where
  "unique_object pairs =
     require (length pairs \<le> MAX_OBJECT_MEMBERS) (InputLimit ''json_object_member_limit'')
       (unique_loop pairs [])"

fun all_res :: "('a \<Rightarrow> 'e + unit) \<Rightarrow> 'a list \<Rightarrow> 'e + unit" where
  "all_res f [] = Inr ()"
| "all_res f (x # xs) = res_bind (f x) (\<lambda>_. all_res f xs)"

lemma all_res_cong [fundef_cong]:
  "xs = ys \<Longrightarrow> (\<And>x. x \<in> set ys \<Longrightarrow> f x = g x) \<Longrightarrow> all_res f xs = all_res g ys"
  by (induction ys arbitrary: xs) (auto simp: res_bind_def split: sum.splits)

lemma all_res_Inr [simp]: "all_res f xs = Inr () \<longleftrightarrow> (\<forall>x \<in> set xs. f x = Inr ())"
  by (induction xs) auto

fun validate_tree :: "json \<Rightarrow> nat \<Rightarrow> json_error + unit" where
  "validate_tree v d =
     require (d \<le> MAX_DEPTH) (InputLimit ''json_nesting_too_deep'')
     (case v of
        JFloat \<Rightarrow> Inl (JsonValueError ''floating_point_values_are_forbidden'')
      | JInt i \<Rightarrow> require (\<bar>i\<bar> \<le> max_safe_integer)
                    (InputLimit ''json_integer_outside_i_json_range'') (Inr ())
      | JArr xs \<Rightarrow> require (length xs \<le> MAX_ARRAY_ITEMS) (InputLimit ''json_array_item_limit'')
                    (all_res (\<lambda>x. validate_tree x (Suc d)) xs)
      | JObj kvs \<Rightarrow> require (length kvs \<le> MAX_OBJECT_MEMBERS) (InputLimit ''json_object_member_limit'')
                    (all_res (\<lambda>kv. validate_tree (snd kv) (Suc d)) kvs)
      | _ \<Rightarrow> Inr ())"

declare validate_tree.simps [simp del]

end
