(* ===== verification/Canonical_Injective.thy ===== *)
theory Canonical_Injective
  imports Canonical
begin

text \<open>
  The canonical encoding determines the document. \<open>canonical_form\<close> orders object members as
  RFC 8785 does; two values with the same canonical bytes have the same canonical form. The
  interface between the encoder and the lists it joins is the locale \<open>prefix_code\<close>: encodings that
  can be read off the front of a text.
\<close>

section \<open>Prefix codes\<close>

definition delimited :: "pystr \<Rightarrow> bool" where
  "delimited r \<longleftrightarrow> (case r of [] \<Rightarrow> True | c # _ \<Rightarrow> c \<in> {44, 93, 125})"

lemma delimited_simps [simp]:
  "delimited []" "delimited (c # r) \<longleftrightarrow> c = 44 \<or> c = 93 \<or> c = 125"
  by (auto simp: delimited_def)

locale prefix_code =
  fixes enc :: "'a \<Rightarrow> pystr" and form :: "'a \<Rightarrow> 'b" and dom :: "'a \<Rightarrow> bool"
  assumes unique: "dom x \<Longrightarrow> dom y \<Longrightarrow> delimited r \<Longrightarrow> delimited s \<Longrightarrow> enc x @ r = enc y @ s \<Longrightarrow>
      form x = form y \<and> r = s"
    and start: "dom x \<Longrightarrow> enc x \<noteq> [] \<and> \<not> delimited (enc x)"
begin

lemma enc_inj: "dom x \<Longrightarrow> dom y \<Longrightarrow> enc x = enc y \<Longrightarrow> form x = form y"
  using unique [of x y "[]" "[]"] by simp

lemma start_not: "dom x \<Longrightarrow> c \<in> {44, 93, 125} \<Longrightarrow> enc x @ r \<noteq> c # s"
  using start [of x] by (cases "enc x") auto

lemma join_not: "dom x \<Longrightarrow> c \<in> {44, 93, 125} \<Longrightarrow> join_comma (map enc (x # xs)) @ r \<noteq> c # s"
  using start_not [of x c] by (cases xs) auto

lemma join_unique:
  assumes "\<forall>x \<in> set xs. dom x" and "\<forall>y \<in> set ys. dom y" and "t = 93 \<or> t = 125"
    and "join_comma (map enc xs) @ t # r = join_comma (map enc ys) @ t # s"
  shows "map form xs = map form ys \<and> r = s"
  using assms(1,2,4)
proof (induction xs arbitrary: ys)
  case Nil
  have "ys = []"
  proof (cases ys)
    case (Cons y ys')
    then have "join_comma (map enc (y # ys')) @ t # s \<noteq> t # r"
      using Nil.prems(2) assms(3) by (intro join_not) auto
    with Nil.prems(3) Cons show ?thesis by simp
  qed
  with Nil.prems(3) show ?case by simp
next
  case (Cons x xs)
  obtain y ys' where ys: "ys = y # ys'"
    using Cons.prems assms(3) join_not [of x t xs "t # r" s] by (cases ys) auto
  have d: "dom x" "dom y" using Cons.prems(1,2) ys by auto
  show ?case
  proof (cases "xs = [] \<or> ys' = []")
    case True
    then have e: "enc x @ (if xs = [] then t # r else 44 # join_comma (map enc xs) @ t # r) =
        enc y @ (if ys' = [] then t # s else 44 # join_comma (map enc ys') @ t # s)"
      using Cons.prems(3) ys by (cases xs; cases ys') auto
    have "delimited (if xs = [] then t # r else 44 # join_comma (map enc xs) @ t # r)"
      "delimited (if ys' = [] then t # s else 44 # join_comma (map enc ys') @ t # s)"
      using assms(3) by auto
    then show ?thesis using unique [OF d _ _ e] True assms(3) ys by (auto split: if_splits)
  next
    case False
    then have e: "enc x @ 44 # join_comma (map enc xs) @ t # r = enc y @ 44 # join_comma (map enc ys') @ t # s"
      using Cons.prems(3) ys by (cases xs; cases ys') auto
    then have "form x = form y" "join_comma (map enc xs) @ t # r = join_comma (map enc ys') @ t # s"
      using unique [OF d _ _ e] by auto
    then show ?thesis using Cons.IH [of ys'] Cons.prems(1,2) ys by auto
  qed
qed

end

section \<open>Strings and integers\<close>

lemma hex_digit_inj: "a < 16 \<Longrightarrow> b < 16 \<Longrightarrow> hex_digit a = hex_digit b \<Longrightarrow> a = b"
  by (auto simp: hex_digit_def split: if_splits)

lemma escape_control:
  "c < 32 \<Longrightarrow> c \<notin> {8, 9, 10, 12, 13} \<Longrightarrow>
   escape_char c = [92, 117, 48, 48, hex_digit (c div 16), hex_digit (c mod 16)]"
  by (simp add: escape_char_def)

definition short_decode :: "nat \<Rightarrow> nat" where
  "short_decode d = (if d = 98 then 8 else if d = 102 then 12 else if d = 110 then 10
     else if d = 114 then 13 else if d = 116 then 9 else d)"

lemma escape_short:
  assumes "c \<in> {8, 9, 10, 12, 13, 34, 92}"
  shows "\<exists>d. escape_char c = [92, d] \<and> d \<noteq> 117 \<and> short_decode d = c"
  using assms by (elim insertE) (simp_all add: escape_char_def short_decode_def)

lemma escape_plain: "32 \<le> c \<Longrightarrow> c \<noteq> 34 \<Longrightarrow> c \<noteq> 92 \<Longrightarrow> escape_char c = [c]"
  by (simp add: escape_char_def)

lemma escape_cases:
  fixes c :: nat
  obtains (control) "c < 32" "c \<notin> {8, 9, 10, 12, 13}" | (short) "c \<in> {8, 9, 10, 12, 13, 34, 92}"
  | (plain) "32 \<le> c" "c \<noteq> 34" "c \<noteq> 92"
proof -
  consider "c \<in> {8, 9, 10, 12, 13, 34, 92}" | "c < 32" "c \<notin> {8, 9, 10, 12, 13, 34, 92}"
    | "32 \<le> c" "c \<notin> {8, 9, 10, 12, 13, 34, 92}"
    by (meson leI)
  then show thesis
  proof cases
    case 1
    then show thesis by (rule short)
  next
    case 2
    have "c \<notin> {8, 9, 10, 12, 13}" using 2(2) by blast
    with 2(1) show thesis by (rule control)
  next
    case 3
    have "c \<noteq> 34" using 3(2) by (meson insertCI)
    moreover have "c \<noteq> 92" using 3(2) by (meson insertCI)
    ultimately show thesis by (intro plain 3(1))
  qed
qed

lemma escape_prefix:
  assumes "escape_char c @ x = escape_char d @ y"
  shows "c = d \<and> x = y"
proof (cases c rule: escape_cases)
  case control
  then show ?thesis
  proof (cases d rule: escape_cases)
    case d: control
    have h: "hex_digit (c div 16) = hex_digit (d div 16)" "hex_digit (c mod 16) = hex_digit (d mod 16)"
      "x = y" using assms control d by (simp_all add: escape_control)
    have "c div 16 < 16" "d div 16 < 16" using control(1) d(1) by (simp_all only: less_mult_imp_div_less)
    then have "c div 16 = d div 16" using h(1) hex_digit_inj by blast
    moreover have "c mod 16 = d mod 16" using h(2) hex_digit_inj [of "c mod 16" "d mod 16"] by simp
    ultimately show ?thesis using h(3) by (metis div_mult_mod_eq)
  next
    case short
    then obtain v where "escape_char d = [92, v]" "v \<noteq> 117" using escape_short by blast
    then show ?thesis using assms control by (simp add: escape_control)
  next
    case plain
    then show ?thesis using assms control by (simp add: escape_control escape_plain)
  qed
next
  case short
  obtain u where u: "escape_char c = [92, u]" "u \<noteq> 117" "short_decode u = c"
    using escape_short [OF short] by blast
  show ?thesis
  proof (cases d rule: escape_cases)
    case d: control
    then show ?thesis using u assms by (simp add: escape_control)
  next
    case d: short
    obtain v where "escape_char d = [92, v]" "short_decode v = d" using escape_short [OF d] by blast
    then show ?thesis using u assms by auto
  next
    case d: plain
    then show ?thesis using u assms by (simp add: escape_plain)
  qed
next
  case plain
  show ?thesis
  proof (cases d rule: escape_cases)
    case d: short
    obtain v where "escape_char d = [92, v]" using escape_short [OF d] by blast
    then show ?thesis using plain assms by (simp add: escape_plain)
  qed (use plain assms in \<open>simp_all add: escape_control escape_plain\<close>)
qed

lemma escape_start: "escape_char c @ x \<noteq> 34 # y"
proof (cases c rule: escape_cases)
  case short
  then obtain d where "escape_char c = [92, d]" using escape_short by blast
  then show ?thesis by simp
qed (simp_all add: escape_control escape_plain)

lemma escape_body_unique:
  "concat (map escape_char s) @ 34 # x = concat (map escape_char t) @ 34 # y \<Longrightarrow> s = t \<and> x = y"
proof (induction s arbitrary: t)
  case Nil
  show ?case
  proof (cases t)
    case (Cons d t')
    then have "escape_char d @ (concat (map escape_char t') @ 34 # y) = 34 # x" using Nil by simp
    then show ?thesis using escape_start by blast
  qed (use Nil in simp)
next
  case (Cons c s)
  have e: "escape_char c @ (concat (map escape_char s) @ 34 # x) = concat (map escape_char t) @ 34 # y"
    using Cons.prems by simp
  show ?case
  proof (cases t)
    case Nil
    then show ?thesis using e escape_start by simp
  next
    case t: (Cons d t')
    then have "c = d \<and> concat (map escape_char s) @ 34 # x = concat (map escape_char t') @ 34 # y"
      using e by (intro escape_prefix) simp
    then show ?thesis using Cons.IH t by blast
  qed
qed

lemma encode_str_unique: "encode_str s @ x = encode_str t @ y \<Longrightarrow> s = t \<and> x = y"
  using escape_body_unique [of s x t y] by (simp add: encode_str_def)

definition digits_value :: "pystr \<Rightarrow> nat" where
  "digits_value ds = foldl (\<lambda>n d. 10 * n + (d - 48)) 0 ds"

lemma of_char_digit: "k < 10 \<Longrightarrow> of_char (char_of (48 + k) :: char) = (48 + k :: nat)"
  by (simp add: of_char_of)

lemma digits_value_show: "digits_value (text_of (show_nat n)) = n"
proof (induction n rule: show_nat.induct)
  case (1 n)
  show ?case
  proof (cases "n < 10")
    case True
    then show ?thesis by (simp add: show_nat.simps [of n] text_of_def digits_value_def of_char_digit)
  next
    case False
    have "digits_value (text_of (show_nat n)) = 10 * (n div 10) + n mod 10"
      using 1 False
      by (simp add: show_nat.simps [of n] text_of_def digits_value_def of_char_digit)
    then show ?thesis by simp
  qed
qed

lemma show_nat_chars: "c \<in> set (text_of (show_nat n)) \<Longrightarrow> 48 \<le> c \<and> c \<le> 57"
  using show_nat_digits by (auto simp: text_of_def)

lemma show_nat_nonempty [simp]: "show_nat n \<noteq> []"
  by (simp add: show_nat.simps)

lemma digits_unique:
  assumes "text_of (show_nat m) @ r = text_of (show_nat n) @ s" "delimited r" "delimited s"
  shows "m = n \<and> r = s"
proof -
  have split: "takeWhile (\<lambda>c. 48 \<le> c \<and> c \<le> 57) (text_of (show_nat k) @ u) = text_of (show_nat k)"
    if "delimited u" for k u
    using that show_nat_chars by (subst takeWhile_append2) (auto simp: delimited_def split: list.splits)
  have "text_of (show_nat m) = text_of (show_nat n)"
    using split [OF assms(2), of m] split [OF assms(3), of n] assms(1) by metis
  then show ?thesis using digits_value_show assms(1) by (metis same_append_eq)
qed

lemma encode_int_unique:
  assumes "encode_int i @ r = encode_int j @ s" "delimited r" "delimited s"
  shows "i = j \<and> r = s"
proof -
  have h: "\<exists>d ds. text_of (show_nat n) = d # ds \<and> d \<noteq> 45" for n
    using show_nat_chars [of 45 n] show_nat_nonempty [of n]
    by (cases "text_of (show_nat n)") (auto simp: text_of_def)
  have sign: "i < 0 \<longleftrightarrow> j < 0"
    using assms(1) h [of "nat \<bar>i\<bar>"] h [of "nat \<bar>j\<bar>"] by (auto simp: encode_int_def split: if_splits)
  then have "text_of (show_nat (nat \<bar>i\<bar>)) @ r = text_of (show_nat (nat \<bar>j\<bar>)) @ s"
    using assms(1) by (auto simp: encode_int_def split: if_splits)
  then have "nat \<bar>i\<bar> = nat \<bar>j\<bar> \<and> r = s" using digits_unique assms(2,3) by blast
  then show ?thesis using sign by auto
qed

section \<open>The form of a document\<close>

text \<open>What RFC 8785 keeps of a value: the members of every object in the order of their UTF-16 names.\<close>

fun canonical_form :: "json \<Rightarrow> json" where
  "canonical_form (JArr xs) = JArr (map canonical_form xs)"
| "canonical_form (JObj kvs) =
     JObj (sort_key (\<lambda>p. utf16_be (fst p)) (map (\<lambda>(k, v). (k, canonical_form v)) kvs))"
| "canonical_form j = j"

fun no_float :: "json \<Rightarrow> bool" where
  "no_float JFloat = False"
| "no_float (JArr xs) = (\<forall>x \<in> set xs. no_float x)"
| "no_float (JObj kvs) = (\<forall>p \<in> set kvs. no_float (snd p))"
| "no_float j = True"

lemma insort_key_map:
  assumes "\<And>x. g (f x) = h x"
  shows "insort_key g (f x) (map f xs) = map f (insort_key h x xs)"
  by (induction xs) (simp_all add: assms)

lemma sort_key_map:
  assumes "\<And>x. g (f x) = h x"
  shows "sort_key g (map f xs) = map f (sort_key h xs)"
  by (induction xs) (simp_all add: insort_key_map [where g = g and f = f and h = h, OF assms] sort_key_def)

abbreviation by_name :: "(pystr \<times> json) list \<Rightarrow> (pystr \<times> json) list" where
  "by_name kvs \<equiv> sort_key (\<lambda>p. utf16_be (fst p)) kvs"

definition encode_member :: "pystr \<times> json \<Rightarrow> pystr" where
  "encode_member p = encode_str (fst p) @ [58] @ encode (snd p)"

definition form_member :: "pystr \<times> json \<Rightarrow> pystr \<times> json" where
  "form_member p = (fst p, canonical_form (snd p))"

lemma encode_object:
  "encode (JObj kvs) = 123 # join_comma (map encode_member (by_name kvs)) @ [125]"
proof -
  have "sort_key (\<lambda>p. utf16_be (fst p)) (map (\<lambda>(k, v). (k, encode_str k @ [58] @ encode v)) kvs) =
      map (\<lambda>(k, v). (k, encode_str k @ [58] @ encode v)) (by_name kvs)"
    by (rule sort_key_map) auto
  then show ?thesis by (simp add: encode_member_def [abs_def] case_prod_beta comp_def)
qed

lemma form_object: "canonical_form (JObj kvs) = JObj (map form_member (by_name kvs))"
proof -
  have "by_name (map (\<lambda>(k, v). (k, canonical_form v)) kvs) = map (\<lambda>(k, v). (k, canonical_form v)) (by_name kvs)"
    by (rule sort_key_map) auto
  then show ?thesis by (simp add: form_member_def [abs_def] case_prod_beta)
qed

lemma encode_start:
  assumes "no_float v"
  shows "\<exists>c cs. encode v = c # cs \<and>
    (case v of JNull \<Rightarrow> c = 110 | JBool b \<Rightarrow> c = (if b then 116 else 102) | JInt _ \<Rightarrow> c = 45 \<or> 48 \<le> c \<and> c \<le> 57
     | JFloat \<Rightarrow> False | JStr _ \<Rightarrow> c = 34 | JArr _ \<Rightarrow> c = 91 | JObj _ \<Rightarrow> c = 123)"
proof (cases v)
  case (JInt i)
  obtain d ds where d: "text_of (show_nat (nat \<bar>i\<bar>)) = d # ds"
    using show_nat_nonempty by (cases "text_of (show_nat (nat \<bar>i\<bar>))") (auto simp: text_of_def)
  then have "48 \<le> d \<and> d \<le> 57" using show_nat_chars [of d "nat \<bar>i\<bar>"] by simp
  then show ?thesis using d JInt by (simp add: encode_int_def)
qed (use assms in \<open>simp_all add: text_of_def encode_str_def encode_object del: encode.simps(6)\<close>)

lemma size_item: "x \<in> set xs \<Longrightarrow> size x < size (JArr xs)"
  by (induction xs) auto

lemma size_member: "p \<in> set kvs \<Longrightarrow> size (snd p) < size (JObj kvs)"
  by (induction kvs) (auto simp: less_Suc_eq_le)

interpretation str_code: prefix_code encode_str "\<lambda>s. s" "\<lambda>_. True"
proof
  show "encode_str s \<noteq> [] \<and> \<not> delimited (encode_str s)" for s
    by (simp add: encode_str_def)
qed (use encode_str_unique in blast)

interpretation int_code: prefix_code encode_int "\<lambda>i. i" "\<lambda>_. True"
proof unfold_locales
  show "encode_int i \<noteq> [] \<and> \<not> delimited (encode_int i)" for i
    using encode_start [of "JInt i"] by auto
qed (use encode_int_unique in auto)

lemma member_prefix_code:
  assumes "prefix_code encode canonical_form P"
  shows "prefix_code encode_member form_member (\<lambda>p. P (snd p))"
proof
  fix p q r s
  assume h: "P (snd p)" "P (snd q)" "delimited r" "delimited s" "encode_member p @ r = encode_member q @ s"
  then have "encode_str (fst p) @ (58 # encode (snd p) @ r) = encode_str (fst q) @ (58 # encode (snd q) @ s)"
    by (simp add: encode_member_def)
  from encode_str_unique [OF this] have "fst p = fst q" "encode (snd p) @ r = encode (snd q) @ s" by auto
  with prefix_code.unique [OF assms h(1-4)] show "form_member p = form_member q \<and> r = s"
    by (simp add: form_member_def)
qed (simp add: encode_member_def encode_str_def)

lemma encode_prefix_code: "prefix_code encode canonical_form (\<lambda>v. no_float v \<and> size v < n)"
proof (induction n)
  case 0
  show ?case by unfold_locales auto
next
  case (Suc n)
  note code = Suc.IH
  note members = member_prefix_code [OF code]
  show ?case
  proof
    fix x y r s
    assume x: "no_float x \<and> size x < Suc n" and y: "no_float y \<and> size y < Suc n"
      and rs: "delimited r" "delimited s" and e: "encode x @ r = encode y @ s"
    obtain c cs d ds where c: "encode x = c # cs" "encode y = d # ds" and kind:
      "case x of JNull \<Rightarrow> c = 110 | JBool b \<Rightarrow> c = (if b then 116 else 102) | JInt _ \<Rightarrow> c = 45 \<or> 48 \<le> c \<and> c \<le> 57
       | JFloat \<Rightarrow> False | JStr _ \<Rightarrow> c = 34 | JArr _ \<Rightarrow> c = 91 | JObj _ \<Rightarrow> c = 123"
      "case y of JNull \<Rightarrow> d = 110 | JBool b \<Rightarrow> d = (if b then 116 else 102) | JInt _ \<Rightarrow> d = 45 \<or> 48 \<le> d \<and> d \<le> 57
       | JFloat \<Rightarrow> False | JStr _ \<Rightarrow> d = 34 | JArr _ \<Rightarrow> d = 91 | JObj _ \<Rightarrow> d = 123"
      using encode_start [of x] encode_start [of y] x y by blast
    have cd: "c = d" using e c by simp
    show "canonical_form x = canonical_form y \<and> r = s"
    proof (cases x)
      case JNull
      then have "y = JNull" using kind cd by (cases y) (auto split: if_splits)
      then show ?thesis using JNull e by simp
    next
      case (JBool b)
      then have "y = JBool b" using kind cd by (cases y) (auto split: if_splits)
      then show ?thesis using JBool e by simp
    next
      case (JInt i)
      then obtain j where "y = JInt j" using kind cd by (cases y) (auto split: if_splits)
      then show ?thesis using JInt e encode_int_unique [of i r j s] rs by simp
    next
      case JFloat
      then show ?thesis using x by simp
    next
      case (JStr t)
      then obtain u where "y = JStr u" using kind cd by (cases y) (auto split: if_splits)
      then show ?thesis using JStr e encode_str_unique [of t r u s] by simp
    next
      case (JArr xs)
      then obtain ys where ys: "y = JArr ys" using kind cd by (cases y) (auto split: if_splits)
      have "map canonical_form xs = map canonical_form ys \<and> r = s"
      proof (rule prefix_code.join_unique [OF code, where t = 93])
        show "\<forall>v \<in> set xs. no_float v \<and> size v < n" using x JArr size_item [of _ xs] by fastforce
        show "\<forall>v \<in> set ys. no_float v \<and> size v < n" using y ys size_item [of _ ys] by fastforce
        show "join_comma (map encode xs) @ 93 # r = join_comma (map encode ys) @ 93 # s"
          using e JArr ys by simp
      qed simp
      then show ?thesis using JArr ys by simp
    next
      case (JObj ps)
      then obtain qs where qs: "y = JObj qs" using kind cd by (cases y) (auto split: if_splits)
      have below: "size (JObj kvs) < Suc n \<Longrightarrow> p \<in> set kvs \<Longrightarrow> size (snd p) < n" for p kvs
        using size_member [of p kvs] by linarith
      have "map form_member (by_name ps) = map form_member (by_name qs) \<and> r = s"
      proof (rule prefix_code.join_unique [OF members, where t = 125])
        show "\<forall>p \<in> set (by_name ps). no_float (snd p) \<and> size (snd p) < n"
          using x JObj below [of ps] by auto
        show "\<forall>p \<in> set (by_name qs). no_float (snd p) \<and> size (snd p) < n"
          using y qs below [of qs] by auto
        show "join_comma (map encode_member (by_name ps)) @ 125 # r = join_comma (map encode_member (by_name qs)) @ 125 # s"
          using e JObj qs by (simp add: encode_object del: encode.simps)
      qed simp
      then show ?thesis using JObj qs by (simp add: form_object del: canonical_form.simps)
    qed
  next
    fix v
    assume "no_float v \<and> size v < Suc n"
    then show "encode v \<noteq> [] \<and> \<not> delimited (encode v)"
      using encode_start [of v] by (cases v) (auto simp del: encode.simps split: if_splits)
  qed
qed

interpretation json_code: prefix_code encode canonical_form no_float
proof
  fix x y r s
  assume "no_float x" "no_float y" "delimited r" "delimited s" "encode x @ r = encode y @ s"
  then show "canonical_form x = canonical_form y \<and> r = s"
    using prefix_code.unique [OF encode_prefix_code, of x "Suc (size x + size y)" y r s] by simp
next
  fix v
  assume "no_float v"
  then show "encode v \<noteq> [] \<and> \<not> delimited (encode v)"
    using prefix_code.start [OF encode_prefix_code, of v "Suc (size v)"] by simp
qed

section \<open>Bytes\<close>

lemma map_res_Inr_iff:
  "map_res f xs = Inr ys \<longleftrightarrow> list_all2 (\<lambda>x y. f x = Inr y) xs ys"
  by (induction xs arbitrary: ys) (auto simp: list_all2_Cons1)

text \<open>Reading one code point back from the front of a byte string.\<close>

fun utf8_read :: "bytes \<Rightarrow> nat \<times> bytes" where
  "utf8_read bs =
     (if hd bs < 128 then (hd bs, drop 1 bs)
      else if hd bs < 224 then ((hd bs - 192) * 64 + (bs ! 1 - 128), drop 2 bs)
      else if hd bs < 240 then (((hd bs - 224) * 64 + (bs ! 1 - 128)) * 64 + (bs ! 2 - 128), drop 3 bs)
      else ((((hd bs - 240) * 64 + (bs ! 1 - 128)) * 64 + (bs ! 2 - 128)) * 64 + (bs ! 3 - 128), drop 4 bs))"

lemma base64_2: "c div 4096 * 64 + c div 64 mod 64 = c div 64" for c :: nat
  using div_mult_mod_eq [of "c div 64" 64] by (simp add: div_mult2_eq [symmetric])

lemma base64_3: "c div 262144 * 64 + c div 4096 mod 64 = c div 4096" for c :: nat
  using base64_2 [of "c div 64"] by (simp add: div_mult2_eq [symmetric])

lemma utf8_read_char:
  assumes "utf8_char c = Inr a"
  shows "utf8_read (a @ x) = (c, x)"
proof -
  consider "c < 128" | "128 \<le> c" "c < 2048" | "2048 \<le> c" "c < 65536" | "65536 \<le> c" by linarith
  then show ?thesis
  proof cases
    case 1
    then have "a = [c]" using assms by (simp add: utf8_char_def)
    then show ?thesis using 1 by simp
  next
    case 2
    then have "c div 64 < 32" by (simp add: less_mult_imp_div_less)
    moreover have "a = [192 + c div 64, 128 + c mod 64]" using 2 assms by (simp add: utf8_char_def)
    ultimately show ?thesis by (simp add: numeral_2_eq_2)
  next
    case 3
    then have "c div 4096 < 16" by (simp add: less_mult_imp_div_less)
    moreover have "a = [224 + c div 4096, 128 + c div 64 mod 64, 128 + c mod 64]"
      using 3 assms by (auto simp: utf8_char_def split: if_splits)
    ultimately show ?thesis using base64_2 [of c] div_mult_mod_eq [of c 64] by simp
  next
    case 4
    then have "a = [240 + c div 262144, 128 + c div 4096 mod 64, 128 + c div 64 mod 64, 128 + c mod 64]"
      using assms by (simp add: utf8_char_def)
    then show ?thesis using base64_2 [of c] base64_3 [of c] div_mult_mod_eq [of c 64] by simp
  qed
qed

lemma utf8_char_prefix:
  assumes "utf8_char c = Inr a" "utf8_char d = Inr b" "a @ x = b @ y"
  shows "c = d \<and> x = y"
  using utf8_read_char [OF assms(1), of x] utf8_read_char [OF assms(2), of y] assms(3) by simp

lemma utf8_inj: "utf8 s = Inr b \<Longrightarrow> utf8 t = Inr b \<Longrightarrow> s = t"
proof -
  have "concat xs = concat ys \<Longrightarrow> s = t"
    if "list_all2 (\<lambda>c x. utf8_char c = Inr x) s xs" "list_all2 (\<lambda>c y. utf8_char c = Inr y) t ys" for xs ys
    using that
  proof (induction s arbitrary: t xs ys)
    case Nil
    have "a \<noteq> []" if "utf8_char c = Inr a" for c a
      using that by (auto simp: utf8_char_def split: if_splits)
    with Nil show ?case by (cases t) (auto simp: list_all2_Cons1)
  next
    case (Cons c s)
    obtain a xs' where a: "xs = a # xs'" "utf8_char c = Inr a" "list_all2 (\<lambda>c x. utf8_char c = Inr x) s xs'"
      using Cons.prems(2) by (auto simp: list_all2_Cons1)
    have ne: "a \<noteq> []" using a(2) by (auto simp: utf8_char_def split: if_splits)
    obtain d t' b ys' where b: "t = d # t'" "ys = b # ys'" "utf8_char d = Inr b"
      "list_all2 (\<lambda>c x. utf8_char c = Inr x) t' ys'"
      using Cons.prems(1,3) a(1) ne by (cases t) (auto simp: list_all2_Cons1)
    have "c = d \<and> concat xs' = concat ys'"
      using utf8_char_prefix [OF a(2) b(3)] Cons.prems(1) a(1) b(2) by simp
    then show ?case using Cons.IH [OF _ a(3) b(4)] b(1) by blast
  qed
  then show "utf8 s = Inr b \<Longrightarrow> utf8 t = Inr b \<Longrightarrow> s = t"
    by (auto simp: utf8_def map_res_Inr_iff)
qed

section \<open>Equal bytes, equal documents\<close>

text \<open>The values \<open>_v3_value\<close> accepts, which it returns as they are.\<close>

fun v3_ok :: "json \<Rightarrow> bool" where
  "v3_ok JFloat = False"
| "v3_ok (JInt i) = (\<bar>i\<bar> \<le> max_safe_integer)"
| "v3_ok (JArr xs) = (\<forall>x \<in> set xs. v3_ok x)"
| "v3_ok (JObj kvs) = (\<forall>p \<in> set kvs. v3_ok (snd p))"
| "v3_ok j = True"

lemma map_res_same:
  "(\<And>x y. x \<in> set xs \<Longrightarrow> f x = Inr y \<longleftrightarrow> y = x \<and> P x) \<Longrightarrow> map_res f xs = Inr ys \<longleftrightarrow> ys = xs \<and> (\<forall>x \<in> set xs. P x)"
  by (induction xs arbitrary: ys) auto

lemma v3_value_Inr: "v3_value v = Inr w \<longleftrightarrow> w = v \<and> v3_ok v"
proof (induction v arbitrary: w rule: v3_ok.induct)
  case (3 xs)
  have "map_res v3_value xs = Inr ys \<longleftrightarrow> ys = xs \<and> (\<forall>x \<in> set xs. v3_ok x)" for ys
    by (rule map_res_same) (use 3 in blast)
  then show ?case by auto
next
  case (4 kvs)
  have "map_res (\<lambda>(k, v). res_bind (v3_value v) (\<lambda>w. Inr (k, w))) kvs = Inr ys \<longleftrightarrow>
      ys = kvs \<and> (\<forall>p \<in> set kvs. v3_ok (snd p))" for ys
    by (rule map_res_same) (use 4 in fastforce)
  then show ?case by auto
qed (auto simp: require_def)

lemma v3_ok_no_float: "v3_ok v \<Longrightarrow> no_float v"
  by (induction v rule: v3_ok.induct) auto

lemma v3_ok_form: "v3_ok (canonical_form v) = v3_ok v"
  by (induction v rule: canonical_form.induct) (auto simp: case_prod_beta)

lemma encode_form: "encode (canonical_form v) = encode v"
proof (induction v rule: canonical_form.induct)
  case (1 xs)
  then show ?case by (simp cong: map_cong)
next
  case (2 kvs)
  have sorted: "by_name (map form_member (by_name kvs)) = map form_member (by_name kvs)"
    by (intro sort_key_id_if_sorted) (simp add: form_member_def comp_def)
  have "encode_member (form_member p) = encode_member p" if "p \<in> set kvs" for p
    using 2 [OF that] by (cases p) (simp add: encode_member_def form_member_def)
  then have "map (encode_member \<circ> form_member) (by_name kvs) = map encode_member (by_name kvs)" by simp
  then show ?case
    by (simp only: form_object encode_object sorted map_map)
qed simp_all

lemma canonical_bytes_unfold: "canonical_bytes v = Inr b \<longleftrightarrow> v3_ok v \<and> utf8 (encode v) = Inr b"
  by (auto simp: canonical_bytes_def v3_value_Inr)

lemma same_bytes_form:
  assumes "canonical_bytes v = Inr b" "canonical_bytes w = Inr b"
  shows "canonical_form w = canonical_form v"
  using assms json_code.enc_inj utf8_inj v3_ok_no_float by (metis canonical_bytes_unfold)

text \<open>
  C12: Two documents have the same canonical bytes exactly when they are the same document up to
  the order of object members.
\<close>

theorem canonical_bytes_same_form:
  assumes "canonical_bytes v = Inr b"
  shows "canonical_bytes w = Inr b \<longleftrightarrow> canonical_form w = canonical_form v"
proof
  assume "canonical_bytes w = Inr b"
  with assms show "canonical_form w = canonical_form v" by (rule same_bytes_form)
next
  assume "canonical_form w = canonical_form v"
  then show "canonical_bytes w = Inr b"
    using assms by (metis canonical_bytes_unfold encode_form v3_ok_form)
qed

theorem canonical_bytes_same_form_witness:
  "canonical_bytes (JObj [([98], JNull), ([97], JInt 1)]) = Inr [123, 34, 97, 34, 58, 49, 44, 34, 98, 34, 58, 110, 117, 108, 108, 125] \<and>
   canonical_bytes (JObj [([97], JInt 1), ([98], JNull)]) = Inr [123, 34, 97, 34, 58, 49, 44, 34, 98, 34, 58, 110, 117, 108, 108, 125]"
proof -
  have b: "canonical_bytes (JObj [([98], JNull), ([97], JInt 1)]) =
      Inr [123, 34, 97, 34, 58, 49, 44, 34, 98, 34, 58, 110, 117, 108, 108, 125]"
    by (simp add: canonical_bytes_def max_safe_integer_def encode_str_def escape_char_def utf8_def utf8_char_def
        utf16_be_def utf16_unit_def text_of_def encode_int_def show_nat.simps of_char_digit insort_key_def)
  have "canonical_form (JObj [([97], JInt 1), ([98], JNull)]) = canonical_form (JObj [([98], JNull), ([97], JInt 1)])"
    by (simp add: utf16_be_def utf16_unit_def)
  with canonical_bytes_same_form [OF b] b show ?thesis by simp
qed

end
