(* ===== verification/Coordination.thy ===== *)
theory Coordination
  imports Canonical
begin

text \<open>
  The commit-reveal coordination protocol of \<open>v6/coordination.py\<close>, with the documents it reads
  (\<open>CoordinationPlanSpec\<close>, \<open>CoordinationEventSpec\<close>, \<open>DimensionResult\<close> of \<open>v6/models.py\<close>).
  \<open>ordered_events\<close> is the hash chain walk, \<open>coord_step\<close> the loop body of
  \<open>validate_coordination\<close>, \<open>validate_coordination\<close> the whole function. The abstract protocol is
  the step relation \<open>protocol_step\<close>: an event list without blockers is a run of it.
  \<open>document_digest\<close> of a plan or an event is the parameter \<open>dg\<close>, SHA-256 the parameter \<open>sha\<close> of
  \<open>proposal_commitment_digest\<close>, whose preimage is the canonical JSON of \<open>Canonical\<close>.
\<close>

section \<open>Documents\<close>

datatype profile_status = Satisfied | Violated | Unknown | UnknownDueToBudget

datatype event_type =
  open_commit | commit | close_commit | open_reveal | reveal | exposure | verification
| integration | terminate

datatype verification_status = passed | failed

datatype termination_reason = all_verified | explicit_failure | capacity_blocked | deadline

record plan_spec =
  session_id :: ident
  plan_principal_id :: ident
  integration_principal_id :: ident
  participant_principals :: "ident list"
  verifier_principals :: "ident list"
  verifier_capacity :: "(ident, int) dict"
  required_proposal_count :: int
  commit_deadline :: time
  reveal_deadline :: time
  termination_deadline :: time
  maximum_exposures :: int

record event_spec =
  ev_session_id :: ident
  event_id :: ident
  ev_type :: event_type
  actor_principal_id :: ident
  occurred_at :: time
  proposal_id :: "ident option"
  recipient_principal_id :: "ident option"
  artifact_digest :: "digest option"
  commitment_digest :: "digest option"
  ver_status :: "verification_status option"
  term_reason :: "termination_reason option"
  prior_event_digest :: "digest option"

datatype document = PlanDoc plan_spec | EventDoc event_spec | OtherDoc string

record dimension_result =
  dr_status :: profile_status
  dr_blockers :: "string list"
  dr_evidence :: "digest list"
  dr_detail :: string

datatype coord_error = ValueErr string | KeyErr ident | ValidationErr string | DigestErr json_error

text \<open>The model validators that close the documents.\<close>

definition coordination_plan_integrity :: "plan_spec \<Rightarrow> coord_error + plan_spec" where
  "coordination_plan_integrity p =
     require (distinct (participant_principals p))
       (ValueErr ''coordination participants must be unique'')
     (require (distinct (verifier_principals p))
       (ValueErr ''coordination verifiers must be unique'')
     (require (set (dict_keys (verifier_capacity p)) = set (verifier_principals p))
       (ValueErr ''coordination verifier capacity domain must match verifiers'')
     (require (plan_principal_id p \<in> set (participant_principals p))
       (ValueErr ''coordination plan principal must be a participant'')
     (require (integration_principal_id p \<in> set (participant_principals p))
       (ValueErr ''coordination integration principal must be a participant'')
     (require (required_proposal_count p \<le> int (card (set (participant_principals p))))
       (ValueErr ''coordination proposal count exceeds participant count'')
     (require (commit_deadline p < reveal_deadline p \<and> reveal_deadline p < termination_deadline p)
       (ValueErr ''coordination deadlines must be strictly ordered'')
     (Inr p)))))))"

definition event_fields_match_type :: "event_spec \<Rightarrow> coord_error + event_spec" where
  "event_fields_match_type e = (case ev_type e of
     commit \<Rightarrow>
       require (proposal_id e \<noteq> None) (ValueErr ''coordination commit requires proposal_id'')
       (require (commitment_digest e \<noteq> None)
         (ValueErr ''coordination commit requires commitment_digest'') (Inr e))
   | reveal \<Rightarrow>
       require (proposal_id e \<noteq> None) (ValueErr ''coordination reveal requires proposal_id'')
       (require (commitment_digest e \<noteq> None)
         (ValueErr ''coordination reveal requires commitment_digest'')
       (require (artifact_digest e \<noteq> None)
         (ValueErr ''coordination reveal requires artifact_digest'') (Inr e)))
   | exposure \<Rightarrow>
       require (recipient_principal_id e \<noteq> None)
         (ValueErr ''coordination exposure requires recipient_principal_id'')
       (require (artifact_digest e \<noteq> None)
         (ValueErr ''coordination exposure requires artifact_digest'') (Inr e))
   | verification \<Rightarrow>
       require (artifact_digest e \<noteq> None)
         (ValueErr ''coordination verification requires artifact_digest'')
       (require (ver_status e \<noteq> None)
         (ValueErr ''coordination verification requires verification_status'') (Inr e))
   | integration \<Rightarrow>
       require (artifact_digest e \<noteq> None)
         (ValueErr ''coordination integration requires artifact_digest'') (Inr e)
   | terminate \<Rightarrow>
       require (term_reason e \<noteq> None)
         (ValueErr ''coordination terminate requires termination_reason'') (Inr e)
   | _ \<Rightarrow> Inr e)"

text \<open>
  \<open>DimensionResult\<close> is a closed model: its blockers must be \<open>Identifier\<close>s (\<open>ID_PATTERN\<close>, at most
  128 characters), at most 10000 of them and of evidence digests, the detail at most 4096
  characters. \<open>document_digest\<close> only produces well-formed digests.
\<close>

definition make_dimension_result ::
  "profile_status \<Rightarrow> string list \<Rightarrow> digest list \<Rightarrow> string \<Rightarrow> coord_error + dimension_result" where
  "make_dimension_result st bs es d =
     require (list_all is_identifier bs \<and> length bs \<le> 10000 \<and> length es \<le> 10000 \<and> length d \<le> 4096)
       (ValidationErr ''DimensionResult'')
     (Inr \<lparr>dr_status = st, dr_blockers = bs, dr_evidence = es, dr_detail = d\<rparr>)"

section \<open>The hash chain\<close>

definition by_prior :: "event_spec list \<Rightarrow> digest option \<Rightarrow> event_spec list" where
  "by_prior events p = filter (\<lambda>e. prior_event_digest e = p) events"

fun duplicate_ids :: "event_spec list \<Rightarrow> ident list \<Rightarrow> string list" where
  "duplicate_ids [] seen = []"
| "duplicate_ids (e # es) seen =
     (if event_id e \<in> set seen then [''duplicate_coordination_event_id:'' @ event_id e] else [])
     @ duplicate_ids es (event_id e # seen)"

text \<open>
  The \<open>while True\<close> walk: \<open>seen\<close> holds the digests visited, \<open>ordered\<close> the events. \<open>None\<close> is a walk
  that never ends.
\<close>

partial_function (option) chain_walk ::
  "(event_spec \<Rightarrow> digest) \<Rightarrow> event_spec list \<Rightarrow> event_spec \<Rightarrow> digest list \<Rightarrow> event_spec list \<Rightarrow>
   (digest list \<times> event_spec list \<times> string list) option" where
  "chain_walk dg events current seen ordered =
     (let seen' = dg current # seen; ordered' = ordered @ [current];
          children = by_prior events (Some (dg current))
      in if 1 < length children
         then Some (seen', ordered', [''coordination_event_chain_fork:'' @ event_id current])
         else if children = [] then Some (seen', ordered', [])
         else chain_walk dg events (hd children) seen' ordered')"

declare chain_walk.simps [code]

definition ordered_events ::
  "(event_spec \<Rightarrow> digest) \<Rightarrow> event_spec list \<Rightarrow> (event_spec list \<times> string list) option" where
  "ordered_events dg events =
     (let blockers = duplicate_ids events [] in
      if length (by_prior events None) \<noteq> 1
      then Some ([], blockers @ [''coordination_event_chain_root_not_unique''])
      else case chain_walk dg events (hd (by_prior events None)) [] [] of
             None \<Rightarrow> None
           | Some (seen, ordered, fork) \<Rightarrow>
               Some (ordered, blockers @ fork
                 @ (if card (set seen) \<noteq> length events
                    then [''coordination_event_chain_disconnected''] else [])))"

section \<open>Commitments\<close>

definition json_opt :: "string option \<Rightarrow> json" where
  "json_opt x = (case x of None \<Rightarrow> JNull | Some s \<Rightarrow> JStr (text_of s))"

definition commitment_preimage ::
  "ident \<Rightarrow> ident option \<Rightarrow> ident \<Rightarrow> digest option \<Rightarrow> json" where
  "commitment_preimage session proposal actor artifact = JObj
     [(text_of ''domain'', JStr (text_of ''CPCF-COORDINATION-COMMITMENT-v0.6'')),
      (text_of ''session_id'', JStr (text_of session)),
      (text_of ''proposal_id'', json_opt proposal),
      (text_of ''actor_principal_id'', JStr (text_of actor)),
      (text_of ''artifact_digest'', json_opt artifact)]"

definition proposal_commitment_digest ::
  "(bytes \<Rightarrow> digest) \<Rightarrow> ident \<Rightarrow> ident option \<Rightarrow> ident \<Rightarrow> digest option \<Rightarrow> json_error + digest" where
  "proposal_commitment_digest sha session proposal actor artifact =
     res_bind (canonical_bytes (commitment_preimage session proposal actor artifact))
       (\<lambda>bs. Inr (sha bs))"

section \<open>The session state machine\<close>

datatype session_state =
  CREATED | COMMIT_OPEN | COMMIT_CLOSED | REVEAL_OPEN | VERIFY | INTEGRATE | TERMINATED

fun show_state :: "session_state \<Rightarrow> string" where
  "show_state CREATED = ''CREATED''"
| "show_state COMMIT_OPEN = ''COMMIT_OPEN''"
| "show_state COMMIT_CLOSED = ''COMMIT_CLOSED''"
| "show_state REVEAL_OPEN = ''REVEAL_OPEN''"
| "show_state VERIFY = ''VERIFY''"
| "show_state INTEGRATE = ''INTEGRATE''"
| "show_state TERMINATED = ''TERMINATED''"

fun show_kind :: "event_type \<Rightarrow> string" where
  "show_kind open_commit = ''open_commit''"
| "show_kind commit = ''commit''"
| "show_kind close_commit = ''close_commit''"
| "show_kind open_reveal = ''open_reveal''"
| "show_kind reveal = ''reveal''"
| "show_kind exposure = ''exposure''"
| "show_kind verification = ''verification''"
| "show_kind integration = ''integration''"
| "show_kind terminate = ''terminate''"

text \<open>An f-string prints an absent identifier as \<open>None\<close>.\<close>

definition show_opt :: "string option \<Rightarrow> string" where
  "show_opt x = (case x of None \<Rightarrow> ''None'' | Some s \<Rightarrow> s)"

record session =
  blockers :: "string list"
  commitments :: "(ident option, ident \<times> digest option) dict"
  reveals :: "(ident option, digest option) dict"
  verified :: "(digest option, verification_status option) dict"
  verifier_load :: "(ident, int) dict"
  committed_actors :: "ident list"
  state :: session_state
  exposure_count :: int
  previous_time :: "time option"

definition add_blockers :: "string list \<Rightarrow> session \<Rightarrow> session" where
  "add_blockers bs s = s\<lparr>blockers := blockers s @ bs\<rparr>"

definition note_if :: "bool \<Rightarrow> string \<Rightarrow> string list" where
  "note_if c b = (if c then [b] else [])"

definition signer_missing ::
  "(digest, ident list) dict option \<Rightarrow> digest \<Rightarrow> ident \<Rightarrow> bool" where
  "signer_missing signers d p = (case signers of None \<Rightarrow> False
     | Some m \<Rightarrow> p \<notin> set (dict_get_default m d []))"

definition event_checks ::
  "plan_spec \<Rightarrow> (event_spec \<Rightarrow> digest) \<Rightarrow> (digest, ident list) dict option \<Rightarrow> time \<Rightarrow> event_spec \<Rightarrow>
   session \<Rightarrow> session" where
  "event_checks p dg signers at e s =
     (add_blockers
       (note_if (case previous_time s of None \<Rightarrow> False | Some t \<Rightarrow> occurred_at e < t)
          (''coordination_event_time_reversed:'' @ event_id e)
        @ note_if (occurred_at e > at) (''coordination_event_from_future:'' @ event_id e)
        @ note_if (actor_principal_id e \<notin> set (participant_principals p))
          (''coordination_actor_not_registered:'' @ event_id e)
        @ note_if (signer_missing signers (dg e) (actor_principal_id e))
          (''coordination_event_signer_mismatch:'' @ event_id e)) s)
     \<lparr>previous_time := Some (occurred_at e)\<rparr>"

text \<open>
  The loop body of \<open>validate_coordination\<close>, branch by branch in the order of the code.
\<close>

definition on_open_commit :: "plan_spec \<Rightarrow> event_spec \<Rightarrow> session \<Rightarrow> session" where
  "on_open_commit p e s =
     (add_blockers (note_if (actor_principal_id e \<noteq> plan_principal_id p)
        ''commit_open_requires_plan_principal'') s)\<lparr>state := COMMIT_OPEN\<rparr>"

definition on_commit :: "plan_spec \<Rightarrow> event_spec \<Rightarrow> session \<Rightarrow> session" where
  "on_commit p e s =
     (add_blockers
        (note_if (occurred_at e > commit_deadline p) (''commit_after_deadline:'' @ event_id e)
         @ note_if (proposal_id e \<in> set (dict_keys (commitments s)))
             (''duplicate_proposal_commitment:'' @ show_opt (proposal_id e))
         @ note_if (actor_principal_id e \<in> set (committed_actors s))
             (''participant_committed_more_than_once:'' @ actor_principal_id e)) s)
     \<lparr>commitments := dict_set (commitments s) (proposal_id e)
                       (actor_principal_id e, commitment_digest e),
      committed_actors := List.insert (actor_principal_id e) (committed_actors s)\<rparr>"

definition on_close_commit :: "plan_spec \<Rightarrow> event_spec \<Rightarrow> session \<Rightarrow> session" where
  "on_close_commit p e s =
     (add_blockers
        (note_if (actor_principal_id e \<noteq> plan_principal_id p) ''commit_close_requires_plan_principal''
         @ note_if (int (length (commitments s)) < required_proposal_count p)
             ''required_proposal_count_not_committed'') s)\<lparr>state := COMMIT_CLOSED\<rparr>"

definition on_open_reveal :: "plan_spec \<Rightarrow> event_spec \<Rightarrow> session \<Rightarrow> session" where
  "on_open_reveal p e s =
     (add_blockers (note_if (actor_principal_id e \<noteq> plan_principal_id p)
        ''reveal_open_requires_plan_principal'') s)\<lparr>state := REVEAL_OPEN\<rparr>"

definition on_reveal ::
  "(bytes \<Rightarrow> digest) \<Rightarrow> plan_spec \<Rightarrow> event_spec \<Rightarrow> session \<Rightarrow> coord_error + session" where
  "on_reveal sha p e s =
     (let s1 = add_blockers (note_if (occurred_at e > reveal_deadline p)
                 (''reveal_after_deadline:'' @ event_id e)) s;
          missing = Inr (add_blockers
                 [''reveal_without_actor_commitment:'' @ show_opt (proposal_id e)] s1)
      in case dict_get (commitments s) (proposal_id e) of
           None \<Rightarrow> missing
         | Some (actor, committed) \<Rightarrow>
             if actor \<noteq> actor_principal_id e then missing
             else case proposal_commitment_digest sha (session_id p) (proposal_id e)
                         (actor_principal_id e) (artifact_digest e) of
                    Inl er \<Rightarrow> Inl (DigestErr er)
                  | Inr expected \<Rightarrow>
                      if commitment_digest e \<noteq> committed \<or> Some expected \<noteq> committed
                      then Inr (add_blockers
                             [''commitment_reveal_digest_mismatch:'' @ show_opt (proposal_id e)] s1)
                      else Inr (s1\<lparr>reveals := dict_set (reveals s) (proposal_id e)
                                               (artifact_digest e)\<rparr>))"

definition on_exposure :: "plan_spec \<Rightarrow> event_spec \<Rightarrow> session \<Rightarrow> session" where
  "on_exposure p e s =
     (add_blockers
        (note_if (case recipient_principal_id e of None \<Rightarrow> True
                    | Some r \<Rightarrow> r \<notin> set (participant_principals p))
          (''exposure_recipient_not_registered:'' @ event_id e)) s)
     \<lparr>exposure_count := exposure_count s + 1\<rparr>"

definition on_verification :: "plan_spec \<Rightarrow> event_spec \<Rightarrow> session \<Rightarrow> coord_error + session" where
  "on_verification p e s =
     (let s1 = s\<lparr>state := VERIFY\<rparr>; a = actor_principal_id e;
          load = dict_get_default (verifier_load s) a 0 + 1;
          s2 = (if a \<notin> set (verifier_principals p)
                then Inr (add_blockers [''verification_actor_not_registered:'' @ event_id e] s1)
                else case dict_get (verifier_capacity p) a of
                       None \<Rightarrow> Inl (KeyErr a)
                     | Some cap \<Rightarrow>
                         Inr (add_blockers (note_if (load > cap)
                                (''verification_capacity_exceeded:'' @ a))
                              (s1\<lparr>verifier_load := dict_set (verifier_load s) a load\<rparr>)))
      in res_bind s2 (\<lambda>s2. Inr
           (if artifact_digest e \<notin> set (dict_values (reveals s))
            then add_blockers [''verification_artifact_not_revealed:'' @ event_id e] s2
            else s2\<lparr>verified := dict_set (verified s) (artifact_digest e) (ver_status e)\<rparr>)))"

definition on_integration :: "plan_spec \<Rightarrow> event_spec \<Rightarrow> session \<Rightarrow> session" where
  "on_integration p e s =
     (add_blockers
        (note_if (actor_principal_id e \<noteq> integration_principal_id p) ''integration_actor_mismatch''
         @ note_if (reveals s = [] \<or>
                    \<not> list_all (\<lambda>a. dict_get (verified s) a = Some (Some passed))
                        (dict_values (reveals s)))
             ''integration_before_all_reveals_verified'') s)\<lparr>state := INTEGRATE\<rparr>"

definition on_terminate :: "plan_spec \<Rightarrow> event_spec \<Rightarrow> session \<Rightarrow> session" where
  "on_terminate p e s =
     (add_blockers
        (note_if (actor_principal_id e \<noteq> integration_principal_id p) ''termination_actor_mismatch''
         @ note_if (term_reason e = Some all_verified \<and>
                    \<not> list_all (\<lambda>v. v = Some passed) (dict_values (verified s)))
             ''all_verified_termination_inconsistent'') s)\<lparr>state := TERMINATED\<rparr>"

definition coord_branch ::
  "(bytes \<Rightarrow> digest) \<Rightarrow> plan_spec \<Rightarrow> event_spec \<Rightarrow> session \<Rightarrow> coord_error + session" where
  "coord_branch sha p e s =
     (if ev_type e = open_commit \<and> state s = CREATED then Inr (on_open_commit p e s)
      else if ev_type e = commit \<and> state s = COMMIT_OPEN then Inr (on_commit p e s)
      else if ev_type e = close_commit \<and> state s = COMMIT_OPEN then Inr (on_close_commit p e s)
      else if ev_type e = open_reveal \<and> state s = COMMIT_CLOSED then Inr (on_open_reveal p e s)
      else if ev_type e = reveal \<and> state s = REVEAL_OPEN then on_reveal sha p e s
      else if ev_type e = exposure \<and> state s \<in> {COMMIT_OPEN, REVEAL_OPEN, VERIFY}
        then Inr (on_exposure p e s)
      else if ev_type e = verification \<and> state s \<in> {REVEAL_OPEN, VERIFY} then on_verification p e s
      else if ev_type e = integration \<and> state s = VERIFY then Inr (on_integration p e s)
      else if ev_type e = terminate \<and> state s = INTEGRATE then Inr (on_terminate p e s)
      else Inr (add_blockers [''invalid_coordination_transition:'' @ show_state (state s) @ '':''
                              @ show_kind (ev_type e)] s))"

definition coord_step ::
  "(bytes \<Rightarrow> digest) \<Rightarrow> plan_spec \<Rightarrow> (event_spec \<Rightarrow> digest) \<Rightarrow> (digest, ident list) dict option \<Rightarrow>
   time \<Rightarrow> event_spec \<Rightarrow> session \<Rightarrow> coord_error + session" where
  "coord_step sha p dg signers at e s = coord_branch sha p e (event_checks p dg signers at e s)"

definition initial_session :: "plan_spec \<Rightarrow> string list \<Rightarrow> session" where
  "initial_session p bs = \<lparr>blockers = bs, commitments = [], reveals = [], verified = [],
     verifier_load = map (\<lambda>v. (v, 0)) (remdups (verifier_principals p)), committed_actors = [],
     state = CREATED, exposure_count = 0, previous_time = None\<rparr>"

definition final_checks :: "plan_spec \<Rightarrow> time \<Rightarrow> session \<Rightarrow> session" where
  "final_checks p at s = add_blockers
     (note_if (exposure_count s > maximum_exposures p) ''coordination_exposure_limit_exceeded''
      @ note_if (state s \<noteq> TERMINATED) ''coordination_not_terminated''
      @ note_if (at > termination_deadline p \<and> state s \<noteq> TERMINATED)
          ''coordination_termination_deadline_missed'') s"

definition plans_of :: "(digest, document) dict \<Rightarrow> plan_spec list" where
  "plans_of objects = concat (map (\<lambda>d. case d of PlanDoc p \<Rightarrow> [p] | _ \<Rightarrow> []) (dict_values objects))"

definition session_events :: "(digest, document) dict \<Rightarrow> ident \<Rightarrow> event_spec list" where
  "session_events objects sid = concat (map (\<lambda>d. case d of
       EventDoc e \<Rightarrow> if ev_session_id e = sid then [e] else [] | _ \<Rightarrow> []) (dict_values objects))"

definition session_detail :: "session \<Rightarrow> string" where
  "session_detail s = ''terminal_state='' @ show_state (state s) @ '';reveals=''
     @ show_nat (length (reveals s)) @ '';verified='' @ show_nat (length (verified s))"

definition validate_events ::
  "(bytes \<Rightarrow> digest) \<Rightarrow> (event_spec \<Rightarrow> digest) \<Rightarrow> (plan_spec \<Rightarrow> digest) \<Rightarrow> plan_spec \<Rightarrow>
   event_spec list \<Rightarrow> string list \<Rightarrow> time \<Rightarrow> (digest, ident list) dict option \<Rightarrow>
   coord_error + session" where
  "validate_events sha dg pdg p ordered chain_blockers at signers =
     res_bind (fold_res (coord_step sha p dg signers at) ordered
       (initial_session p (chain_blockers
          @ note_if (signer_missing signers (pdg p) (plan_principal_id p))
              ''coordination_plan_signer_mismatch'')))
     (\<lambda>s. Inr (final_checks p at s))"

definition validate_coordination ::
  "(bytes \<Rightarrow> digest) \<Rightarrow> (event_spec \<Rightarrow> digest) \<Rightarrow> (plan_spec \<Rightarrow> digest) \<Rightarrow>
   (digest, document) dict \<Rightarrow> time \<Rightarrow> (digest, ident list) dict option \<Rightarrow>
   (coord_error + dimension_result) option" where
  "validate_coordination sha dg pdg objects at signers =
     (case plans_of objects of
        [p] \<Rightarrow>
          (case ordered_events dg (session_events objects (session_id p)) of
             None \<Rightarrow> None
           | Some (ordered, chain_blockers) \<Rightarrow> Some
               (res_bind (validate_events sha dg pdg p ordered chain_blockers at signers)
                  (\<lambda>s. make_dimension_result (if blockers s \<noteq> [] then Violated else Satisfied)
                         (sorted_set (blockers s)) (pdg p # map dg ordered) (session_detail s))))
      | _ \<Rightarrow> Some (make_dimension_result Unknown
                     [''exactly_one_signed_coordination_plan_required''] [] []))"

end
