(* ===== verification/Coordination_Protocol.thy ===== *)
theory Coordination_Protocol
  imports Coordination "HOL-Library.Multiset"
begin

text \<open>
  What the coordination validator promises: an abstract commit-reveal protocol as a step relation
  over maps (\<open>protocol_step\<close>, \<open>protocol_run\<close>), its invariant, and the refinement of
  \<open>coord_step\<close> to it. The chain walk terminates and lists every event once when no two events
  share a digest.
\<close>

section \<open>The abstract protocol\<close>

record proto =
  phase :: session_state
  commits :: "ident option \<rightharpoonup> ident \<times> digest option"
  opened :: "ident option \<rightharpoonup> digest option"
  verdict :: "digest option \<rightharpoonup> verification_status option"
  load :: "ident \<Rightarrow> int"
  exposures :: int
  clock :: "time option"

definition proto_init :: proto where
  "proto_init = \<lparr>phase = CREATED, commits = Map.empty, opened = Map.empty, verdict = Map.empty,
     load = (\<lambda>_. 0), exposures = 0, clock = None\<rparr>"

definition admissible ::
  "plan_spec \<Rightarrow> (event_spec \<Rightarrow> digest) \<Rightarrow> (digest, ident list) dict option \<Rightarrow> time \<Rightarrow> proto \<Rightarrow>
   event_spec \<Rightarrow> bool" where
  "admissible p dg signers at \<sigma> e \<longleftrightarrow>
     (\<forall>t. clock \<sigma> = Some t \<longrightarrow> t \<le> occurred_at e) \<and> occurred_at e \<le> at \<and>
     actor_principal_id e \<in> set (participant_principals p) \<and>
     \<not> signer_missing signers (dg e) (actor_principal_id e)"

definition committed_by :: "proto \<Rightarrow> ident set" where
  "committed_by \<sigma> = fst ` ran (commits \<sigma>)"

inductive phase_step ::
  "(bytes \<Rightarrow> digest) \<Rightarrow> plan_spec \<Rightarrow> event_spec \<Rightarrow> proto \<Rightarrow> proto \<Rightarrow> bool"
  for sha p e where
  Open: "ev_type e = open_commit \<Longrightarrow> phase \<sigma> = CREATED \<Longrightarrow>
     actor_principal_id e = plan_principal_id p \<Longrightarrow>
     phase_step sha p e \<sigma> (\<sigma>\<lparr>phase := COMMIT_OPEN\<rparr>)"
| Commit: "ev_type e = commit \<Longrightarrow> phase \<sigma> = COMMIT_OPEN \<Longrightarrow> occurred_at e \<le> commit_deadline p \<Longrightarrow>
     commits \<sigma> (proposal_id e) = None \<Longrightarrow> actor_principal_id e \<notin> committed_by \<sigma> \<Longrightarrow>
     phase_step sha p e \<sigma> (\<sigma>\<lparr>commits :=
       (commits \<sigma>)(proposal_id e \<mapsto> (actor_principal_id e, commitment_digest e))\<rparr>)"
| Close: "ev_type e = close_commit \<Longrightarrow> phase \<sigma> = COMMIT_OPEN \<Longrightarrow>
     actor_principal_id e = plan_principal_id p \<Longrightarrow>
     required_proposal_count p \<le> int (card (dom (commits \<sigma>))) \<Longrightarrow>
     phase_step sha p e \<sigma> (\<sigma>\<lparr>phase := COMMIT_CLOSED\<rparr>)"
| Open_Reveal: "ev_type e = open_reveal \<Longrightarrow> phase \<sigma> = COMMIT_CLOSED \<Longrightarrow>
     actor_principal_id e = plan_principal_id p \<Longrightarrow>
     phase_step sha p e \<sigma> (\<sigma>\<lparr>phase := REVEAL_OPEN\<rparr>)"
| Reveal: "ev_type e = reveal \<Longrightarrow> phase \<sigma> = REVEAL_OPEN \<Longrightarrow> occurred_at e \<le> reveal_deadline p \<Longrightarrow>
     commits \<sigma> (proposal_id e) = Some (actor_principal_id e, Some d) \<Longrightarrow>
     commitment_digest e = Some d \<Longrightarrow>
     proposal_commitment_digest sha (session_id p) (proposal_id e) (actor_principal_id e)
       (artifact_digest e) = Inr d \<Longrightarrow>
     phase_step sha p e \<sigma> (\<sigma>\<lparr>opened := (opened \<sigma>)(proposal_id e \<mapsto> artifact_digest e)\<rparr>)"
| Exposure: "ev_type e = exposure \<Longrightarrow> phase \<sigma> \<in> {COMMIT_OPEN, REVEAL_OPEN, VERIFY} \<Longrightarrow>
     recipient_principal_id e = Some r \<Longrightarrow> r \<in> set (participant_principals p) \<Longrightarrow>
     phase_step sha p e \<sigma> (\<sigma>\<lparr>exposures := exposures \<sigma> + 1\<rparr>)"
| Verify: "ev_type e = verification \<Longrightarrow> phase \<sigma> \<in> {REVEAL_OPEN, VERIFY} \<Longrightarrow>
     actor_principal_id e \<in> set (verifier_principals p) \<Longrightarrow>
     dict_get (verifier_capacity p) (actor_principal_id e) = Some cap \<Longrightarrow>
     load \<sigma> (actor_principal_id e) + 1 \<le> cap \<Longrightarrow> artifact_digest e \<in> ran (opened \<sigma>) \<Longrightarrow>
     phase_step sha p e \<sigma> (\<sigma>\<lparr>phase := VERIFY,
       load := (load \<sigma>)(actor_principal_id e := load \<sigma> (actor_principal_id e) + 1),
       verdict := (verdict \<sigma>)(artifact_digest e \<mapsto> ver_status e)\<rparr>)"
| Integrate: "ev_type e = integration \<Longrightarrow> phase \<sigma> = VERIFY \<Longrightarrow>
     actor_principal_id e = integration_principal_id p \<Longrightarrow> opened \<sigma> \<noteq> Map.empty \<Longrightarrow>
     (\<And>a. a \<in> ran (opened \<sigma>) \<Longrightarrow> verdict \<sigma> a = Some (Some passed)) \<Longrightarrow>
     phase_step sha p e \<sigma> (\<sigma>\<lparr>phase := INTEGRATE\<rparr>)"
| Terminate: "ev_type e = terminate \<Longrightarrow> phase \<sigma> = INTEGRATE \<Longrightarrow>
     actor_principal_id e = integration_principal_id p \<Longrightarrow>
     (term_reason e = Some all_verified \<Longrightarrow> ran (verdict \<sigma>) \<subseteq> {Some passed}) \<Longrightarrow>
     phase_step sha p e \<sigma> (\<sigma>\<lparr>phase := TERMINATED\<rparr>)"

inductive_cases phase_stepE: "phase_step sha p e \<sigma> \<tau>"

definition protocol_step ::
  "(bytes \<Rightarrow> digest) \<Rightarrow> plan_spec \<Rightarrow> (event_spec \<Rightarrow> digest) \<Rightarrow> (digest, ident list) dict option \<Rightarrow>
   time \<Rightarrow> event_spec \<Rightarrow> proto \<Rightarrow> proto \<Rightarrow> bool" where
  "protocol_step sha p dg signers at e \<sigma> \<tau> \<longleftrightarrow>
     admissible p dg signers at \<sigma> e \<and> phase_step sha p e (\<sigma>\<lparr>clock := Some (occurred_at e)\<rparr>) \<tau>"

inductive protocol_run ::
  "(bytes \<Rightarrow> digest) \<Rightarrow> plan_spec \<Rightarrow> (event_spec \<Rightarrow> digest) \<Rightarrow> (digest, ident list) dict option \<Rightarrow>
   time \<Rightarrow> proto \<Rightarrow> event_spec list \<Rightarrow> proto \<Rightarrow> bool"
  for sha p dg signers at where
  Done: "protocol_run sha p dg signers at \<sigma> [] \<sigma>"
| Step: "protocol_step sha p dg signers at e \<sigma> \<tau> \<Longrightarrow> protocol_run sha p dg signers at \<tau> es \<upsilon> \<Longrightarrow>
     protocol_run sha p dg signers at \<sigma> (e # es) \<upsilon>"

inductive_simps protocol_run_Nil [simp]: "protocol_run sha p dg signers at \<sigma> [] \<tau>"
inductive_simps protocol_run_Cons [simp]: "protocol_run sha p dg signers at \<sigma> (e # es) \<tau>"

section \<open>Invariant of the protocol\<close>

definition binding_inv :: "(bytes \<Rightarrow> digest) \<Rightarrow> plan_spec \<Rightarrow> proto \<Rightarrow> bool" where
  "binding_inv sha p \<sigma> \<longleftrightarrow>
     (\<forall>pid a. opened \<sigma> pid = Some a \<longrightarrow> (\<exists>actor d. commits \<sigma> pid = Some (actor, Some d) \<and>
        proposal_commitment_digest sha (session_id p) pid actor a = Inr d))"

definition once_inv :: "proto \<Rightarrow> bool" where
  "once_inv \<sigma> \<longleftrightarrow> finite (dom (commits \<sigma>)) \<and>
     (\<forall>i j a d d'. commits \<sigma> i = Some (a, d) \<longrightarrow> commits \<sigma> j = Some (a, d') \<longrightarrow> i = j)"

definition quota_inv :: "plan_spec \<Rightarrow> proto \<Rightarrow> bool" where
  "quota_inv p \<sigma> \<longleftrightarrow>
     (phase \<sigma> \<notin> {CREATED, COMMIT_OPEN} \<longrightarrow> required_proposal_count p \<le> int (card (dom (commits \<sigma>)))) \<and>
     (\<forall>v. 0 < load \<sigma> v \<longrightarrow> (\<exists>cap. dict_get (verifier_capacity p) v = Some cap \<and> load \<sigma> v \<le> cap))"

definition verified_inv :: "proto \<Rightarrow> bool" where
  "verified_inv \<sigma> \<longleftrightarrow> (phase \<sigma> \<in> {INTEGRATE, TERMINATED} \<longrightarrow>
     opened \<sigma> \<noteq> Map.empty \<and> (\<forall>a \<in> ran (opened \<sigma>). verdict \<sigma> a = Some (Some passed)))"

lemmas proto_inv_defs = binding_inv_def once_inv_def quota_inv_def verified_inv_def

lemma phase_step_binding: "phase_step sha p e \<sigma> \<tau> \<Longrightarrow> binding_inv sha p \<sigma> \<Longrightarrow> binding_inv sha p \<tau>"
  by (erule phase_stepE) (auto simp: binding_inv_def, force)

lemma phase_step_once: "phase_step sha p e \<sigma> \<tau> \<Longrightarrow> once_inv \<sigma> \<Longrightarrow> once_inv \<tau>"
  by (erule phase_stepE) (auto simp: once_inv_def committed_by_def ran_def image_iff)

lemma phase_step_quota: "phase_step sha p e \<sigma> \<tau> \<Longrightarrow> quota_inv p \<sigma> \<Longrightarrow> quota_inv p \<tau>"
  by (erule phase_stepE) (auto simp: quota_inv_def)

lemma phase_step_verified: "phase_step sha p e \<sigma> \<tau> \<Longrightarrow> verified_inv \<sigma> \<Longrightarrow> verified_inv \<tau>"
  by (erule phase_stepE) (auto simp: verified_inv_def)

definition proto_inv :: "(bytes \<Rightarrow> digest) \<Rightarrow> plan_spec \<Rightarrow> proto \<Rightarrow> bool" where
  "proto_inv sha p \<sigma> \<longleftrightarrow> binding_inv sha p \<sigma> \<and> once_inv \<sigma> \<and> quota_inv p \<sigma> \<and> verified_inv \<sigma>"

lemma proto_inv_clock [simp]: "proto_inv sha p (\<sigma>\<lparr>clock := t\<rparr>) = proto_inv sha p \<sigma>"
  by (simp add: proto_inv_def proto_inv_defs)

lemma proto_inv_init: "proto_inv sha p proto_init"
  by (simp add: proto_inv_def proto_inv_defs proto_init_def)

lemma protocol_step_inv:
  "protocol_step sha p dg signers at e \<sigma> \<tau> \<Longrightarrow> proto_inv sha p \<sigma> \<Longrightarrow> proto_inv sha p \<tau>"
  by (metis phase_step_binding phase_step_once phase_step_quota phase_step_verified
      proto_inv_clock proto_inv_def protocol_step_def)

lemma protocol_run_inv:
  "protocol_run sha p dg signers at \<sigma> es \<tau> \<Longrightarrow> proto_inv sha p \<sigma> \<Longrightarrow> proto_inv sha p \<tau>"
  by (induction rule: protocol_run.induct) (auto intro: protocol_step_inv)

section \<open>Refinement\<close>

definition abs_session :: "session \<Rightarrow> proto" where
  "abs_session s = \<lparr>phase = state s, commits = dict_get (commitments s),
     opened = dict_get (reveals s), verdict = dict_get (verified s),
     load = (\<lambda>v. dict_get_default (verifier_load s) v 0), exposures = exposure_count s,
     clock = previous_time s\<rparr>"

lemma abs_session_simps [simp]:
  "phase (abs_session s) = state s" "commits (abs_session s) = dict_get (commitments s)"
  "opened (abs_session s) = dict_get (reveals s)" "verdict (abs_session s) = dict_get (verified s)"
  "load (abs_session s) = (\<lambda>v. dict_get_default (verifier_load s) v 0)"
  "exposures (abs_session s) = exposure_count s" "clock (abs_session s) = previous_time s"
  by (simp_all add: abs_session_def)

definition session_wf :: "session \<Rightarrow> bool" where
  "session_wf s \<longleftrightarrow> distinct (dict_keys (commitments s)) \<and> distinct (dict_keys (reveals s)) \<and>
     distinct (dict_keys (verified s)) \<and>
     set (committed_actors s) = fst ` ran (dict_get (commitments s))"

lemma dict_get_upd: "dict_get (dict_set d k v) = (dict_get d)(k \<mapsto> v)"
  by (rule ext) simp

lemma dict_get_default_upd:
  "(\<lambda>i. dict_get_default (dict_set d k v) i x) = (\<lambda>i. dict_get_default d i x)(k := v)"
  by (rule ext) simp

lemma ran_dict_get: "distinct (dict_keys d) \<Longrightarrow> ran (dict_get d) = set (dict_values d)"
  unfolding dict_get_def dict_keys_def dict_values_def by (simp add: ran_distinct)

lemma card_dom_dict_get: "distinct (dict_keys d) \<Longrightarrow> card (dom (dict_get d)) = length d"
  unfolding dict_get_def dict_keys_def
  by (metis distinct_card dom_map_of_conv_image_fst length_map set_map)

lemma dict_get_empty_iff: "dict_get d = Map.empty \<longleftrightarrow> d = []"
  by (cases d) (auto simp: dict_get_def fun_eq_iff)

lemma note_if_Nil [simp]: "note_if c b = [] \<longleftrightarrow> \<not> c"
  by (simp add: note_if_def)

lemma add_blockers_simps [simp]:
  "blockers (add_blockers bs s) = blockers s @ bs"
  "commitments (add_blockers bs s) = commitments s" "reveals (add_blockers bs s) = reveals s"
  "verified (add_blockers bs s) = verified s" "verifier_load (add_blockers bs s) = verifier_load s"
  "committed_actors (add_blockers bs s) = committed_actors s" "state (add_blockers bs s) = state s"
  "exposure_count (add_blockers bs s) = exposure_count s"
  "previous_time (add_blockers bs s) = previous_time s"
  by (simp_all add: add_blockers_def)

lemmas branch_defs = on_open_commit_def on_commit_def on_close_commit_def on_open_reveal_def
  on_exposure_def on_integration_def on_terminate_def

lemma on_reveal_blockers: "on_reveal sha p e s = Inr s' \<Longrightarrow> \<exists>bs. blockers s' = blockers s @ bs"
  by (auto simp: on_reveal_def Let_def split: option.splits sum.splits if_splits prod.splits)

lemma on_verification_blockers:
  "on_verification p e s = Inr s' \<Longrightarrow> \<exists>bs. blockers s' = blockers s @ bs"
  by (auto simp: on_verification_def Let_def split: option.splits if_splits)

lemma coord_branch_blockers:
  "coord_branch sha p e s = Inr s' \<Longrightarrow> \<exists>bs. blockers s' = blockers s @ bs"
  by (cases "ev_type e"; cases "state s")
     (auto simp: coord_branch_def branch_defs dest: on_reveal_blockers on_verification_blockers)

lemma coord_step_blockers:
  assumes "coord_step sha p dg signers at e s = Inr s'"
  shows "\<exists>bs. blockers s' = blockers s @ bs"
proof -
  obtain bs where "blockers s' = blockers (event_checks p dg signers at e s) @ bs"
    using assms coord_branch_blockers unfolding coord_step_def by blast
  moreover obtain cs where "blockers (event_checks p dg signers at e s) = blockers s @ cs"
    by (simp add: event_checks_def)
  ultimately show ?thesis by simp
qed

lemma fold_coord_step_blockers:
  "fold_res (coord_step sha p dg signers at) es s = Inr s' \<Longrightarrow> \<exists>bs. blockers s' = blockers s @ bs"
proof (induction es arbitrary: s)
  case (Cons e es)
  then show ?case by (auto dest!: coord_step_blockers) (metis append.assoc)
qed simp

lemma event_checks_clean:
  "blockers (event_checks p dg signers at e s) = [] \<longleftrightarrow>
   blockers s = [] \<and> admissible p dg signers at (abs_session s) e"
  by (auto simp: event_checks_def admissible_def split: option.splits)

lemma event_checks_abs:
  "abs_session (event_checks p dg signers at e s) = (abs_session s)\<lparr>clock := Some (occurred_at e)\<rparr>"
  by (simp add: event_checks_def abs_session_def)

lemma event_checks_wf [simp]: "session_wf (event_checks p dg signers at e s) = session_wf s"
  by (simp add: event_checks_def session_wf_def)

lemma on_commit_clean:
  assumes "session_wf s" and "blockers s = []"
  shows "blockers (on_commit p e s) = [] \<longleftrightarrow> occurred_at e \<le> commit_deadline p \<and>
    dict_get (commitments s) (proposal_id e) = None \<and>
    actor_principal_id e \<notin> committed_by (abs_session s)"
  using assms by (auto simp: on_commit_def session_wf_def committed_by_def dict_get_None)

lemma on_commit_wf:
  "session_wf s \<Longrightarrow> dict_get (commitments s) (proposal_id e) = None \<Longrightarrow> session_wf (on_commit p e s)"
  by (auto simp: on_commit_def session_wf_def dict_get_upd)

lemma on_commit_abs:
  "abs_session (on_commit p e s) = (abs_session s)\<lparr>commits := (dict_get (commitments s))
     (proposal_id e \<mapsto> (actor_principal_id e, commitment_digest e))\<rparr>"
  by (simp add: on_commit_def abs_session_def dict_get_upd)

lemma on_reveal_clean:
  assumes "blockers s = []"
  shows "on_reveal sha p e s = Inr s' \<and> blockers s' = [] \<longleftrightarrow>
    (occurred_at e \<le> reveal_deadline p \<and>
    (\<exists>d. dict_get (commitments s) (proposal_id e) = Some (actor_principal_id e, Some d) \<and>
       commitment_digest e = Some d \<and>
       proposal_commitment_digest sha (session_id p) (proposal_id e) (actor_principal_id e)
         (artifact_digest e) = Inr d)) \<and>
    s' = s\<lparr>reveals := dict_set (reveals s) (proposal_id e) (artifact_digest e)\<rparr>"
  using assms
  by (auto simp: on_reveal_def Let_def add_blockers_def note_if_def
      split: option.splits sum.splits if_splits prod.splits)

lemma on_verification_clean:
  assumes "session_wf s" and "blockers s = []"
  shows "on_verification p e s = Inr s' \<and> blockers s' = [] \<longleftrightarrow>
    (actor_principal_id e \<in> set (verifier_principals p) \<and>
    (\<exists>cap. dict_get (verifier_capacity p) (actor_principal_id e) = Some cap \<and>
       dict_get_default (verifier_load s) (actor_principal_id e) 0 + 1 \<le> cap) \<and>
    artifact_digest e \<in> ran (dict_get (reveals s))) \<and>
    s' = s\<lparr>state := VERIFY,
      verifier_load := dict_set (verifier_load s) (actor_principal_id e)
        (dict_get_default (verifier_load s) (actor_principal_id e) 0 + 1),
      verified := dict_set (verified s) (artifact_digest e) (ver_status e)\<rparr>"
  using assms
  by (auto simp: on_verification_def Let_def add_blockers_def note_if_def session_wf_def ran_dict_get
      split: option.splits if_splits)


text \<open>The step relation, read as one guarded update per event type.\<close>

lemma phase_step_iff:
  "phase_step sha p e \<sigma> \<tau> \<longleftrightarrow> (case ev_type e of
     open_commit \<Rightarrow> phase \<sigma> = CREATED \<and> actor_principal_id e = plan_principal_id p \<and>
       \<tau> = \<sigma>\<lparr>phase := COMMIT_OPEN\<rparr>
   | commit \<Rightarrow> phase \<sigma> = COMMIT_OPEN \<and> occurred_at e \<le> commit_deadline p \<and>
       commits \<sigma> (proposal_id e) = None \<and> actor_principal_id e \<notin> committed_by \<sigma> \<and>
       \<tau> = \<sigma>\<lparr>commits := (commits \<sigma>)(proposal_id e \<mapsto> (actor_principal_id e, commitment_digest e))\<rparr>
   | close_commit \<Rightarrow> phase \<sigma> = COMMIT_OPEN \<and> actor_principal_id e = plan_principal_id p \<and>
       required_proposal_count p \<le> int (card (dom (commits \<sigma>))) \<and> \<tau> = \<sigma>\<lparr>phase := COMMIT_CLOSED\<rparr>
   | open_reveal \<Rightarrow> phase \<sigma> = COMMIT_CLOSED \<and> actor_principal_id e = plan_principal_id p \<and>
       \<tau> = \<sigma>\<lparr>phase := REVEAL_OPEN\<rparr>
   | reveal \<Rightarrow> phase \<sigma> = REVEAL_OPEN \<and> occurred_at e \<le> reveal_deadline p \<and>
       (\<exists>d. commits \<sigma> (proposal_id e) = Some (actor_principal_id e, Some d) \<and>
          commitment_digest e = Some d \<and>
          proposal_commitment_digest sha (session_id p) (proposal_id e) (actor_principal_id e)
            (artifact_digest e) = Inr d) \<and>
       \<tau> = \<sigma>\<lparr>opened := (opened \<sigma>)(proposal_id e \<mapsto> artifact_digest e)\<rparr>
   | exposure \<Rightarrow> phase \<sigma> \<in> {COMMIT_OPEN, REVEAL_OPEN, VERIFY} \<and>
       (\<exists>r. recipient_principal_id e = Some r \<and> r \<in> set (participant_principals p)) \<and>
       \<tau> = \<sigma>\<lparr>exposures := exposures \<sigma> + 1\<rparr>
   | verification \<Rightarrow> phase \<sigma> \<in> {REVEAL_OPEN, VERIFY} \<and>
       actor_principal_id e \<in> set (verifier_principals p) \<and>
       (\<exists>cap. dict_get (verifier_capacity p) (actor_principal_id e) = Some cap \<and>
          load \<sigma> (actor_principal_id e) + 1 \<le> cap) \<and> artifact_digest e \<in> ran (opened \<sigma>) \<and>
       \<tau> = \<sigma>\<lparr>phase := VERIFY,
         load := (load \<sigma>)(actor_principal_id e := load \<sigma> (actor_principal_id e) + 1),
         verdict := (verdict \<sigma>)(artifact_digest e \<mapsto> ver_status e)\<rparr>
   | integration \<Rightarrow> phase \<sigma> = VERIFY \<and> actor_principal_id e = integration_principal_id p \<and>
       opened \<sigma> \<noteq> Map.empty \<and> (\<forall>a \<in> ran (opened \<sigma>). verdict \<sigma> a = Some (Some passed)) \<and>
       \<tau> = \<sigma>\<lparr>phase := INTEGRATE\<rparr>
   | terminate \<Rightarrow> phase \<sigma> = INTEGRATE \<and> actor_principal_id e = integration_principal_id p \<and>
       (term_reason e = Some all_verified \<longrightarrow> ran (verdict \<sigma>) \<subseteq> {Some passed}) \<and>
       \<tau> = \<sigma>\<lparr>phase := TERMINATED\<rparr>)"
  by (cases "ev_type e") (auto elim!: phase_stepE intro: phase_step.intros)

definition refines ::
  "(bytes \<Rightarrow> digest) \<Rightarrow> plan_spec \<Rightarrow> event_spec \<Rightarrow> session \<Rightarrow> (session \<Rightarrow> bool) \<Rightarrow> bool" where
  "refines sha p e s R \<longleftrightarrow> (\<forall>\<tau>. phase_step sha p e (abs_session s) \<tau> \<longleftrightarrow>
     (\<exists>s'. R s' \<and> blockers s' = [] \<and> session_wf s' \<and> abs_session s' = \<tau>)) \<and>
     (\<forall>s'. R s' \<longrightarrow> blockers s' = [] \<longrightarrow> session_wf s')"

lemma refinesI:
  assumes "\<And>s'. R s' \<Longrightarrow> blockers s' = [] \<Longrightarrow> session_wf s' \<and> G \<and> abs_session s' = \<upsilon>"
    and "G \<Longrightarrow> \<exists>s'. R s' \<and> blockers s' = []"
    and "\<And>\<tau>. phase_step sha p e (abs_session s) \<tau> \<longleftrightarrow> G \<and> \<tau> = \<upsilon>"
  shows "refines sha p e s R"
  using assms unfolding refines_def by metis

lemma refinesI_update:
  assumes "\<And>s'. R s' \<and> blockers s' = [] \<longleftrightarrow> G \<and> s' = u" and "G \<Longrightarrow> session_wf u"
    and "abs_session u = \<upsilon>" and "\<And>\<tau>. phase_step sha p e (abs_session s) \<tau> \<longleftrightarrow> G \<and> \<tau> = \<upsilon>"
  shows "refines sha p e s R"
  using assms unfolding refines_def by metis

lemma refines_stuck:
  assumes "\<And>s'. R s' \<Longrightarrow> blockers s' \<noteq> []" and "\<And>\<tau>. \<not> phase_step sha p e (abs_session s) \<tau>"
  shows "refines sha p e s R"
  using assms unfolding refines_def by blast

lemma session_wf_frame [simp]:
  "session_wf (add_blockers bs s) = session_wf s" "session_wf (s\<lparr>state := x\<rparr>) = session_wf s"
  "session_wf (s\<lparr>exposure_count := n\<rparr>) = session_wf s"
  "session_wf (s\<lparr>verifier_load := l\<rparr>) = session_wf s"
  by (simp_all add: session_wf_def)

lemma session_wf_verified: "session_wf s \<Longrightarrow> session_wf (s\<lparr>verified := dict_set (verified s) k v\<rparr>)"
  by (simp add: session_wf_def)

lemma session_wf_reveals: "session_wf s \<Longrightarrow> session_wf (s\<lparr>reveals := dict_set (reveals s) k v\<rparr>)"
  by (simp add: session_wf_def)

lemma session_wf_dicts:
  "session_wf s \<Longrightarrow> ran (dict_get (reveals s)) = set (dict_values (reveals s))"
  "session_wf s \<Longrightarrow> ran (dict_get (verified s)) = set (dict_values (verified s))"
  "session_wf s \<Longrightarrow> card (dom (dict_get (commitments s))) = length (commitments s)"
  by (simp_all add: session_wf_def ran_dict_get card_dom_dict_get)

lemma open_commit_refines:
  "session_wf s \<Longrightarrow> blockers s = [] \<Longrightarrow> ev_type e = open_commit \<Longrightarrow> state s = CREATED \<Longrightarrow>
   refines sha p e s ((=) (on_open_commit p e s))"
  by (rule refinesI [where G = "actor_principal_id e = plan_principal_id p"
        and \<upsilon> = "(abs_session s)\<lparr>phase := COMMIT_OPEN\<rparr>"])
     (auto simp: on_open_commit_def abs_session_def phase_step_iff)

lemma commit_refines:
  assumes "session_wf s" "blockers s = []" "ev_type e = commit" "state s = COMMIT_OPEN"
  shows "refines sha p e s ((=) (on_commit p e s))"
  by (rule refinesI [where G = "occurred_at e \<le> commit_deadline p \<and>
          dict_get (commitments s) (proposal_id e) = None \<and>
          actor_principal_id e \<notin> committed_by (abs_session s)"
        and \<upsilon> = "(abs_session s)\<lparr>commits := (dict_get (commitments s))
          (proposal_id e \<mapsto> (actor_principal_id e, commitment_digest e))\<rparr>"])
     (use assms on_commit_clean [OF assms(1,2), of p e] on_commit_wf [OF assms(1), of e p] in
       \<open>auto simp: phase_step_iff on_commit_abs\<close>)

lemma close_commit_refines:
  "session_wf s \<Longrightarrow> blockers s = [] \<Longrightarrow> ev_type e = close_commit \<Longrightarrow> state s = COMMIT_OPEN \<Longrightarrow>
   refines sha p e s ((=) (on_close_commit p e s))"
  by (rule refinesI [where G = "actor_principal_id e = plan_principal_id p \<and>
          required_proposal_count p \<le> int (length (commitments s))"
        and \<upsilon> = "(abs_session s)\<lparr>phase := COMMIT_CLOSED\<rparr>"])
     (auto simp: on_close_commit_def abs_session_def phase_step_iff session_wf_dicts)

lemma open_reveal_refines:
  "session_wf s \<Longrightarrow> blockers s = [] \<Longrightarrow> ev_type e = open_reveal \<Longrightarrow> state s = COMMIT_CLOSED \<Longrightarrow>
   refines sha p e s ((=) (on_open_reveal p e s))"
  by (rule refinesI [where G = "actor_principal_id e = plan_principal_id p"
        and \<upsilon> = "(abs_session s)\<lparr>phase := REVEAL_OPEN\<rparr>"])
     (auto simp: on_open_reveal_def abs_session_def phase_step_iff)

lemma reveal_refines:
  assumes "session_wf s" "blockers s = []" "ev_type e = reveal" "state s = REVEAL_OPEN"
  shows "refines sha p e s (\<lambda>s'. on_reveal sha p e s = Inr s')"
  by (rule refinesI_update [OF on_reveal_clean [OF assms(2)]])
     (use assms session_wf_reveals [OF assms(1)] in
       \<open>auto simp: phase_step_iff abs_session_def dict_get_upd\<close>)

lemma exposure_refines:
  "session_wf s \<Longrightarrow> blockers s = [] \<Longrightarrow> ev_type e = exposure \<Longrightarrow>
   state s \<in> {COMMIT_OPEN, REVEAL_OPEN, VERIFY} \<Longrightarrow> refines sha p e s ((=) (on_exposure p e s))"
  by (rule refinesI [where G =
          "\<exists>r. recipient_principal_id e = Some r \<and> r \<in> set (participant_principals p)"
        and \<upsilon> = "(abs_session s)\<lparr>exposures := exposure_count s + 1\<rparr>"])
     (auto simp: on_exposure_def abs_session_def phase_step_iff split: option.splits)

lemma verification_refines:
  assumes "session_wf s" "blockers s = []" "ev_type e = verification" "state s \<in> {REVEAL_OPEN, VERIFY}"
  shows "refines sha p e s (\<lambda>s'. on_verification p e s = Inr s')"
  by (rule refinesI_update [OF on_verification_clean [OF assms(1,2)]])
     (use assms(3,4) session_wf_verified [OF assms(1)] in
       \<open>auto simp: phase_step_iff abs_session_def dict_get_upd dict_get_default_upd session_wf_def\<close>)

lemma integration_refines:
  "session_wf s \<Longrightarrow> blockers s = [] \<Longrightarrow> ev_type e = integration \<Longrightarrow> state s = VERIFY \<Longrightarrow>
   refines sha p e s ((=) (on_integration p e s))"
  by (rule refinesI [where G = "actor_principal_id e = integration_principal_id p \<and>
          reveals s \<noteq> [] \<and> (\<forall>a \<in> set (dict_values (reveals s)). dict_get (verified s) a = Some (Some passed))"
        and \<upsilon> = "(abs_session s)\<lparr>phase := INTEGRATE\<rparr>"])
     (auto simp: on_integration_def abs_session_def phase_step_iff session_wf_dicts list_all_iff
        dict_get_empty_iff)

lemma terminate_refines:
  "session_wf s \<Longrightarrow> blockers s = [] \<Longrightarrow> ev_type e = terminate \<Longrightarrow> state s = INTEGRATE \<Longrightarrow>
   refines sha p e s ((=) (on_terminate p e s))"
  by (rule refinesI [where G = "actor_principal_id e = integration_principal_id p \<and>
          (term_reason e = Some all_verified \<longrightarrow> set (dict_values (verified s)) \<subseteq> {Some passed})"
        and \<upsilon> = "(abs_session s)\<lparr>phase := TERMINATED\<rparr>"])
     (auto simp: on_terminate_def abs_session_def phase_step_iff session_wf_dicts list_all_iff)

lemmas handler_refines = open_commit_refines commit_refines close_commit_refines
  open_reveal_refines reveal_refines exposure_refines verification_refines integration_refines
  terminate_refines

lemma coord_branch_refines:
  assumes "session_wf s" "blockers s = []"
  shows "refines sha p e s (\<lambda>s'. coord_branch sha p e s = Inr s')"
  using handler_refines [OF assms, of e]
  by (cases "ev_type e"; cases "state s")
     (simp_all add: coord_branch_def refines_stuck phase_step_iff)

lemma coord_step_refines:
  assumes "session_wf s" and "blockers s = []"
  shows "protocol_step sha p dg signers at e (abs_session s) \<tau> \<longleftrightarrow>
    (\<exists>s'. coord_step sha p dg signers at e s = Inr s' \<and> blockers s' = [] \<and> session_wf s' \<and>
      abs_session s' = \<tau>)"
proof (cases "blockers (event_checks p dg signers at e s) = []")
  case True
  have "refines sha p e (event_checks p dg signers at e s)
      (\<lambda>s'. coord_step sha p dg signers at e s = Inr s')"
    unfolding coord_step_def by (rule coord_branch_refines) (use assms True in simp_all)
  with True show ?thesis
    by (simp add: refines_def protocol_step_def event_checks_clean event_checks_abs)
next
  case False
  then have "\<not> admissible p dg signers at (abs_session s) e"
    using assms(2) by (simp add: event_checks_clean)
  moreover have "blockers s' \<noteq> []" if "coord_step sha p dg signers at e s = Inr s'" for s'
    using that coord_branch_blockers False unfolding coord_step_def by fastforce
  ultimately show ?thesis by (auto simp: protocol_step_def)
qed

lemma coord_step_wf:
  assumes "session_wf s" and "blockers s = []" and "coord_step sha p dg signers at e s = Inr s'"
    and "blockers s' = []"
  shows "session_wf s'"
proof -
  have clean: "blockers (event_checks p dg signers at e s) = []"
    using assms(3,4) coord_branch_blockers unfolding coord_step_def by fastforce
  then show ?thesis
    using coord_branch_refines [of "event_checks p dg signers at e s" sha p e] assms
    unfolding refines_def coord_step_def by simp
qed

lemma coord_run_refines:
  assumes "session_wf s" and "blockers s = []"
  shows "protocol_run sha p dg signers at (abs_session s) es \<tau> \<longleftrightarrow>
    (\<exists>s'. fold_res (coord_step sha p dg signers at) es s = Inr s' \<and> blockers s' = [] \<and>
      session_wf s' \<and> abs_session s' = \<tau>)"
  using assms
proof (induction es arbitrary: s)
  case Nil
  then show ?case by auto
next
  case (Cons e es)
  let ?fold = "fold_res (coord_step sha p dg signers at)"
  have clean: "blockers t = []" if "?fold es t = Inr s'" "blockers s' = []" for t s'
    using fold_coord_step_blockers [OF that(1)] that(2) by simp
  have "protocol_run sha p dg signers at (abs_session s) (e # es) \<tau> \<longleftrightarrow>
     (\<exists>t. coord_step sha p dg signers at e s = Inr t \<and> blockers t = [] \<and> session_wf t \<and>
        protocol_run sha p dg signers at (abs_session t) es \<tau>)"
    by (auto simp: coord_step_refines [OF Cons.prems])
  also have "\<dots> \<longleftrightarrow> (\<exists>t s'. coord_step sha p dg signers at e s = Inr t \<and> blockers t = [] \<and> session_wf t \<and>
        ?fold es t = Inr s' \<and> blockers s' = [] \<and> session_wf s' \<and> abs_session s' = \<tau>)"
    using Cons.IH by blast
  also have "\<dots> \<longleftrightarrow> (\<exists>s'. ?fold (e # es) s = Inr s' \<and> blockers s' = [] \<and> session_wf s' \<and>
        abs_session s' = \<tau>)"
    using clean coord_step_wf [OF Cons.prems] by auto
  finally show ?case .
qed

lemma coord_fold_wf:
  "fold_res (coord_step sha p dg signers at) es s = Inr s' \<Longrightarrow> blockers s' = [] \<Longrightarrow> session_wf s \<Longrightarrow>
   session_wf s'"
proof (induction es arbitrary: s)
  case (Cons e es)
  then obtain t where t: "coord_step sha p dg signers at e s = Inr t"
    "fold_res (coord_step sha p dg signers at) es t = Inr s'" by auto
  have "blockers t = []" using fold_coord_step_blockers [OF t(2)] Cons.prems(2) by simp
  moreover from this have "blockers s = []" using coord_step_blockers [OF t(1)] by simp
  ultimately show ?case using Cons t coord_step_wf by metis
qed simp

lemma initial_session_abs: "abs_session (initial_session p bs) = proto_init"
proof -
  have "dict_get_default (map (\<lambda>v. (v, 0)) vs) x 0 = (0::int)" for vs :: "ident list" and x
    by (induction vs) (auto simp: dict_get_default_def)
  then show ?thesis
    by (auto simp: initial_session_def abs_session_def proto_init_def)
qed

lemma initial_session_wf: "session_wf (initial_session p bs)"
  by (simp add: initial_session_def session_wf_def dict_keys_def dict_get_empty_iff [THEN iffD2])

lemma final_checks_clean:
  "blockers (final_checks p at s) = [] \<longleftrightarrow>
   blockers s = [] \<and> exposure_count s \<le> maximum_exposures p \<and> state s = TERMINATED"
  by (auto simp: final_checks_def)

section \<open>The chain walk\<close>

definition linked :: "(event_spec \<Rightarrow> digest) \<Rightarrow> event_spec list \<Rightarrow> bool" where
  "linked dg es \<longleftrightarrow> es \<noteq> [] \<and> prior_event_digest (hd es) = None \<and>
     successively (\<lambda>e f. prior_event_digest f = Some (dg e)) es"

lemma linked_snoc:
  "linked dg es \<Longrightarrow> prior_event_digest e = Some (dg (last es)) \<Longrightarrow> linked dg (es @ [e])"
  by (auto simp: linked_def successively_append_iff)

lemma linked_prior:
  assumes "linked dg es" and "Suc i < length es"
  shows "prior_event_digest (es ! Suc i) = Some (dg (es ! i))"
  using assms by (simp add: linked_def successively_conv_nth)

lemma linked_distinct:
  assumes "linked dg es" and inj: "inj_on dg (set es)"
  shows "distinct es"
proof -
  have "es ! i \<noteq> es ! j" if "i < j" "j < length es" for i j
    using that
  proof (induction i arbitrary: j)
    case 0
    then obtain k where "j = Suc k" by (cases j) auto
    then have "prior_event_digest (es ! j) \<noteq> None" using linked_prior [OF assms(1), of k] 0 by simp
    moreover have "prior_event_digest (es ! 0) = None"
      using assms(1) by (auto simp: linked_def hd_conv_nth)
    ultimately show ?case by metis
  next
    case (Suc i)
    then obtain k where k: "j = Suc k" "i < k" by (cases j) auto
    have "es ! i \<noteq> es ! k" using Suc k by simp
    moreover have "es ! i \<in> set es" "es ! k \<in> set es" using Suc k by auto
    ultimately have "dg (es ! i) \<noteq> dg (es ! k)" using inj by (meson inj_onD)
    then show ?case
      using linked_prior [OF assms(1), of i] linked_prior [OF assms(1), of k] Suc k by auto
  qed
  then show ?thesis by (simp add: distinct_conv_nth nat_neq_iff) metis
qed

lemma in_by_prior [simp]: "e \<in> set (by_prior es q) \<longleftrightarrow> e \<in> set es \<and> prior_event_digest e = q"
  by (auto simp: by_prior_def)

definition walk_inv ::
  "(event_spec \<Rightarrow> digest) \<Rightarrow> event_spec list \<Rightarrow> event_spec list \<Rightarrow> digest list \<Rightarrow> bool" where
  "walk_inv dg events es seen \<longleftrightarrow>
     linked dg es \<and> set es \<subseteq> set events \<and> set seen = dg ` set es"

lemma walk_inv_next:
  assumes "walk_inv dg events es seen" and "by_prior events (Some (dg (last es))) \<noteq> []"
  shows "walk_inv dg events (es @ [hd (by_prior events (Some (dg (last es))))])
           (dg (hd (by_prior events (Some (dg (last es))))) # seen)"
proof -
  have "hd (by_prior events (Some (dg (last es)))) \<in> set (by_prior events (Some (dg (last es))))"
    using assms(2) by (rule hd_in_set)
  with assms(1) show ?thesis by (auto simp: walk_inv_def intro: linked_snoc)
qed

lemma chain_walk_inv:
  assumes "chain_walk dg events current seen ordered = Some r"
    and "walk_inv dg events (ordered @ [current]) (dg current # seen)"
  shows "walk_inv dg events (fst (snd r)) (fst r)"
proof -
  have "walk_inv dg events (ordered @ [current]) (dg current # seen) \<longrightarrow>
      walk_inv dg events (fst (snd r)) (fst r)"
  proof (rule chain_walk.raw_induct [where P = "\<lambda>dg events current seen ordered r.
      walk_inv dg events (ordered @ [current]) (dg current # seen) \<longrightarrow>
      walk_inv dg events (fst (snd r)) (fst r)", OF _ assms(1)])
    fix walk dg events current seen ordered r
    assume IH: "\<And>dg events current seen ordered r. walk dg events current seen ordered = Some r \<Longrightarrow>
        walk_inv dg events (ordered @ [current]) (dg current # seen) \<longrightarrow>
        walk_inv dg events (fst (snd r)) (fst r)"
      and run: "(let seen' = dg current # seen; ordered' = ordered @ [current];
          children = by_prior events (Some (dg current))
        in if 1 < length children
           then Some (seen', ordered', [''coordination_event_chain_fork:'' @ event_id current])
           else if children = [] then Some (seen', ordered', [])
           else walk dg events (hd children) seen' ordered') = Some r"
    show "walk_inv dg events (ordered @ [current]) (dg current # seen) \<longrightarrow>
        walk_inv dg events (fst (snd r)) (fst r)"
      using run IH [of dg events "hd (by_prior events (Some (dg current)))" "dg current # seen"
          "ordered @ [current]" r] walk_inv_next [of dg events "ordered @ [current]" "dg current # seen"]
      by (auto simp: Let_def split: if_splits)
  qed
  with assms(2) show ?thesis by blast
qed

lemma chain_walk_returns:
  assumes "inj_on dg (set events)" and "walk_inv dg events (ordered @ [current]) (dg current # seen)"
  shows "\<exists>r. chain_walk dg events current seen ordered = Some r"
  using assms(2)
proof (induction "card (set events - set ordered)" arbitrary: current seen ordered
    rule: less_induct)
  case less
  let ?es = "ordered @ [current]" and ?ch = "by_prior events (Some (dg current))"
  have sub: "set ?es \<subseteq> set events" and lk: "linked dg ?es"
    using less.prems by (simp_all add: walk_inv_def)
  have "distinct ?es" using lk inj_on_subset [OF assms(1) sub] by (rule linked_distinct)
  then have "card (set events - set ?es) < card (set events - set ordered)"
    using sub by (intro psubset_card_mono) auto
  moreover have "?ch \<noteq> [] \<Longrightarrow> walk_inv dg events (?es @ [hd ?ch]) (dg (hd ?ch) # dg current # seen)"
    using walk_inv_next [OF less.prems] by simp
  ultimately have "?ch \<noteq> [] \<Longrightarrow> \<exists>r. chain_walk dg events (hd ?ch) (dg current # seen) ?es = Some r"
    using less.hyps by blast
  then show ?case by (subst chain_walk.simps) (auto simp: Let_def)
qed

lemma linked_inj_card:
  assumes "linked dg es" "set es \<subseteq> set events" "card (dg ` set es) = length events"
  shows "mset es = mset events \<and> inj_on dg (set events)"
proof -
  have le: "card (dg ` set es) \<le> card (set es)" "card (set es) \<le> card (set events)"
    "card (set events) \<le> length events"
    using assms(2) by (simp_all add: card_image_le card_mono card_length)
  then have eq: "card (set es) = card (set events)" "card (set events) = length events"
    "card (dg ` set es) = card (set es)"
    using assms(3) by simp_all
  then have same: "set es = set events" using assms(2) by (simp add: card_subset_eq)
  have inj: "inj_on dg (set es)" using eq(3) by (simp add: eq_card_imp_inj_on)
  have "distinct es" using assms(1) inj by (rule linked_distinct)
  moreover have "distinct events" using eq(2) by (simp add: card_distinct)
  ultimately have "mset es = mset events" using same by (simp add: set_eq_iff_mset_eq_distinct)
  moreover have "inj_on dg (set events)" using inj unfolding same .
  ultimately show ?thesis ..
qed

lemma root_inv:
  assumes "length (by_prior events None) = 1"
  shows "walk_inv dg events ([] @ [hd (by_prior events None)]) [dg (hd (by_prior events None))]"
proof -
  have "by_prior events None \<noteq> []" using assms by auto
  then have "hd (by_prior events None) \<in> set (by_prior events None)" by (rule hd_in_set)
  then show ?thesis by (auto simp: walk_inv_def linked_def)
qed

lemma ordered_events_clean:
  assumes "ordered_events dg events = Some (ordered, [])"
  shows "linked dg ordered \<and> mset ordered = mset events \<and> inj_on dg (set events)"
proof -
  have one: "length (by_prior events None) = 1"
    using assms by (auto simp: ordered_events_def Let_def split: if_splits)
  obtain seen where walk: "chain_walk dg events (hd (by_prior events None)) [] [] = Some (seen, ordered, [])"
    and card: "card (set seen) = length events"
    using assms by (auto simp: ordered_events_def Let_def split: if_splits option.splits)
  have "walk_inv dg events ordered seen"
    using chain_walk_inv [OF walk] root_inv [OF one] by simp
  then show ?thesis using card linked_inj_card by (auto simp: walk_inv_def)
qed

lemma events_protocol_run:
  "(\<exists>s. validate_events sha dg pdg p ordered chain at signers = Inr s \<and> blockers s = []) =
   (chain = [] \<and> \<not> signer_missing signers (pdg p) (plan_principal_id p) \<and>
    (\<exists>\<sigma>. protocol_run sha p dg signers at proto_init ordered \<sigma> \<and> phase \<sigma> = TERMINATED \<and>
       exposures \<sigma> \<le> maximum_exposures p))"
proof -
  let ?bs = "chain @ note_if (signer_missing signers (pdg p) (plan_principal_id p))
    ''coordination_plan_signer_mismatch''"
  have "(\<exists>s. validate_events sha dg pdg p ordered chain at signers = Inr s \<and> blockers s = []) =
      (\<exists>s. fold_res (coord_step sha p dg signers at) ordered (initial_session p ?bs) = Inr s \<and>
         blockers s = [] \<and> exposure_count s \<le> maximum_exposures p \<and> state s = TERMINATED)"
    by (auto simp: validate_events_def final_checks_clean)
  also have "\<dots> = (?bs = [] \<and> (\<exists>s. fold_res (coord_step sha p dg signers at) ordered
      (initial_session p []) = Inr s \<and> blockers s = [] \<and> session_wf s \<and>
      exposures (abs_session s) \<le> maximum_exposures p \<and> phase (abs_session s) = TERMINATED))"
  proof -
    have "?bs = []" if "fold_res (coord_step sha p dg signers at) ordered (initial_session p ?bs) = Inr s"
      "blockers s = []" for s
      using fold_coord_step_blockers [OF that(1)] that(2) by (simp add: initial_session_def)
    moreover have "session_wf s" if "fold_res (coord_step sha p dg signers at) ordered
        (initial_session p []) = Inr s" "blockers s = []" for s
      using coord_run_refines [of "initial_session p []" sha p dg signers at ordered "abs_session s"]
        that initial_session_wf by (metis (no_types, lifting) coord_fold_wf)
    ultimately show ?thesis by (metis abs_session_simps(1,6))
  qed
  also have "\<dots> = (?bs = [] \<and> (\<exists>\<sigma>. protocol_run sha p dg signers at proto_init ordered \<sigma> \<and>
      phase \<sigma> = TERMINATED \<and> exposures \<sigma> \<le> maximum_exposures p))"
    using coord_run_refines [OF initial_session_wf, of p "[]" sha p dg signers at ordered]
    by (simp add: initial_session_abs) (auto simp: initial_session_def)
  finally show ?thesis by auto
qed

text \<open>
  C36: the walk over the event hash chain ends, whatever the events refer to, as long as no two
  events of the session share a digest.
\<close>

theorem ordered_events_returns:
  assumes "inj_on dg (set events)"
  shows "\<exists>ordered blockers. ordered_events dg events = Some (ordered, blockers)"
proof (cases "length (by_prior events None) = 1")
  case True
  then obtain r where "chain_walk dg events (hd (by_prior events None)) [] [] = Some r"
    using chain_walk_returns [OF assms] root_inv by (metis append_Nil)
  with True show ?thesis by (cases r) (simp add: ordered_events_def Let_def)
next
  case False
  then show ?thesis by (simp add: ordered_events_def Let_def)
qed

section \<open>The validator against the protocol\<close>

text \<open>
  C4: over an event sequence the validator reports no blocker exactly when the chain had none, the
  plan is signed by its principal, and the sequence is a run of the protocol that ends in
  \<open>TERMINATED\<close> within the exposure limit.
\<close>

theorem validate_events_iff_protocol_run:
  "(\<exists>s. validate_events sha dg pdg p ordered chain at signers = Inr s \<and> blockers s = []) =
   (chain = [] \<and> \<not> signer_missing signers (pdg p) (plan_principal_id p) \<and>
    (\<exists>\<sigma>. protocol_run sha p dg signers at proto_init ordered \<sigma> \<and> phase \<sigma> = TERMINATED \<and>
       exposures \<sigma> \<le> maximum_exposures p))"
  by (rule events_protocol_run)

lemma make_dimension_result_Inr [simp]:
  "make_dimension_result st bs es d = Inr r \<longleftrightarrow>
     list_all is_identifier bs \<and> length bs \<le> 10000 \<and> length es \<le> 10000 \<and> length d \<le> 4096 \<and>
     r = \<lparr>dr_status = st, dr_blockers = bs, dr_evidence = es, dr_detail = d\<rparr>"
  by (auto simp: make_dimension_result_def)

text \<open>
  C13: a session the validator calls satisfied has one plan, its events form one hash chain that
  lists each of them once, and that chain is a run of the commit-reveal protocol to
  \<open>TERMINATED\<close>. In its last state every revealed artifact opens an earlier commitment of the same
  actor, no participant committed twice, the proposal quota was met, every verifier stayed
  within its capacity, and every revealed artifact was verified as passed.
\<close>

theorem validate_coordination_satisfied:
  assumes "validate_coordination sha dg pdg objects at signers = Some (Inr r)"
    and "dr_status r = Satisfied"
  shows "\<exists>p ordered \<sigma>. plans_of objects = [p] \<and> linked dg ordered \<and>
    mset ordered = mset (session_events objects (session_id p)) \<and>
    protocol_run sha p dg signers at proto_init ordered \<sigma> \<and> phase \<sigma> = TERMINATED \<and>
    exposures \<sigma> \<le> maximum_exposures p \<and> binding_inv sha p \<sigma> \<and> once_inv \<sigma> \<and> quota_inv p \<sigma> \<and>
    verified_inv \<sigma>"
proof -
  obtain p where plan: "plans_of objects = [p]"
    using assms by (auto simp: validate_coordination_def split: list.splits)
  let ?evs = "session_events objects (session_id p)"
  obtain ordered chain where oe: "ordered_events dg ?evs = Some (ordered, chain)"
    using assms(1) plan by (auto simp: validate_coordination_def split: option.splits)
  obtain s where s: "validate_events sha dg pdg p ordered chain at signers = Inr s" "blockers s = []"
    using assms plan oe by (auto simp: validate_coordination_def split: if_splits)
  then obtain \<sigma> where run: "chain = []" "protocol_run sha p dg signers at proto_init ordered \<sigma>"
    "phase \<sigma> = TERMINATED" "exposures \<sigma> \<le> maximum_exposures p"
    using events_protocol_run [of sha dg pdg p ordered chain at signers] by blast
  have "linked dg ordered" "mset ordered = mset ?evs"
    using ordered_events_clean oe run(1) by auto
  moreover have "proto_inv sha p \<sigma>" using protocol_run_inv [OF run(2) proto_inv_init] .
  ultimately show ?thesis using plan run unfolding proto_inv_def by blast
qed

text \<open>
  C38: a blocker longer than an \<open>Identifier\<close> (128 characters) does not make the session
  \<open>violated\<close>: building the \<open>DimensionResult\<close> raises a validation error instead. Blockers carry a
  prefix in front of identifiers that may themselves be 128 characters long.
\<close>

theorem validate_coordination_long_blocker:
  assumes "plans_of objects = [p]"
    and "ordered_events dg (session_events objects (session_id p)) = Some (ordered, chain)"
    and "validate_events sha dg pdg p ordered chain at signers = Inr s"
    and "b \<in> set (blockers s)" and "128 < length b"
  shows "validate_coordination sha dg pdg objects at signers = Some (Inl (ValidationErr ''DimensionResult''))"
proof -
  have "\<not> is_identifier b" using assms(5) by (auto simp: is_identifier_def split: list.splits)
  then have "\<not> list_all is_identifier (sorted_set (blockers s))" using assms(4) by (auto simp: list_all_iff)
  then show ?thesis
    using assms(1-3) by (simp add: validate_coordination_def make_dimension_result_def)
qed

section \<open>A complete session\<close>

definition demo_plan :: plan_spec where
  "demo_plan = \<lparr>session_id = ''s'', plan_principal_id = ''a'', integration_principal_id = ''a'',
     participant_principals = [''a'', ''b''], verifier_principals = [''b''],
     verifier_capacity = [(''b'', 1)], required_proposal_count = 1, commit_deadline = 10,
     reveal_deadline = 20, termination_deadline = 30, maximum_exposures = 1\<rparr>"

definition demo_event :: "ident \<Rightarrow> event_type \<Rightarrow> ident \<Rightarrow> time \<Rightarrow> digest option \<Rightarrow> event_spec" where
  "demo_event i k a t prior = \<lparr>ev_session_id = ''s'', event_id = i, ev_type = k, actor_principal_id = a,
     occurred_at = t, proposal_id = Some ''p'', recipient_principal_id = Some ''b'',
     artifact_digest = Some ''art'', commitment_digest = Some ''c'', ver_status = Some passed,
     term_reason = Some all_verified, prior_event_digest = prior\<rparr>"

definition demo_events :: "event_spec list" where
  "demo_events =
     [demo_event ''e7'' integration ''a'' 7 (Some ''e6''), demo_event ''e1'' open_commit ''a'' 1 None,
      demo_event ''e2'' commit ''b'' 2 (Some ''e1''), demo_event ''e3'' close_commit ''a'' 3 (Some ''e2''),
      demo_event ''e4'' open_reveal ''a'' 4 (Some ''e3''), demo_event ''e5'' reveal ''b'' 5 (Some ''e4''),
      demo_event ''e6'' verification ''b'' 6 (Some ''e5''),
      demo_event ''e8'' terminate ''a'' 8 (Some ''e7'')]"

definition demo_objects :: "(digest, document) dict" where
  "demo_objects = (''plan'', PlanDoc demo_plan) # map (\<lambda>e. (event_id e, EventDoc e)) demo_events"

definition demo_result :: dimension_result where
  "demo_result = \<lparr>dr_status = Satisfied, dr_blockers = [],
     dr_evidence = [''plan'', ''e1'', ''e2'', ''e3'', ''e4'', ''e5'', ''e6'', ''e7'', ''e8''],
     dr_detail = ''terminal_state=TERMINATED;reveals=1;verified=1''\<rparr>"



lemmas canon_eval = canonical_bytes_def text_of_def json_opt_def encode_str_def escape_char_def utf8_def
  utf8_char_def utf16_be_def utf16_unit_def

lemmas session_eval = coord_step_def event_checks_def add_blockers_def note_if_def coord_branch_def
  branch_defs on_reveal_def on_verification_def demo_plan_def demo_event_def initial_session_def
  dict_keys_def dict_values_def dict_get_def dict_set_def dict_get_default_def final_checks_def

lemmas chain_eval = ordered_events_def demo_events_def demo_event_def by_prior_def chain_walk.simps

lemma signer_missing_None [simp]: "signer_missing None d p = False"
  by (simp add: signer_missing_def)

lemma demo_commitment:
  "proposal_commitment_digest (\<lambda>_. ''c'') ''s'' (Some ''p'') ''b'' (Some ''art'') = Inr ''c''"
  by (simp add: proposal_commitment_digest_def commitment_preimage_def canon_eval)

definition demo_ordered :: "event_spec list" where
  "demo_ordered = tl (take 7 demo_events) @ [hd demo_events, last demo_events]"

lemma demo_chain: "ordered_events event_id demo_events = Some (demo_ordered, [])"
  by (simp add: chain_eval demo_ordered_def)

definition demo_session :: session where
  "demo_session = \<lparr>blockers = [], commitments = [(Some ''p'', ''b'', Some ''c'')],
     reveals = [(Some ''p'', Some ''art'')], verified = [(Some ''art'', Some passed)],
     verifier_load = [(''b'', 1)], committed_actors = [''b''], state = TERMINATED,
     exposure_count = 0, previous_time = Some 8\<rparr>"

lemma demo_run:
  "validate_events (\<lambda>_. ''c'') event_id (\<lambda>_. ''plan'') demo_plan demo_ordered [] 9 None = Inr demo_session"
  by (simp add: validate_events_def demo_ordered_def demo_events_def session_eval demo_session_def
      demo_commitment)

lemma demo_session_events: "session_events demo_objects ''s'' = demo_events"
  by (simp add: session_events_def demo_objects_def dict_values_def demo_events_def demo_event_def)

lemma demo_plans: "plans_of demo_objects = [demo_plan]"
  by (simp add: plans_of_def demo_objects_def dict_values_def demo_events_def)

lemma demo_validates:
  "validate_coordination (\<lambda>_. ''c'') event_id (\<lambda>_. ''plan'') demo_objects 9 None = Some (Inr demo_result)"
proof -
  have "session_id demo_plan = ''s''" by (simp add: demo_plan_def)
  then show ?thesis
    by (simp add: validate_coordination_def demo_plans demo_session_events demo_chain demo_run)
       (simp add: demo_session_def demo_result_def sorted_set_def session_detail_def show_nat.simps
         demo_ordered_def demo_events_def demo_event_def char_of_def bit_0)
qed

theorem validate_coordination_satisfied_witness:
  "\<exists>p ordered \<sigma>. plans_of demo_objects = [p] \<and> linked event_id ordered \<and>
    mset ordered = mset (session_events demo_objects (session_id p)) \<and>
    protocol_run (\<lambda>_. ''c'') p event_id None 9 proto_init ordered \<sigma> \<and> phase \<sigma> = TERMINATED \<and>
    exposures \<sigma> \<le> maximum_exposures p \<and> binding_inv (\<lambda>_. ''c'') p \<sigma> \<and> once_inv \<sigma> \<and>
    quota_inv p \<sigma> \<and> verified_inv \<sigma>"
  by (rule validate_coordination_satisfied [OF demo_validates]) (simp add: demo_result_def)

theorem ordered_events_returns_witness:
  "inj_on event_id (set demo_events) \<and>
   (\<exists>ordered blockers. ordered_events event_id demo_events = Some (ordered, blockers))"
proof -
  have "inj_on event_id (set demo_events)"
    by (simp add: demo_events_def demo_event_def)
  then show ?thesis using ordered_events_returns by blast
qed

definition late_event :: event_spec where
  "late_event = demo_event (replicate 128 (CHR ''x'')) open_commit ''a'' 50 None"

definition late_objects :: "(digest, document) dict" where
  "late_objects = [(''plan'', PlanDoc demo_plan), (''e'', EventDoc late_event)]"

theorem validate_coordination_long_blocker_witness:
  "validate_coordination (\<lambda>_. ''c'') event_id (\<lambda>_. ''plan'') late_objects 9 None =
     Some (Inl (ValidationErr ''DimensionResult''))"
proof -
  have plans: "plans_of late_objects = [demo_plan]"
    by (simp add: plans_of_def late_objects_def dict_values_def)
  have events: "session_events late_objects (session_id demo_plan) = [late_event]"
    by (simp add: session_events_def late_objects_def dict_values_def late_event_def demo_event_def
        demo_plan_def)
  have chain: "ordered_events event_id [late_event] = Some ([late_event], [])"
    by (simp add: ordered_events_def by_prior_def chain_walk.simps late_event_def demo_event_def)
  obtain s where run: "validate_events (\<lambda>_. ''c'') event_id (\<lambda>_. ''plan'') demo_plan [late_event] [] 9 None = Inr s"
    "''coordination_event_from_future:'' @ replicate 128 (CHR ''x'') \<in> set (blockers s)"
    by (simp add: validate_events_def session_eval late_event_def)
  show ?thesis
    by (rule validate_coordination_long_blocker [OF plans _ run]) (simp_all add: events chain)
qed

end
