(* ===== verification/Coordination_Binding.thy ===== *)
theory Coordination_Binding
  imports Canonical_Injective Coordination_Protocol
begin

text \<open>
  What a commitment of \<open>v6/coordination.py\<close> binds: \<open>proposal_commitment_digest\<close> is SHA-256 of
  canonical bytes, so by the injectivity of the encoding a digest without a collision determines
  the session, the proposal, the author and the artifact.
\<close>

lemma text_of_inj: "text_of s = text_of t \<longleftrightarrow> s = t"
  by (simp add: text_of_def inj_map_eq_map inj_def)

lemma json_opt_inj: "json_opt x = json_opt y \<longleftrightarrow> x = y"
  by (cases x; cases y) (simp_all add: json_opt_def text_of_inj)

lemma form_json_opt: "canonical_form (json_opt x) = json_opt x"
  by (cases x) (simp_all add: json_opt_def)

definition preimage_members :: "ident \<Rightarrow> ident option \<Rightarrow> ident \<Rightarrow> digest option \<Rightarrow> (pystr \<times> json) list" where
  "preimage_members s p a r =
     [(text_of ''domain'', JStr (text_of ''CPCF-COORDINATION-COMMITMENT-v0.6'')),
      (text_of ''session_id'', JStr (text_of s)), (text_of ''proposal_id'', json_opt p),
      (text_of ''actor_principal_id'', JStr (text_of a)), (text_of ''artifact_digest'', json_opt r)]"

lemma preimage_object: "commitment_preimage s p a r = JObj (preimage_members s p a r)"
  by (simp add: commitment_preimage_def preimage_members_def)

lemma form_preimage_members: "map form_member (preimage_members s p a r) = preimage_members s p a r"
  by (simp add: preimage_members_def form_member_def form_json_opt)

lemma preimage_names:
  "distinct [text_of ''domain'', text_of ''session_id'', text_of ''proposal_id'',
     text_of ''actor_principal_id'', text_of ''artifact_digest'']"
  by (simp add: text_of_inj)

lemma preimage_distinct: "distinct (map fst (preimage_members s p a r))"
  using preimage_names by (simp only: preimage_members_def list.map fst_conv)

lemma set_preimage:
  "set (map form_member (by_name (preimage_members s p a r))) = set (preimage_members s p a r)"
  by (metis form_preimage_members list.set_map set_sort)

lemma preimage_form_inj:
  assumes "canonical_form (commitment_preimage s p a r) = canonical_form (commitment_preimage s' p' a' r')"
  shows "s = s' \<and> p = p' \<and> a = a' \<and> r = r'"
proof -
  have "map form_member (by_name (preimage_members s p a r)) = map form_member (by_name (preimage_members s' p' a' r'))"
    using assms by (simp only: preimage_object form_object json.inject)
  then have "set (map form_member (by_name (preimage_members s p a r))) =
      set (map form_member (by_name (preimage_members s' p' a' r')))" by (rule arg_cong)
  then have "set (preimage_members s p a r) = set (preimage_members s' p' a' r')"
    by (simp only: set_preimage)
  then have "map_of (preimage_members s p a r) = map_of (preimage_members s' p' a' r')"
    using preimage_distinct map_of_inject_set by blast
  then have "map_of (preimage_members s p a r) k = map_of (preimage_members s' p' a' r') k" for k by simp
  from this [of "text_of ''session_id''"] this [of "text_of ''proposal_id''"]
    this [of "text_of ''actor_principal_id''"] this [of "text_of ''artifact_digest''"]
  show ?thesis by (simp add: preimage_members_def text_of_inj json_opt_inj)
qed

text \<open>
  C31: A commitment digest binds: with no SHA-256 collision between the two preimages, equal digests
  come from the same session, proposal, author and artifact.
\<close>

theorem proposal_commitment_binds:
  assumes "proposal_commitment_digest sha s p a r = Inr d"
    and "proposal_commitment_digest sha s' p' a' r' = Inr d"
    and "\<And>b c. canonical_bytes (commitment_preimage s p a r) = Inr b \<Longrightarrow>
      canonical_bytes (commitment_preimage s' p' a' r') = Inr c \<Longrightarrow> sha b = sha c \<Longrightarrow> b = c"
  shows "s = s' \<and> p = p' \<and> a = a' \<and> r = r'"
proof -
  obtain b c where "canonical_bytes (commitment_preimage s p a r) = Inr b"
    "canonical_bytes (commitment_preimage s' p' a' r') = Inr c" "sha b = sha c"
    using assms(1,2) by (auto simp: proposal_commitment_digest_def)
  then have "canonical_bytes (commitment_preimage s p a r) = Inr b"
    "canonical_bytes (commitment_preimage s' p' a' r') = Inr b" using assms(3) by blast+
  then show ?thesis using same_bytes_form preimage_form_inj by blast
qed

lemma commitment_digest_known:
  "\<exists>d. proposal_commitment_digest (\<lambda>b. map char_of b) ''s'' (Some ''p'') ''alice'' (Some ''r'') = Inr d"
  by (simp add: proposal_commitment_digest_def commitment_preimage_def canon_eval)

theorem proposal_commitment_binds_witness:
  "\<exists>d. proposal_commitment_digest (\<lambda>b. map char_of b) ''s'' (Some ''p'') ''alice'' (Some ''r'') = Inr d \<and>
     (''s'' = ''s'' \<and> Some ''p'' = Some ''p'' \<and> ''alice'' = ''alice'' \<and> Some ''r'' = Some ''r'')"
proof -
  obtain d where d: "proposal_commitment_digest (\<lambda>b. map char_of b) ''s'' (Some ''p'') ''alice'' (Some ''r'') = Inr d"
    using commitment_digest_known by blast
  with proposal_commitment_binds [OF d d] show ?thesis by auto
qed

end
