(* ===== verification/Canonical_Reader.thy ===== *)
theory Canonical_Reader
  imports Canonical_Injective
begin

text \<open>
  The bounded reader of \<open>v6/canonical.py\<close> against the encoder: what \<open>_scan_nesting\<close> decides about
  the canonical bytes of a value, what \<open>_validate_tree\<close> accepts, and that \<open>_unique_object\<close> keeps the
  pairs it is given.
\<close>

section \<open>Nesting of encoded values\<close>

fun bracket_depth :: "json \<Rightarrow> nat" where
  "bracket_depth (JArr xs) = Suc (fold max (map bracket_depth xs) 0)"
| "bracket_depth (JObj kvs) = Suc (fold max (map (\<lambda>p. bracket_depth (snd p)) kvs) 0)"
| "bracket_depth j = 0"

lemma fold_max_le [simp]: "fold max xs a \<le> m \<longleftrightarrow> a \<le> m \<and> (\<forall>x \<in> set xs. x \<le> (m::nat))"
  by (induction xs arbitrary: a) auto

lemma scan_text:
  assumes "c \<notin> {34, 91, 93, 123, 125}"
  shows "scan_loop m (c # r) d False e = scan_loop m r d False e"
  using assms by simp

lemma scan_plain:
  assumes "\<forall>c \<in> set s. c \<notin> {34, 91, 93, 123, 125}"
  shows "scan_loop m (s @ r) d False e = scan_loop m r d False e"
  using assms
proof (induction s)
  case (Cons c s)
  then have "c \<notin> {34, 91, 93, 123, 125}" by simp
  then have "scan_loop m ((c # s) @ r) d False e = scan_loop m (s @ r) d False e"
    unfolding append_Cons by (rule scan_text)
  then show ?case using Cons by simp
qed simp

lemma hex_digit_range: "k < 16 \<Longrightarrow> 48 \<le> hex_digit k \<and> hex_digit k \<le> 102 \<and> hex_digit k \<noteq> 92"
  by (auto simp: hex_digit_def)

lemma scan_in_string: "c \<noteq> 34 \<Longrightarrow> c \<noteq> 92 \<Longrightarrow> scan_loop m (c # r) d True False = scan_loop m r d True False"
  by simp

lemma scan_escape: "scan_loop m (escape_char c @ r) d True False = scan_loop m r d True False"
proof (cases c rule: escape_cases)
  case control
  have "c div 16 < 16" using control(1) by (simp only: less_mult_imp_div_less)
  then have "48 \<le> hex_digit (c div 16)" "hex_digit (c div 16) \<noteq> 92"
    "48 \<le> hex_digit (c mod 16)" "hex_digit (c mod 16) \<noteq> 92" using hex_digit_range by simp_all
  then show ?thesis using escape_control [OF control] by simp
next
  case short
  then obtain x where "escape_char c = [92, x]" using escape_short by blast
  then show ?thesis by simp
qed (simp add: escape_plain)

lemma scan_string: "scan_loop m (encode_str s @ r) d False False = scan_loop m r d False False"
proof -
  have "scan_loop m (concat (map escape_char s) @ u) d True False = scan_loop m u d True False" for u
    by (induction s) (simp_all add: scan_escape)
  then show ?thesis by (simp add: encode_str_def)
qed

definition scans :: "nat \<Rightarrow> pystr \<Rightarrow> nat \<Rightarrow> bool" where
  "scans m t n \<longleftrightarrow> (\<forall>r d. 0 \<le> d \<longrightarrow> d \<le> int m \<longrightarrow> scan_loop m (t @ r) d False False =
     (if int n + d \<le> int m then scan_loop m r d False False else Inl (InputLimit ''json_nesting_too_deep'')))"

lemma scans_append:
  assumes "scans m t n" "scans m u k"
  shows "scans m (t @ u) (max n k)"
  using assms by (auto simp: scans_def max_def)

lemma scans_plain: "\<forall>c \<in> set t. c \<notin> {34, 91, 93, 123, 125} \<Longrightarrow> scans m t 0"
  using scan_plain by (auto simp: scans_def)

lemma scans_join:
  assumes "\<forall>x \<in> set xs. scans m (f x) (n x)"
  shows "scans m (join_comma (map f xs)) (fold max (map n xs) 0)"
proof -
  have "scans m (join_comma (map f xs)) k" if "\<forall>x \<in> set xs. scans m (f x) (n x)"
    "k = fold max (map n xs) 0" for k
    using that
  proof (induction xs arbitrary: k)
    case Nil
    then show ?case by (simp add: scans_def)
  next
    case (Cons x xs)
    have fold: "fold max ys (max a b) = max a (fold max ys b)" for ys :: "nat list" and a b
      by (induction ys arbitrary: b) (simp, simp, metis max.left_commute)
    have k: "k = max (n x) (fold max (map n xs) 0)" using Cons.prems(2) fold [of _ "n x" 0] by simp
    have tail: "scans m (join_comma (map f xs)) (fold max (map n xs) 0)" using Cons by simp
    have "scans m [44] 0" by (rule scans_plain) simp
    from scans_append [OF this tail] have "scans m ([44] @ join_comma (map f xs)) (fold max (map n xs) 0)" by simp
    from scans_append [OF _ this] have long: "scans m (f x @ [44] @ join_comma (map f xs)) k"
      using Cons.prems(1) k by simp
    show ?case
    proof (cases xs)
      case Nil
      then show ?thesis using Cons.prems k by simp
    next
      case (Cons y ys)
      then show ?thesis using long by simp
    qed
  qed
  then show ?thesis using assms by blast
qed

lemma scans_brackets:
  assumes "scans m t n" "(p = 91 \<or> p = 123)" "(q = 93 \<or> q = 125)"
  shows "scans m (p # t @ [q]) (Suc n)"
  unfolding scans_def
proof (intro allI impI)
  fix r d
  assume d: "0 \<le> d" "d \<le> int m"
  show "scan_loop m ((p # t @ [q]) @ r) d False False =
    (if int (Suc n) + d \<le> int m then scan_loop m r d False False else Inl (InputLimit ''json_nesting_too_deep''))"
  proof (cases "d + 1 \<le> int m")
    case True
    then have "scan_loop m ((p # t @ [q]) @ r) d False False = scan_loop m (t @ (q # r)) (d + 1) False False"
      using assms(2) by auto
    also have "\<dots> = (if int n + (d + 1) \<le> int m then scan_loop m (q # r) (d + 1) False False
        else Inl (InputLimit ''json_nesting_too_deep''))"
      using assms(1) True d by (simp add: scans_def del: scan_loop.simps)
    finally show ?thesis using assms(3) d by auto
  next
    case False
    then show ?thesis using assms(2) by auto
  qed
qed

lemma fold_max_perm: "set xs = set ys \<Longrightarrow> fold max xs (0::nat) = fold max ys 0"
  by (rule antisym) (use fold_max_le in \<open>metis order_refl zero_le\<close>)+

lemma scans_int: "scans m (encode_int i) 0"
proof -
  have "c \<notin> {34, 91, 93, 123, 125}" if "c \<in> set (encode_int i)" for c
    using that show_nat_chars [of c "nat \<bar>i\<bar>"] by (auto simp: encode_int_def split: if_splits)
  then show ?thesis by (intro scans_plain) blast
qed

lemma scans_str: "scans m (encode_str s) 0"
  using scan_string by (simp add: scans_def)

lemma scans_encode: "no_float v \<Longrightarrow> scans m (encode v) (bracket_depth v)"
proof (induction v rule: bracket_depth.induct)
  case (1 xs)
  then have "scans m (join_comma (map encode xs)) (fold max (map bracket_depth xs) 0)"
    by (intro scans_join) auto
  from scans_brackets [OF this, of 91 93] show ?case by simp
next
  case (2 kvs)
  have "scans m (encode_member p) (bracket_depth (snd p))" if "p \<in> set kvs" for p
  proof -
    have "scans m (encode_str (fst p)) 0" using scan_string by (simp add: scans_def)
    moreover have "scans m [58] 0" by (rule scans_plain) simp
    moreover have "scans m (encode (snd p)) (bracket_depth (snd p))" using 2 that by (cases p) auto
    ultimately show ?thesis
      unfolding encode_member_def using scans_append by (metis max_0L)
  qed
  then have "scans m (join_comma (map encode_member (by_name kvs)))
      (fold max (map (\<lambda>p. bracket_depth (snd p)) (by_name kvs)) 0)"
    by (intro scans_join) simp
  moreover have "fold max (map (\<lambda>p. bracket_depth (snd p)) (by_name kvs)) 0 =
      fold max (map (\<lambda>p. bracket_depth (snd p)) kvs) 0"
    by (rule fold_max_perm) simp
  ultimately show ?case
    using scans_brackets [of m "join_comma (map encode_member (by_name kvs))" _ 123 125]
    by (simp add: encode_object del: encode.simps)
qed (auto intro!: scans_plain scans_int scans_str simp: text_of_def)

text \<open>UTF-8 keeps the characters the scan looks at: every byte of a longer code is at least 128.\<close>

lemma utf8_char_bytes: "utf8_char c = Inr a \<Longrightarrow> a = [c] \<and> c < 128 \<or> (\<forall>b \<in> set a. 128 \<le> b) \<and> a \<noteq> [] \<and> 128 \<le> c"
  by (auto simp: utf8_char_def split: if_splits)

lemma scan_step_cong:
  assumes "\<And>d q e. scan_loop m u d q e = scan_loop m w d q e"
  shows "scan_loop m (b # u) d q e = scan_loop m (b # w) d q e"
  by (simp add: assms)

lemma scan_high_step: "128 \<le> b \<Longrightarrow> scan_loop m (b # r) d q e = scan_loop m r d q (e \<and> \<not> q)"
  by (cases q; cases e) simp_all

lemma scan_utf8:
  assumes "utf8 t = Inr b"
  shows "scan_loop m b d q e = scan_loop m t d q e"
proof -
  have "scan_loop m (concat bs) d q e = scan_loop m t d q e"
    if "list_all2 (\<lambda>c x. utf8_char c = Inr x) t bs" for bs
    using that
  proof (induction t bs arbitrary: d q e rule: list_all2_induct)
    case (Cons c t a bs)
    from utf8_char_bytes [OF Cons.hyps(1)] show ?case
    proof (elim disjE conjE)
      assume "a = [c]"
      then show ?thesis using scan_step_cong [OF Cons.IH] by simp
    next
      assume high: "\<forall>b \<in> set a. 128 \<le> b" "a \<noteq> []" "128 \<le> c"
      have "scan_loop m (a @ concat bs) d q e = scan_loop m (concat bs) d q (e \<and> \<not> q)"
        using high(1,2)
      proof (induction a arbitrary: e)
        case (Cons x a)
        then show ?case using scan_high_step [of x] by (cases "a = []") auto
      qed simp
      then show ?thesis using Cons.IH scan_high_step [OF high(3)] by simp
    qed
  qed simp
  then show ?thesis using assms by (auto simp: utf8_def map_res_Inr_iff)
qed

text \<open>
  C37: On canonical bytes the nesting scan, which never parses, decides exactly the bracket depth
  of the document: brackets and quotes inside strings never mislead it.
\<close>

theorem scan_nesting_canonical:
  assumes "canonical_bytes v = Inr b"
  shows "scan_nesting b m =
    (if bracket_depth v \<le> m then Inr () else Inl (InputLimit ''json_nesting_too_deep''))"
proof -
  have v: "no_float v" "utf8 (encode v) = Inr b"
    using assms v3_ok_no_float by (auto simp: canonical_bytes_unfold)
  have "scan_nesting b m = scan_loop m (encode v) 0 False False"
    using scan_utf8 [OF v(2)] by (simp add: scan_nesting_def)
  moreover have "scan_loop m (encode v @ []) 0 False False = (if int (bracket_depth v) + 0 \<le> int m
      then scan_loop m [] 0 False False else Inl (InputLimit ''json_nesting_too_deep''))"
    using scans_encode [OF v(1), of m] by (simp only: scans_def)
  ultimately show ?thesis by simp
qed

theorem scan_nesting_canonical_witness:
  "canonical_bytes (JArr [JStr [91, 34]]) = Inr [91, 34, 91, 92, 34, 34, 93] \<and>
   scan_nesting [91, 34, 91, 92, 34, 34, 93] 1 = Inr ()"
proof -
  have c: "canonical_bytes (JArr [JStr [91, 34]]) = Inr [91, 34, 91, 92, 34, 34, 93]"
    by (simp add: canonical_bytes_def encode_str_def escape_char_def utf8_def utf8_char_def)
  then show ?thesis using scan_nesting_canonical [OF c, of 1] by simp
qed

section \<open>Tree limits and repeated members\<close>

fun tree_depth :: "json \<Rightarrow> nat" where
  "tree_depth (JArr xs) = fold max (map (\<lambda>x. Suc (tree_depth x)) xs) 0"
| "tree_depth (JObj kvs) = fold max (map (\<lambda>p. Suc (tree_depth (snd p))) kvs) 0"
| "tree_depth j = 0"

fun within_sizes :: "json \<Rightarrow> bool" where
  "within_sizes (JArr xs) = (length xs \<le> 100000 \<and> (\<forall>x \<in> set xs. within_sizes x))"
| "within_sizes (JObj kvs) = (length kvs \<le> 10000 \<and> (\<forall>p \<in> set kvs. within_sizes (snd p)))"
| "within_sizes j = True"

lemma add_fold_max_le: "d + fold max xs a \<le> m \<longleftrightarrow> d + a \<le> m \<and> (\<forall>x \<in> set xs. d + x \<le> (m::nat))"
  by (induction xs arbitrary: a) (auto simp: max_def)

text \<open>
  \<open>_validate_tree\<close> accepts a parsed value exactly when it has no float, only I-JSON integers,
  arrays and objects within their limits, and no value deeper than 64.
\<close>

theorem validate_tree_accepts:
  "validate_tree v d = Inr () \<longleftrightarrow> v3_ok v \<and> within_sizes v \<and> d + tree_depth v \<le> 64"
proof (induction v arbitrary: d rule: tree_depth.induct)
  case (1 xs)
  then show ?case
    by (subst validate_tree.simps) (auto simp: MAX_DEPTH_def MAX_ARRAY_ITEMS_def add_fold_max_le)
next
  case (2 kvs)
  then show ?case
    by (subst validate_tree.simps) (auto simp: MAX_DEPTH_def MAX_OBJECT_MEMBERS_def add_fold_max_le)
qed (auto simp: validate_tree.simps [of "JBool _"] validate_tree.simps [of "JInt _"] validate_tree.simps [of JNull]
    validate_tree.simps [of JFloat] validate_tree.simps [of "JStr _"] MAX_DEPTH_def)

lemma unique_loop_Inr:
  assumes "distinct (dict_keys acc)"
  shows "unique_loop ps acc = Inr out \<longleftrightarrow> distinct (dict_keys (acc @ ps)) \<and> out = acc @ ps"
  using assms
proof (induction ps arbitrary: acc)
  case (Cons p ps)
  obtain k v where p: "p = (k, v)" by (cases p)
  show ?case
  proof (cases "k \<in> set (dict_keys acc)")
    case True
    then show ?thesis by (auto simp: p dict_keys_def)
  next
    case False
    then have "dict_set acc k v = acc @ [(k, v)]"
      by (induction acc) (auto simp: dict_set_def dict_keys_def)
    then show ?thesis using Cons.IH [of "acc @ [(k, v)]"] Cons.prems False
      by (auto simp: p dict_keys_def)
  qed
qed auto

text \<open>
  \<open>_unique_object\<close> returns the very pairs it was given, and does so exactly when there are at
  most 10,000 of them and no member name is repeated.
\<close>

lemma unique_object_accepts:
  "unique_object pairs = Inr d \<longleftrightarrow> length pairs \<le> 10000 \<and> distinct (map fst pairs) \<and> d = pairs"
  using unique_loop_Inr [of "[]" pairs d]
  by (auto simp: unique_object_def MAX_OBJECT_MEMBERS_def dict_keys_def)

end
