(* ===== verification/Structural_Facts.thy ===== *)
theory Structural_Facts
  imports Structural
begin

text \<open>
  What the closures and enumerations of \<open>v6/structural_analysis.py\<close> compute. The abstract side is the
  inductive set \<open>reachable\<close> of coordinates that allowed transformations can produce. The enumerations are
  clients of two interfaces: \<open>minimal_search\<close>, a test that decides a predicate of sets, and
  \<open>monotone_family\<close>, a predicate closed under supersets, where minimal members and minimal hitting sets
  are dual.
\<close>

section \<open>Closures\<close>

inductive_set reachable :: "transformations \<Rightarrow> ident set \<Rightarrow> ident set \<Rightarrow> ident set"
  for ts :: transformations and allowed :: "ident set" and initial :: "ident set" where
  initial: "x \<in> initial \<Longrightarrow> x \<in> reachable ts allowed initial"
| fire: "i \<in> allowed \<Longrightarrow> \<forall>y \<in> ins ts i. y \<in> reachable ts allowed initial \<Longrightarrow> x \<in> outs ts i \<Longrightarrow>
    x \<in> reachable ts allowed initial"

definition closed_under :: "transformations \<Rightarrow> ident set \<Rightarrow> ident set \<Rightarrow> bool" where
  "closed_under ts allowed A \<longleftrightarrow> (\<forall>i \<in> allowed. ins ts i \<subseteq> A \<longrightarrow> outs ts i \<subseteq> A)"

lemma reachable_closed: "closed_under ts allowed (reachable ts allowed I)"
  by (auto simp: closed_under_def intro: reachable.fire)

lemma reachable_least:
  assumes "I \<subseteq> A" "closed_under ts allowed A"
  shows "reachable ts allowed I \<subseteq> A"
proof
  fix x
  assume "x \<in> reachable ts allowed I"
  then show "x \<in> A"
    by induction (use assms in \<open>auto simp: closed_under_def\<close>)
qed

lemma reachable_mono:
  assumes "a \<subseteq> a'" "I \<subseteq> I'"
  shows "reachable ts a I \<subseteq> reachable ts a' I'"
proof
  fix x
  assume "x \<in> reachable ts a I"
  then show "x \<in> reachable ts a' I'"
    by induction (use assms in \<open>auto intro: reachable.intros\<close>)
qed

lemma closure_pass_within:
  assumes "closure_pass clock ts is A c b = Inr ((A', c'), b')" "A \<subseteq> reachable ts S I" "set is \<subseteq> S"
  shows "A' \<subseteq> reachable ts S I"
  using assms
proof (induction "is" arbitrary: A c b)
  case (Cons i "is")
  have "ins ts i \<subseteq> A \<Longrightarrow> outs ts i \<subseteq> reachable ts S I"
    using Cons.prems(2,3) reachable.fire [of i S ts I] by (meson list.set_intros(1) subset_iff)
  then obtain A2 c2 b2 where "closure_pass clock ts is A2 c2 b2 = Inr ((A', c'), b')" "A2 \<subseteq> reachable ts S I"
  proof (cases "ins ts i \<subseteq> A \<and> \<not> outs ts i \<subseteq> A")
    case True
    assume out: "ins ts i \<subseteq> A \<Longrightarrow> outs ts i \<subseteq> reachable ts S I"
    obtain b2 where "closure_pass clock ts is (A \<union> outs ts i) True b2 = Inr ((A', c'), b')"
      using Cons.prems(1) True by (auto simp: case_prod_beta Let_def)
    then show ?thesis using that out True Cons.prems(2) by (metis Un_least)
  next
    case False
    from Cons.prems(1) obtain b2 where "closure_pass clock ts is A c b2 = Inr ((A', c'), b')"
      by (simp only: closure_pass.simps res_bind_Inr case_prod_beta Let_def False if_False) blast
    then show ?thesis using that Cons.prems(2) by blast
  qed
  then show ?case using Cons.IH Cons.prems(3) by simp
qed auto

lemma closure_pass_stable:
  assumes "closure_pass clock ts is A False b = Inr ((A', False), b')"
  shows "A' = A \<and> closed_under ts (set is) A"
proof -
  have same: "A' = A" using closure_pass_grows [OF assms] by blast
  have "closed_under ts (set is) A"
    using assms
  proof (induction "is" arbitrary: b)
    case (Cons i "is")
    show ?case
    proof (cases "ins ts i \<subseteq> A \<and> \<not> outs ts i \<subseteq> A")
      case True
      then obtain b2 where "closure_pass clock ts is (A \<union> outs ts i) True b2 = Inr ((A', False), b')"
        using Cons.prems by (auto simp: case_prod_beta Let_def)
      then have False using closure_pass_grows by blast
      then show ?thesis ..
    next
      case False
      from Cons.prems obtain b2 where "closure_pass clock ts is A False b2 = Inr ((A', False), b')"
        by (simp only: closure_pass.simps res_bind_Inr case_prod_beta Let_def False if_False) blast
      then show ?thesis using Cons.IH False by (auto simp: closed_under_def)
    qed
  qed (simp add: closed_under_def)
  then show ?thesis using same by blast
qed

lemma closure_loop_reachable:
  assumes "closure_loop clock ts ids A b = Inr (A', b')"
  shows "A' = reachable ts (set ids) A"
proof -
  have "I \<subseteq> A \<Longrightarrow> A \<subseteq> reachable ts (set ids) I \<Longrightarrow> A' = reachable ts (set ids) I" for I
    using assms
  proof (induction clock ts ids A b arbitrary: A' b' rule: closure_loop.induct)
    case (1 clock ts ids A b)
    obtain A1 c b1 where pass: "closure_pass clock ts ids A False b = Inr ((A1, c), b1)"
      using 1(4) by (subst (asm) closure_loop.simps) auto
    note step = 1(4) [unfolded closure_loop.simps [of clock ts ids A b] pass res_bind_simps fst_conv snd_conv]
    have grow: "A \<subseteq> A1" using closure_pass_grows [OF pass] by blast
    have within: "A1 \<subseteq> reachable ts (set ids) I" using closure_pass_within [OF pass 1(3)] by blast
    show ?case
    proof (cases c)
      case True
      then have "closure_loop clock ts ids A1 b1 = Inr (A', b')" using step by simp
      then show ?thesis using 1(1) [OF pass] True 1(2) grow within by (metis fst_conv snd_conv subset_trans)
    next
      case False
      then have "A' = A1" "A1 = A" "closed_under ts (set ids) A"
        using step closure_pass_stable [of clock ts ids A b A1 b1] pass by auto
      then show ?thesis using reachable_least 1(2,3) by blast
    qed
  qed
  then show ?thesis by (metis order_refl reachable.initial subsetI)
qed

lemma raf_loop_closure_loop: "finite A \<Longrightarrow> raf_loop clock ts ids A b = closure_loop clock ts ids A b"
proof (induction clock ts ids A b rule: closure_loop.induct)
  case (1 clock ts ids A b)
  have "raf_pass clock ts ids A False b = closure_pass clock ts ids A False b"
    by (rule raf_pass_closure_pass [OF 1(2)])
  moreover have "finite (fst (fst r))" if "closure_pass clock ts ids A False b = Inr r" for r
    using closure_pass_grows [of clock ts ids A False b "fst (fst r)" "snd (fst r)" "snd r"] that 1(2)
    by (auto intro: finite_subset)
  ultimately show ?case
    using 1(1) by (subst raf_loop.simps, subst closure_loop.simps) (auto intro!: res_bind_cong)
qed

lemma raf_closure_reachable:
  "raf_closure clock food ids ts b = Inr (A, b') \<Longrightarrow> A = reachable ts (set ids) (set food)"
  using closure_loop_reachable [of clock ts "sorted_set ids" "set food" b A b']
  by (simp add: raf_closure_def raf_loop_closure_loop)

lemma structural_closure_reachable':
  "structural_closure clock initial ts allowed b = Inr (A, b') \<Longrightarrow>
   A = reachable ts (set (allowed_ids ts allowed)) (set initial)"
  using closure_loop_reachable [of clock ts "allowed_ids ts allowed" "set initial" b A b']
  by (simp add: structural_closure_def)

section \<open>Searches for minimal sets\<close>

locale minimal_search =
  fixes test :: "ident list \<Rightarrow> budget \<Rightarrow> bool analysed" and P :: "ident set \<Rightarrow> bool"
  assumes decides: "test c b = Inr (hit, b') \<Longrightarrow> hit = P (set c)"
begin

definition minimal_in :: "ident set set \<Rightarrow> ident set \<Rightarrow> bool" where
  "minimal_in F S \<longleftrightarrow> S \<in> F \<and> P S \<and> (\<forall>T \<in> F. T \<subset> S \<longrightarrow> \<not> P T)"

lemma minimal_below:
  assumes "T \<in> F" "P T" "finite T"
  shows "\<exists>M. minimal_in F M \<and> M \<subseteq> T"
  using assms
proof (induction "card T" arbitrary: T rule: less_induct)
  case less
  show ?case
  proof (cases "minimal_in F T")
    case False
    then obtain U where U: "U \<in> F" "U \<subset> T" "P U" using less.prems by (auto simp: minimal_in_def)
    then have "card U < card T" "finite U" using less.prems(3) by (auto intro: psubset_card_mono finite_subset)
    then show ?thesis using less.hyps U by blast
  qed blast
qed

lemma loop_minimal:
  assumes "fold_res (minimal_step clock test) cs ([], b) = Inr (ms, b')" "sorted (map length cs)"
    "\<forall>c \<in> set cs. distinct c"
  shows "set ` set ms = {S. minimal_in (set ` set cs) S} \<and> set ms \<subseteq> set cs"
  using assms
proof (induction cs arbitrary: ms b' rule: rev_induct)
  case Nil
  then show ?case by (auto simp: minimal_in_def)
next
  case (snoc c cs)
  obtain ms1 b1 where before: "fold_res (minimal_step clock test) cs ([], b) = Inr (ms1, b1)"
    and step: "minimal_step clock test c (ms1, b1) = Inr (ms, b')"
    using snoc.prems(1) by (auto simp: fold_res_append)
  have IH: "set ` set ms1 = {S. minimal_in (set ` set cs) S}" "set ms1 \<subseteq> set cs"
    using snoc.IH [OF before] snoc.prems(2,3) by (auto simp: sorted_append)
  have not_below: "\<not> set c \<subset> S" if S: "S \<in> set ` set cs" for S
  proof
    assume "set c \<subset> S"
    then have "card (set c) < card S" using S by (auto intro: psubset_card_mono)
    moreover have "card S \<le> card (set c)"
      using S snoc.prems(2,3) by (auto simp: sorted_append distinct_card)
    ultimately show False by simp
  qed
  have old: "minimal_in (insert (set c) (set ` set cs)) S \<longleftrightarrow> minimal_in (set ` set cs) S"
    if "S \<noteq> set c" for S
    using that not_below by (auto simp: minimal_in_def)
  show ?case
  proof (cases "\<exists>e \<in> set ms1. set e \<subseteq> set c")
    case True
    then obtain e where e: "e \<in> set ms1" "set e \<subseteq> set c" by blast
    then have me: "minimal_in (set ` set cs) (set e)" using IH(1) by blast
    have "minimal_in (insert (set c) (set ` set cs)) (set c) \<longleftrightarrow> minimal_in (set ` set cs) (set c)"
    proof (cases "set e = set c")
      case True
      then have "set c \<in> set ` set cs" using me by (simp add: minimal_in_def)
      then show ?thesis by (simp add: insert_absorb)
    next
      case False
      then have "set e \<subset> set c" using e(2) by blast
      then have "\<not> minimal_in F (set c)" if "set e \<in> F" for F
        using me that unfolding minimal_in_def by metis
      then show ?thesis using me by (metis insertI2 minimal_in_def)
    qed
    then have "minimal_in (insert (set c) (set ` set cs)) S \<longleftrightarrow> minimal_in (set ` set cs) S" for S
      using old by (cases "S = set c") blast+
    moreover have "ms = ms1" using step True by (auto simp: minimal_step_def)
    ultimately show ?thesis using IH by auto
  next
    case False
    then obtain b2 hit where t: "test c b2 = Inr (hit, b')" "ms = (if hit then ms1 @ [c] else ms1)"
      using step by (auto simp: minimal_step_def)
    have "\<not> P T" if T: "T \<in> set ` set cs" "T \<subset> set c" for T
    proof
      assume "P T"
      then obtain M where "minimal_in (set ` set cs) M" "M \<subseteq> T"
        using minimal_below [OF T(1)] T by auto
      then have "\<exists>e \<in> set ms1. set e \<subseteq> set c" using IH(1) T(2) by (metis (mono_tags) imageE mem_Collect_eq order_trans psubset_imp_subset)
      with False show False by blast
    qed
    then have new: "minimal_in (insert (set c) (set ` set cs)) (set c) \<longleftrightarrow> P (set c)"
      by (auto simp: minimal_in_def)
    have gone: "\<not> minimal_in (set ` set cs) (set c)"
      using False IH(1) by (metis (mono_tags) imageE mem_Collect_eq order_refl)
    have hit: "hit = P (set c)" by (rule decides [OF t(1)])
    have "minimal_in (insert (set c) (set ` set cs)) S \<longleftrightarrow> minimal_in (set ` set cs) S \<or> hit \<and> S = set c" for S
      using new old gone hit by (cases "S = set c") auto
    then show ?thesis using t(2) IH by auto
  qed
qed

lemma enumerate_minimal_sets:
  assumes "enumerate_minimal clock test n ordered b = Inr (ms, b')" "distinct ordered"
  shows "set ` set ms = {S. S \<subseteq> set ordered \<and> n \<le> card S \<and> P S \<and> (\<forall>T \<subset> S. n \<le> card T \<longrightarrow> \<not> P T)}"
    and "\<forall>m \<in> set ms. distinct m \<and> set m \<subseteq> set ordered"
proof -
  let ?cs = "candidates n ordered"
  have mem: "c \<in> set ?cs \<longleftrightarrow> (\<exists>k. n \<le> k \<and> k \<le> length ordered \<and> c \<in> set (combinations k ordered))" for c
    by (auto simp: candidates_def less_Suc_eq_le)
  have comb: "c \<in> set (combinations k ordered) \<Longrightarrow> length c = k \<and> set c \<subseteq> set ordered" for c k
    using combinations_sound by blast
  have dist: "\<forall>c \<in> set ?cs. distinct c"
    using mem combinations_sound assms(2) by blast
  have upto: "sorted (map length (concat (map (\<lambda>k. combinations k ordered) [n..<m])))" for m
  proof (induction m)
    case (Suc m)
    have "map length (combinations m ordered) = replicate (length (combinations m ordered)) m"
      by (rule replicate_eqI) (use combinations_sound in auto)
    then have "sorted (map length (combinations m ordered))" by simp
    moreover have "length c < m" if "c \<in> set (combinations k ordered)" "k < m" for c k
      using that combinations_sound by blast
    moreover have "length c = m" if "c \<in> set (combinations m ordered)" for c
      using that combinations_sound by blast
    ultimately show ?case using Suc by (cases "n \<le> m") (fastforce simp: sorted_append)+
  qed simp
  have sorted: "sorted (map length ?cs)" unfolding candidates_def by (rule upto)
  have family: "set ` set ?cs = {S. S \<subseteq> set ordered \<and> n \<le> card S}"
  proof (intro set_eqI iffI)
    fix S
    assume "S \<in> set ` set ?cs"
    then obtain c k where c: "S = set c" "n \<le> k" "c \<in> set (combinations k ordered)" "c \<in> set ?cs"
      using mem by blast
    then have "card S = k" using comb dist by (metis distinct_card)
    then show "S \<in> {S. S \<subseteq> set ordered \<and> n \<le> card S}" using c comb by blast
  next
    fix S
    assume S: "S \<in> {S. S \<subseteq> set ordered \<and> n \<le> card S}"
    then obtain c where "c \<in> set (combinations (card S) ordered)" "set c = S"
      using combinations_complete assms(2) by blast
    moreover have "card S \<le> length ordered"
      using S assms(2) by (metis (no_types, lifting) card_length card_mono dual_order.trans finite_set mem_Collect_eq)
    ultimately show "S \<in> set ` set ?cs" using S mem by blast
  qed
  have loop: "set ` set ms = {S. minimal_in (set ` set ?cs) S} \<and> set ms \<subseteq> set ?cs"
    by (rule loop_minimal [OF assms(1) [unfolded enumerate_minimal_def] sorted dist])
  show "set ` set ms = {S. S \<subseteq> set ordered \<and> n \<le> card S \<and> P S \<and> (\<forall>T \<subset> S. n \<le> card T \<longrightarrow> \<not> P T)}"
  proof -
    have "minimal_in {S. S \<subseteq> set ordered \<and> n \<le> card S} S \<longleftrightarrow>
        S \<subseteq> set ordered \<and> n \<le> card S \<and> P S \<and> (\<forall>T \<subset> S. n \<le> card T \<longrightarrow> \<not> P T)" for S
      unfolding minimal_in_def by auto
    then show ?thesis using loop unfolding family by simp
  qed
  show "\<forall>m \<in> set ms. distinct m \<and> set m \<subseteq> set ordered"
  proof
    fix m
    assume "m \<in> set ms"
    then have m: "m \<in> set ?cs" using loop by blast
    then have "set m \<in> set ` set ?cs" by simp
    then have "set m \<subseteq> set ordered" unfolding family by simp
    then show "distinct m \<and> set m \<subseteq> set ordered" using dist m by simp
  qed
qed

end

section \<open>Searches that the budget covers\<close>

text \<open>
  \<open>on_time\<close> says that the clock never passes the deadline; then only the operation count can stop an
  analysis. \<open>costs\<close> bounds what a call takes from it.
\<close>

definition on_time :: "(nat \<Rightarrow> int) \<Rightarrow> budget \<Rightarrow> bool" where
  "on_time clock b \<longleftrightarrow> (\<forall>n. clock n \<le> deadline_at b)"

definition costs :: "(nat \<Rightarrow> int) \<Rightarrow> nat \<Rightarrow> (budget \<Rightarrow> 'a analysed) \<Rightarrow> bool" where
  "costs clock k m \<longleftrightarrow> (\<forall>b. on_time clock b \<longrightarrow> int k \<le> remaining b \<longrightarrow>
     (\<exists>x b'. m b = Inr (x, b') \<and> remaining b - int k \<le> remaining b' \<and> deadline_at b' = deadline_at b))"

lemma costsD:
  assumes "costs clock k m" "on_time clock b" "int k \<le> remaining b"
  obtains x b' where "m b = Inr (x, b')" "remaining b - int k \<le> remaining b'" "on_time clock b'"
    "deadline_at b' = deadline_at b"
  using assms by (fastforce simp: costs_def on_time_def)

lemma costs_return: "costs clock 0 (\<lambda>b. Inr (x, b))"
  by (simp add: costs_def)

lemma costs_mono: "costs clock k m \<Longrightarrow> k \<le> n \<Longrightarrow> costs clock n m"
  unfolding costs_def by (meson diff_left_mono of_nat_mono order_trans)

lemma costs_bind:
  assumes "costs clock k m" "\<And>x. costs clock n (f x)"
  shows "costs clock (k + n) (\<lambda>b. res_bind (m b) (\<lambda>(x, b). f x b))"
  unfolding costs_def
proof (intro allI impI)
  fix b
  assume b: "on_time clock b" "int (k + n) \<le> remaining b"
  then obtain x b1 where 1: "m b = Inr (x, b1)" "remaining b - int k \<le> remaining b1" "on_time clock b1"
    "deadline_at b1 = deadline_at b" using costsD [OF assms(1)] by (metis add_leE of_nat_add of_nat_le_iff order_trans le_add1 of_nat_mono)
  then have "int n \<le> remaining b1" using b(2) by simp
  then obtain y b2 where "f x b1 = Inr (y, b2)" "remaining b1 - int n \<le> remaining b2"
    "deadline_at b2 = deadline_at b1" using costsD [OF assms(2) 1(3)] by metis
  then show "\<exists>x b'. res_bind (m b) (\<lambda>(x, b). f x b) = Inr (x, b') \<and> remaining b - int (k + n) \<le> remaining b' \<and>
      deadline_at b' = deadline_at b"
    using 1 by simp
qed

lemma costs_spend:
  assumes "costs clock k m"
  shows "costs clock (Suc k) (\<lambda>b. res_bind (spend clock 1 b) m)"
  unfolding costs_def
proof (intro allI impI)
  fix b
  assume b: "on_time clock b" "int (Suc k) \<le> remaining b"
  let ?b = "b\<lparr>remaining := remaining b - 1, ticks := Suc (ticks b)\<rparr>"
  have "spend clock 1 b = Inr ?b" using b by (auto simp: spend_def on_time_def Let_def not_less)
  moreover have "on_time clock ?b" "int k \<le> remaining ?b" using b by (simp_all add: on_time_def)
  then obtain x b' where "m ?b = Inr (x, b')" "remaining ?b - int k \<le> remaining b'"
    "deadline_at b' = deadline_at ?b" using costsD [OF assms] by metis
  ultimately show "\<exists>x b'. res_bind (spend clock 1 b) m = Inr (x, b') \<and> remaining b - int (Suc k) \<le> remaining b' \<and>
      deadline_at b' = deadline_at b"
    by simp
qed

lemma costs_if: "costs clock k m \<Longrightarrow> costs clock k n \<Longrightarrow> costs clock k (\<lambda>b. if c then m b else n b)"
  by (cases c) simp_all

lemma costs_closure_pass: "costs clock (length is) (closure_pass clock ts is A c)"
proof (induction "is" arbitrary: A c)
  case Nil
  then show ?case using costs_return by (simp add: closure_pass.simps)
next
  case (Cons i "is")
  have "costs clock (length is) (\<lambda>b. if ins ts i \<subseteq> A \<and> \<not> outs ts i \<subseteq> A
      then closure_pass clock ts is (A \<union> outs ts i) True b else closure_pass clock ts is A c b)"
    by (intro costs_if Cons.IH)
  from costs_spend [OF this] show ?case by (simp add: case_prod_beta Let_def)
qed

lemma costs_closure_loop:
  "costs clock (Suc (card (produced ts ids - A)) * length ids) (closure_loop clock ts ids A)"
proof (induction "card (produced ts ids - A)" arbitrary: A rule: less_induct)
  case less
  let ?n = "card (produced ts ids - A)"
  have "costs clock (?n * length ids) (\<lambda>b. if c then closure_loop clock ts ids A' b else Inr (A', b))"
    if "A \<subseteq> A'" "A' \<subseteq> A \<union> produced ts ids" "c \<longleftrightarrow> A' \<noteq> A" for A' c
  proof (cases c)
    case True
    then have "card (produced ts ids - A') < ?n" using that pass_measure by blast
    then have "costs clock (Suc (card (produced ts ids - A')) * length ids) (closure_loop clock ts ids A')"
      "Suc (card (produced ts ids - A')) * length ids \<le> ?n * length ids"
      using less by (simp_all only: mult_le_mono1 Suc_leI)
    then show ?thesis using True costs_mono by simp
  next
    case False
    then show ?thesis using costs_mono [OF costs_return] by simp
  qed
  note rest = this
  show ?case
    unfolding costs_def
  proof (intro allI impI)
    fix b
    assume b: "on_time clock b" "int (Suc ?n * length ids) \<le> remaining b"
    have whole: "int (Suc ?n * length ids) = int (length ids) + int (?n * length ids)" by simp
    then have "int (length ids) \<le> remaining b" using b(2) by linarith
    then obtain r b1 where 1: "closure_pass clock ts ids A False b = Inr (r, b1)"
      "remaining b - int (length ids) \<le> remaining b1" "on_time clock b1" "deadline_at b1 = deadline_at b"
      using costsD [OF costs_closure_pass b(1)] by metis
    have grow: "A \<subseteq> fst r" "fst r \<subseteq> A \<union> produced ts ids" "snd r \<longleftrightarrow> fst r \<noteq> A"
      using closure_pass_grows [of clock ts ids A False b "fst r" "snd r" b1] 1(1) by auto
    have "int (?n * length ids) \<le> remaining b1" using 1(2) b(2) whole by linarith
    then obtain x b2 where 2: "(if snd r then closure_loop clock ts ids (fst r) b1 else Inr (fst r, b1)) = Inr (x, b2)"
      "remaining b1 - int (?n * length ids) \<le> remaining b2" "deadline_at b2 = deadline_at b1"
      using costsD [OF rest [OF grow] 1(3)] by metis
    have "closure_loop clock ts ids A b = Inr (x, b2)"
      using 2(1) by (subst closure_loop.simps) (simp add: 1(1) split: if_splits)
    moreover have "remaining b - int (Suc ?n * length ids) \<le> remaining b2"
      using 1(2) 2(2) whole by linarith
    ultimately show "\<exists>x b'. closure_loop clock ts ids A b = Inr (x, b') \<and>
        remaining b - int (Suc ?n * length ids) \<le> remaining b' \<and> deadline_at b' = deadline_at b"
      using 1(4) 2(3) by metis
  qed
qed

lemma card_produced_le: "card (produced ts ids - A) \<le> card (produced ts ids)"
  by (simp add: card_Diff_subset card_mono)

definition closure_cost :: "transformations \<Rightarrow> ident list \<Rightarrow> nat" where
  "closure_cost ts ids = Suc (card (produced ts ids)) * length ids"

lemma costs_structural_closure:
  "costs clock (closure_cost ts (allowed_ids ts allowed)) (structural_closure clock initial ts allowed)"
proof -
  have "Suc (card (produced ts ids - A)) * length ids \<le> closure_cost ts ids" for ids A
    unfolding closure_cost_def by (rule mult_le_mono1) (simp add: card_produced_le)
  then show ?thesis
    using costs_mono [OF costs_closure_loop] by (simp add: structural_closure_def [abs_def])
qed

lemma length_combinations: "length (combinations k xs) = length xs choose k"
  by (induction k xs rule: combinations.induct) simp_all

lemma length_candidates: "length (candidates n xs) \<le> 2 ^ length xs"
proof -
  have "length (candidates n xs) = (\<Sum>k\<leftarrow>[n..<Suc (length xs)]. length xs choose k)"
    by (simp add: candidates_def length_concat comp_def length_combinations del: upt_Suc)
  also have "\<dots> = (\<Sum>k \<in> {n..length xs}. length xs choose k)"
    by (simp add: sum_list_distinct_conv_sum_set atLeastLessThanSuc_atLeastAtMost del: upt_Suc)
  also have "\<dots> \<le> (\<Sum>k \<in> {0..length xs}. length xs choose k)"
    by (rule sum_mono2) auto
  also have "\<dots> = 2 ^ length xs" by (simp add: choose_row_sum atLeast0AtMost)
  finally show ?thesis .
qed

locale budgeted_search = minimal_search +
  fixes clock :: "nat \<Rightarrow> int" and unit_cost :: nat and admissible :: "ident list \<Rightarrow> bool"
  assumes affordable: "admissible c \<Longrightarrow> costs clock unit_cost (test c)"
begin

lemma step_cost: "admissible c \<Longrightarrow> costs clock (Suc unit_cost) (\<lambda>b. minimal_step clock test c (ms, b))"
proof -
  assume c: "admissible c"
  have "costs clock unit_cost (\<lambda>b. if \<exists>e \<in> set ms. set e \<subseteq> set c then Inr (ms, b)
      else res_bind (test c b) (\<lambda>(hit, b). Inr (if hit then ms @ [c] else ms, b)))"
  proof (intro costs_if)
    show "costs clock unit_cost (\<lambda>b. Inr (ms, b))" by (rule costs_mono [OF costs_return]) simp
    show "costs clock unit_cost (\<lambda>b. res_bind (test c b) (\<lambda>(hit, b). Inr (if hit then ms @ [c] else ms, b)))"
      using costs_bind [OF affordable [OF c] costs_return] by (metis add_0_right)
  qed
  from costs_spend [OF this] show ?thesis by (simp add: minimal_step_def)
qed

lemma enumerate_minimal_cost:
  assumes "\<And>c. c \<in> set (candidates n ordered) \<Longrightarrow> admissible c"
  shows "costs clock (2 ^ length ordered * Suc unit_cost) (enumerate_minimal clock test n ordered)"
proof -
  have "costs clock (length cs * Suc unit_cost) (\<lambda>b. fold_res (minimal_step clock test) cs (ms, b))"
    if "\<forall>c \<in> set cs. admissible c" for cs ms
    using that
  proof (induction cs arbitrary: ms)
    case Nil
    then show ?case by (simp add: costs_return)
  next
    case (Cons c cs)
    have "costs clock (Suc unit_cost + length cs * Suc unit_cost)
        (\<lambda>b. res_bind (minimal_step clock test c (ms, b)) (\<lambda>(ms, b). fold_res (minimal_step clock test) cs (ms, b)))"
      using Cons by (intro costs_bind step_cost) auto
    then show ?case by (simp add: case_prod_beta algebra_simps)
  qed
  from costs_mono [OF this] show ?thesis
    using assms length_candidates unfolding enumerate_minimal_def [abs_def] by (metis mult_le_mono1)
qed

end

end
