(* ===== verification/Structural_Properties.thy ===== *)
theory Structural_Properties
  imports Structural_Facts
begin

text \<open>
  The properties of the structural analyses: least closures and their budget, exact siphons and what an
  unfed siphon means, exact cut and enablement sets and their duality, autocatalytic sets and generative
  layers.
\<close>

section \<open>Structural closure\<close>

text \<open>
  C35: \<open>structural_closure\<close> returns the least set that contains the initial states and is closed under
  the allowed transformations.
\<close>

theorem structural_closure_least:
  assumes "structural_closure clock initial ts allowed b = Inr (A, b')"
  shows "set initial \<subseteq> A \<and> closed_under ts (set (allowed_ids ts allowed)) A \<and>
    (\<forall>B. set initial \<subseteq> B \<and> closed_under ts (set (allowed_ids ts allowed)) B \<longrightarrow> A \<subseteq> B)"
  using structural_closure_reachable' [OF assms] reachable_closed reachable_least reachable.initial
  by (metis subsetI)

definition chain_ts :: transformations where
  "chain_ts =
     [(''t1'', \<lparr>tr_id = ''t1'', tr_inputs = [(''a'', 1)], tr_outputs = [(''b'', 2)], catalyst_clauses = [],
        inhibitors = [], uncatalyzed = True, required_evidence = [], required_authority = []\<rparr>),
      (''t2'', \<lparr>tr_id = ''t2'', tr_inputs = [(''b'', 1)], tr_outputs = [(''c'', 1)], catalyst_clauses = [[''b'']],
        inhibitors = [], uncatalyzed = False, required_evidence = [], required_authority = []\<rparr>)]"

definition spare :: budget where
  "spare = \<lparr>remaining = 1000, deadline_at = 10, ticks = 1\<rparr>"

lemmas structural_eval = chain_ts_def spare_def structural_closure_def allowed_ids_def known_ids_def sorted_set_def
  dict_keys_def dict_values_def lookup_def dict_get_def flows_def spend_def Let_def closure_loop.simps

lemma chain_closure:
  "structural_closure (\<lambda>_. 0) [''a''] chain_ts None spare =
     Inr ({''a'', ''b'', ''c''}, \<lparr>remaining = 996, deadline_at = 10, ticks = 5\<rparr>)"
  by (simp add: structural_eval insert_commute)

theorem structural_closure_least_witness:
  "\<exists>A b'. structural_closure (\<lambda>_. 0) [''a''] chain_ts None spare = Inr (A, b') \<and> {''a''} \<subseteq> A \<and>
     closed_under chain_ts (set (allowed_ids chain_ts None)) A"
  using structural_closure_least [OF chain_closure] chain_closure by auto

text \<open>
  The \<open>while changed\<close> loop of \<open>structural_closure\<close> ends and returns whenever the budget holds one
  unit per allowed transformation for each producible coordinate and one more pass, and the deadline is
  not passed.
\<close>

theorem structural_closure_returns:
  assumes "on_time clock b" and "int (closure_cost ts (allowed_ids ts allowed)) \<le> remaining b"
  shows "\<exists>A b'. structural_closure clock initial ts allowed b = Inr (A, b') \<and>
    remaining b - int (closure_cost ts (allowed_ids ts allowed)) \<le> remaining b'"
  using costsD [OF costs_structural_closure assms] by metis

lemma chain_cost: "closure_cost chain_ts (allowed_ids chain_ts None) = 6"
  by (simp add: closure_cost_def produced_Cons produced_Nil structural_eval)

theorem structural_closure_returns_witness:
  "\<exists>A b'. structural_closure (\<lambda>_. 0) [''a''] chain_ts None spare = Inr (A, b') \<and> 994 \<le> remaining b'"
  using structural_closure_returns [of "\<lambda>_. 0" spare chain_ts None "[''a'']"]
  by (simp add: chain_cost on_time_def spare_def)

section \<open>Siphons\<close>

definition siphon :: "transformations \<Rightarrow> ident set \<Rightarrow> bool" where
  "siphon ts S \<longleftrightarrow> (\<forall>t \<in> set (dict_values ts). snd (flows t) \<inter> S \<noteq> {} \<longrightarrow> fst (flows t) \<inter> S \<noteq> {})"

interpretation siphon_search: budgeted_search
  "\<lambda>c b. Inr (is_siphon (map flows (dict_values ts)) c, b)" "siphon ts" clock 0 "\<lambda>_. True"
  for ts clock
proof
  show "Inr (is_siphon (map flows (dict_values ts)) c, b) = Inr (hit, b') \<Longrightarrow> hit = siphon ts (set c)"
    for c b hit and b' :: budget
    by (auto simp: is_siphon_def siphon_def case_prod_beta)
qed (rule costs_return)

lemma minimal_siphons_listed:
  assumes "enumerate_minimal_siphons clock ts coords maximum b = Inr (r, b')"
  shows "(enum_exhaustive r \<longleftrightarrow> card (set coords) \<le> maximum) \<and>
    (enum_exhaustive r \<longrightarrow> set ` set (enum_values r) =
       {S. S \<subseteq> set coords \<and> S \<noteq> {} \<and> siphon ts S \<and> (\<forall>T \<subset> S. T \<noteq> {} \<longrightarrow> \<not> siphon ts T)})"
proof (cases "length (sorted_set coords) > maximum")
  case True
  then show ?thesis using assms by (auto simp: enumerate_minimal_siphons_def sorted_set_def length_remdups_card_conv)
next
  case False
  then obtain ms where ms: "r = \<lparr>enum_values = ms, enum_exhaustive = True\<rparr>"
    "enumerate_minimal clock (\<lambda>c b. Inr (is_siphon (map flows (dict_values ts)) c, b)) 1 (sorted_set coords) b = Inr (ms, b')"
    using assms by (auto simp: enumerate_minimal_siphons_def Let_def)
  have pos: "Suc 0 \<le> card S \<longleftrightarrow> S \<noteq> {}" if "S \<subseteq> set coords" for S
    using that by (metis card_gt_0_iff finite_set finite_subset Suc_le_eq)
  have "set ` set ms = {S. S \<subseteq> set coords \<and> 1 \<le> card S \<and> siphon ts S \<and> (\<forall>T \<subset> S. 1 \<le> card T \<longrightarrow> \<not> siphon ts T)}"
    using siphon_search.enumerate_minimal_sets(1) [OF ms(2)] by simp
  also have "\<dots> = {S. S \<subseteq> set coords \<and> S \<noteq> {} \<and> siphon ts S \<and> (\<forall>T \<subset> S. T \<noteq> {} \<longrightarrow> \<not> siphon ts T)}"
    by (rule Collect_cong) (metis One_nat_def pos psubset_imp_subset subset_trans)
  finally show ?thesis using ms(1) False by (simp add: sorted_set_def length_remdups_card_conv)
qed

text \<open>
  C29: An exhaustive result of \<open>enumerate_minimal_siphons\<close> lists exactly the minimal nonempty siphons
  among the coordinates; the result is exhaustive unless there are more coordinates than the bound.
\<close>

theorem enumerate_minimal_siphons_exact:
  assumes "enumerate_minimal_siphons clock ts coords maximum b = Inr (r, b')"
  shows "(enum_exhaustive r \<longleftrightarrow> card (set coords) \<le> maximum) \<and>
    (enum_exhaustive r \<longrightarrow> set ` set (enum_values r) =
       {S. S \<subseteq> set coords \<and> S \<noteq> {} \<and> siphon ts S \<and> (\<forall>T \<subset> S. T \<noteq> {} \<longrightarrow> \<not> siphon ts T)})"
  using assms by (rule minimal_siphons_listed)

theorem enumerate_minimal_siphons_exact_witness:
  "\<exists>r b'. enumerate_minimal_siphons (\<lambda>_. 0) chain_ts [''a'', ''b''] 20 spare = Inr (r, b') \<and>
     enum_exhaustive r \<and> set ` set (enum_values r) = {{''a''}}"
proof -
  have run: "enumerate_minimal_siphons (\<lambda>_. 0) chain_ts [''a'', ''b''] 20 spare =
      Inr (\<lparr>enum_values = [[''a'']], enum_exhaustive = True\<rparr>, \<lparr>remaining = 997, deadline_at = 10, ticks = 4\<rparr>)"
    by (simp add: enumerate_minimal_siphons_def enumerate_minimal_def minimal_step_def candidates_def
        is_siphon_def structural_eval upt_rec numeral_2_eq_2)
  from enumerate_minimal_siphons_exact [OF run] show ?thesis using run by auto
qed

text \<open>
  On at most 20 coordinates (the default bound) a budget of \<open>2 ^ 20\<close> operations is enough for the
  siphon enumeration, so the ten million operations of \<open>MAX_OPERATIONS\<close> never cut it short.
\<close>

definition MAX_OPERATIONS :: int where
  "MAX_OPERATIONS = 10000000"

lemma siphon_enumeration_within_operations:
  assumes "on_time clock (new_budget clock MAX_OPERATIONS limit)" and "card (set coords) \<le> 20"
  shows "\<exists>r b'. enumerate_minimal_siphons clock ts coords 20 (new_budget clock MAX_OPERATIONS limit) = Inr (r, b') \<and>
    enum_exhaustive r"
proof -
  have len: "length (sorted_set coords) = card (set coords)" by (simp add: sorted_set_def length_remdups_card_conv)
  have "(2::int) ^ card (set coords) \<le> 2 ^ 20" using assms(2) by (intro power_increasing) auto
  also have "\<dots> \<le> 10000000" by simp
  finally have "int (2 ^ length (sorted_set coords) * Suc 0) \<le> remaining (new_budget clock MAX_OPERATIONS limit)"
    using len by (simp add: new_budget_def MAX_OPERATIONS_def)
  then obtain ms b' where "enumerate_minimal clock (\<lambda>c b. Inr (is_siphon (map flows (dict_values ts)) c, b)) 1
      (sorted_set coords) (new_budget clock MAX_OPERATIONS limit) = Inr (ms, b')"
    using costsD [OF siphon_search.enumerate_minimal_cost assms(1)] by metis
  then show ?thesis using len assms(2) by (simp add: enumerate_minimal_siphons_def Let_def)
qed

lemma lookup_value: "i \<in> set (dict_keys ts) \<Longrightarrow> lookup ts i \<in> set (dict_values ts)"
proof -
  assume "i \<in> set (dict_keys ts)"
  then obtain t where "dict_get ts i = Some t" using dict_get_None [of ts i] by (cases "dict_get ts i") auto
  then have "(i, t) \<in> set ts" "lookup ts i = t" by (auto simp: lookup_def dict_get_SomeD)
  then show ?thesis by (force simp: dict_values_def)
qed

lemma siphon_blocks:
  assumes "siphon ts S" "I \<inter> S = {}"
  shows "reachable ts (set (dict_keys ts)) I \<inter> S = {}"
proof -
  have "x \<notin> S" if "x \<in> reachable ts (set (dict_keys ts)) I" for x
    using that
  proof induction
    case (fire i x)
    have flow: "outs ts i \<inter> S \<noteq> {} \<longrightarrow> ins ts i \<inter> S \<noteq> {}"
      using assms(1) lookup_value [OF fire(1)] unfolding siphon_def by blast
    show ?case
    proof
      assume "x \<in> S"
      then have "outs ts i \<inter> S \<noteq> {}" using fire(2) by auto
      then obtain y where "y \<in> ins ts i" "y \<in> S" using flow by (meson IntE ex_in_conv)
      then show False using fire(3) by simp
    qed
  qed (use assms in blast)
  then show ?thesis by blast
qed

lemma unreached_siphon:
  assumes "distinct (dict_keys ts)" "\<And>t. t \<in> set (dict_values ts) \<Longrightarrow> fst (flows t) \<subseteq> U"
  shows "siphon ts (U - reachable ts (set (dict_keys ts)) I)"
proof -
  let ?R = "reachable ts (set (dict_keys ts)) I"
  have "fst (flows t) \<inter> (U - ?R) \<noteq> {}" if t: "t \<in> set (dict_values ts)" "snd (flows t) \<inter> (U - ?R) \<noteq> {}" for t
  proof
    assume none: "fst (flows t) \<inter> (U - ?R) = {}"
    obtain i where i: "(i, t) \<in> set ts" using t(1) by (auto simp: dict_values_def)
    then have "lookup ts i = t" "i \<in> set (dict_keys ts)"
      using assms(1) by (auto simp: lookup_def dict_get_in dict_keys_def rev_image_eqI)
    moreover have "fst (flows t) \<subseteq> ?R" using none assms(2) [OF t(1)] by blast
    ultimately have "snd (flows t) \<subseteq> ?R" using reachable_closed [of ts "set (dict_keys ts)" I] by (auto simp: closed_under_def)
    then show False using t(2) by blast
  qed
  then show ?thesis by (simp add: siphon_def)
qed

lemma minimal_siphon_below:
  assumes "siphon ts S" "S \<noteq> {}" "finite S"
  shows "\<exists>M \<subseteq> S. M \<noteq> {} \<and> siphon ts M \<and> (\<forall>T \<subset> M. T \<noteq> {} \<longrightarrow> \<not> siphon ts T)"
  using assms
proof (induction "card S" arbitrary: S rule: less_induct)
  case less
  show ?case
  proof (cases "\<exists>T \<subset> S. T \<noteq> {} \<and> siphon ts T")
    case True
    then obtain T where T: "T \<subset> S" "T \<noteq> {}" "siphon ts T" by blast
    then have "card T < card S" "finite T" using less.prems(3) by (auto intro: psubset_card_mono finite_subset)
    then show ?thesis using less.hyps T by (meson order_trans psubset_imp_subset)
  qed (use less.prems in blast)
qed

definition fed :: "(ident, rat) dict \<Rightarrow> ident list \<Rightarrow> ident set" where
  "fed marks supplied = {c. dict_get_default marks c 0 > 0} \<union> set supplied"

lemma unfed_siphons_Nil:
  "unfed_siphons siphons marks supplied = [] \<longleftrightarrow> (\<forall>s \<in> set siphons. set s \<inter> fed marks supplied \<noteq> {})"
proof -
  let ?kept = "filter (\<lambda>siphon. \<not> (\<exists>item \<in> set siphon. dict_get_default marks item 0 > 0)
       \<and> set siphon \<inter> set supplied = {}) siphons"
  have "length (unfed_siphons siphons marks supplied) = length ?kept" by (simp only: unfed_siphons_def length_sort length_map)
  then have "unfed_siphons siphons marks supplied = [] \<longleftrightarrow> ?kept = []" by (simp only: length_0_conv [symmetric])
  also have "\<dots> \<longleftrightarrow> (\<forall>s \<in> set siphons. set s \<inter> fed marks supplied \<noteq> {})"
    by (auto simp: filter_empty_conv fed_def)
  finally show ?thesis .
qed

text \<open>
  C9: When the enumeration is exhaustive and the coordinates cover every input, no unfed siphon means
  that every coordinate can be produced from the marked and supplied ones, and an unfed siphon means
  that some cannot.
\<close>

theorem unfed_siphons_complete:
  assumes "enumerate_minimal_siphons clock ts coords maximum b = Inr (r, b')" and "enum_exhaustive r"
    and "distinct (dict_keys ts)" and "\<And>t. t \<in> set (dict_values ts) \<Longrightarrow> fst (flows t) \<subseteq> set coords"
  shows "unfed_siphons (enum_values r) marks supplied = [] \<longleftrightarrow>
    set coords \<subseteq> reachable ts (set (dict_keys ts)) (fed marks supplied)"
proof -
  let ?R = "reachable ts (set (dict_keys ts)) (fed marks supplied)"
  have sets: "set ` set (enum_values r) =
      {S. S \<subseteq> set coords \<and> S \<noteq> {} \<and> siphon ts S \<and> (\<forall>T \<subset> S. T \<noteq> {} \<longrightarrow> \<not> siphon ts T)}"
    using minimal_siphons_listed [OF assms(1)] assms(2) by blast
  show ?thesis
  proof
    assume none: "unfed_siphons (enum_values r) marks supplied = []"
    show "set coords \<subseteq> ?R"
    proof (rule ccontr)
      assume "\<not> set coords \<subseteq> ?R"
      then obtain M where M: "M \<subseteq> set coords - ?R" "M \<noteq> {}" "siphon ts M" "\<forall>T \<subset> M. T \<noteq> {} \<longrightarrow> \<not> siphon ts T"
        using minimal_siphon_below [OF unreached_siphon [OF assms(3,4)]] by (metis Diff_eq_empty_iff List.finite_set finite_Diff)
      then have "M \<in> set ` set (enum_values r)" unfolding sets by blast
      then obtain s where "s \<in> set (enum_values r)" "M = set s" by blast
      then have "M \<inter> fed marks supplied \<noteq> {}" using none unfed_siphons_Nil by blast
      then show False using M(1) reachable.initial by blast
    qed
  next
    assume all: "set coords \<subseteq> ?R"
    have "set s \<inter> fed marks supplied \<noteq> {}" if "s \<in> set (enum_values r)" for s
    proof
      assume "set s \<inter> fed marks supplied = {}"
      moreover have "set s \<in> set ` set (enum_values r)" using that by (rule imageI)
      then have "siphon ts (set s)" "set s \<noteq> {}" "set s \<subseteq> set coords"
        unfolding sets by simp_all
      ultimately have "?R \<inter> set s = {}" by (intro siphon_blocks) (simp_all only: Int_commute)
      moreover have "set s \<subseteq> ?R" using \<open>set s \<subseteq> set coords\<close> all by (rule subset_trans)
      ultimately show False using \<open>set s \<noteq> {}\<close> by (simp add: Int_absorb1)
    qed
    then show "unfed_siphons (enum_values r) marks supplied = []" by (simp add: unfed_siphons_Nil)
  qed
qed

theorem unfed_siphons_complete_witness:
  "unfed_siphons [[''a'']] [(''a'', 1)] [] = [] \<and>
   {''a'', ''b''} \<subseteq> reachable chain_ts (set (dict_keys chain_ts)) (fed [(''a'', 1)] [])"
proof -
  have run: "enumerate_minimal_siphons (\<lambda>_. 0) chain_ts [''a'', ''b''] 20 spare =
      Inr (\<lparr>enum_values = [[''a'']], enum_exhaustive = True\<rparr>, \<lparr>remaining = 997, deadline_at = 10, ticks = 4\<rparr>)"
    by (simp add: enumerate_minimal_siphons_def enumerate_minimal_def minimal_step_def candidates_def
        is_siphon_def structural_eval upt_rec numeral_2_eq_2)
  have "unfed_siphons [[''a'']] [(''a'', 1)] [] = []"
    by (simp add: unfed_siphons_def dict_get_default_def)
  moreover have "unfed_siphons (enum_values \<lparr>enum_values = [[''a'']], enum_exhaustive = True\<rparr>) [(''a'', 1)] [] = [] \<longleftrightarrow>
      set [''a'', ''b''] \<subseteq> reachable chain_ts (set (dict_keys chain_ts)) (fed [(''a'', 1)] [])"
    by (rule unfed_siphons_complete [OF run]) (auto simp: chain_ts_def dict_keys_def dict_values_def flows_def)
  ultimately show ?thesis by simp
qed

section \<open>Cut sets and enablement sets\<close>

definition attains :: "transformations \<Rightarrow> ident list \<Rightarrow> ident list \<Rightarrow> ident set \<Rightarrow> bool" where
  "attains ts initial targets S \<longleftrightarrow> set targets \<subseteq> reachable ts S (set initial)"

lemma set_known_ids [simp]: "set (known_ids ts) = set (dict_keys ts)"
  by (simp add: known_ids_def)

lemma set_allowed_ids: "set (allowed_ids ts (Some a)) = set a \<inter> set (dict_keys ts)"
  by (auto simp: allowed_ids_def)

lemma closure_cost_allowed: "closure_cost ts (allowed_ids ts allowed) \<le> closure_cost ts (known_ids ts)"
proof (cases allowed)
  case (Some a)
  have sub: "set (allowed_ids ts (Some a)) \<subseteq> set (known_ids ts)" by (auto simp: set_allowed_ids)
  have "distinct (allowed_ids ts (Some a))" by (simp add: allowed_ids_def)
  then have "length (allowed_ids ts (Some a)) \<le> length (known_ids ts)"
    using sub by (metis card_mono distinct_card distinct_sorted_set finite_set known_ids_def)
  moreover have "card (produced ts (allowed_ids ts (Some a))) \<le> card (produced ts (known_ids ts))"
    by (rule card_mono) (use sub in \<open>auto simp: produced_def\<close>)
  ultimately show ?thesis unfolding closure_cost_def Some by (intro mult_le_mono) auto
qed (simp add: allowed_ids_def)

lemma costs_test:
  "costs clock (closure_cost ts (known_ids ts))
     (\<lambda>b. res_bind (structural_closure clock initial ts allowed b) (\<lambda>(r, b). Inr (f r, b)))"
  using costs_bind [OF costs_mono [OF costs_structural_closure closure_cost_allowed] costs_return]
  by (metis add_0_right)

interpretation cut_search: budgeted_search
  "cut_test clock initial targets ts (known_ids ts)"
  "\<lambda>C. \<not> attains ts initial targets (set (dict_keys ts) - C)"
  clock "closure_cost ts (known_ids ts)" "\<lambda>_. True"
  for clock initial targets ts
proof
  show "cut_test clock initial targets ts (known_ids ts) c b = Inr (hit, b') \<Longrightarrow>
      hit = (\<not> attains ts initial targets (set (dict_keys ts) - set c))" for c b hit b'
  proof -
    assume "cut_test clock initial targets ts (known_ids ts) c b = Inr (hit, b')"
    then obtain A where "structural_closure clock initial ts (Some (filter (\<lambda>i. i \<notin> set c) (known_ids ts))) b = Inr (A, b')"
      "hit = (\<not> set targets \<subseteq> A)" by (auto simp: cut_test_def)
    moreover have "set (filter (\<lambda>i. i \<notin> set c) (known_ids ts)) \<inter> set (dict_keys ts) = set (dict_keys ts) - set c"
      by auto
    ultimately show ?thesis
      using structural_closure_reachable' by (metis attains_def set_allowed_ids)
  qed
  show "costs clock (closure_cost ts (known_ids ts)) (cut_test clock initial targets ts (known_ids ts) c)" for c
    unfolding cut_test_def [abs_def] by (rule costs_test)
qed

interpretation enablement_search: budgeted_search
  "enablement_test clock initial targets ts"
  "\<lambda>E. attains ts initial targets (E \<inter> set (dict_keys ts))"
  clock "closure_cost ts (known_ids ts)" "\<lambda>_. True"
  for clock initial targets ts
proof
  show "enablement_test clock initial targets ts c b = Inr (hit, b') \<Longrightarrow>
      hit = attains ts initial targets (set c \<inter> set (dict_keys ts))" for c b hit b'
    using structural_closure_reachable' [of clock initial ts "Some c" b]
    by (auto simp: enablement_test_def attains_def set_allowed_ids)
  show "costs clock (closure_cost ts (known_ids ts)) (enablement_test clock initial targets ts c)" for c
    unfolding enablement_test_def [abs_def] by (rule costs_test)
qed

definition minimal_cut :: "transformations \<Rightarrow> ident list \<Rightarrow> ident list \<Rightarrow> ident set \<Rightarrow> bool" where
  "minimal_cut ts initial targets C \<longleftrightarrow>
     C \<subseteq> set (dict_keys ts) \<and> \<not> attains ts initial targets (set (dict_keys ts) - C) \<and>
     (\<forall>D \<subset> C. attains ts initial targets (set (dict_keys ts) - D))"

definition minimal_enablement :: "transformations \<Rightarrow> ident list \<Rightarrow> ident list \<Rightarrow> ident set \<Rightarrow> bool" where
  "minimal_enablement ts initial targets E \<longleftrightarrow>
     E \<subseteq> set (dict_keys ts) \<and> attains ts initial targets E \<and> (\<forall>D \<subset> E. \<not> attains ts initial targets D)"

lemma minimal_cuts_listed:
  assumes "enumerate_minimal_cut_sets clock initial targets ts maximum b = Inr (r, b')" and "enum_exhaustive r"
  shows "set ` set (enum_values r) = {C. minimal_cut ts initial targets C}"
proof -
  have small: "\<not> length (known_ids ts) > maximum" using assms by (auto simp: enumerate_minimal_cut_sets_def Let_def)
  obtain A b1 where A: "structural_closure clock initial ts None b = Inr (A, b1)"
    using assms small by (auto simp: enumerate_minimal_cut_sets_def Let_def)
  have reach: "set targets \<subseteq> A \<longleftrightarrow> attains ts initial targets (set (dict_keys ts))"
    using structural_closure_reachable' [OF A] by (simp add: attains_def allowed_ids_def)
  show ?thesis
  proof (cases "set targets \<subseteq> A")
    case True
    then obtain ms where ms: "enum_values r = ms"
      "enumerate_minimal clock (cut_test clock initial targets ts (known_ids ts)) 1 (known_ids ts) b1 = Inr (ms, b')"
      using assms small A by (auto simp: enumerate_minimal_cut_sets_def Let_def)
    have "distinct (known_ids ts)" by (simp add: known_ids_def)
    from cut_search.enumerate_minimal_sets(1) [OF ms(2) this]
    have "set ` set ms = {C. C \<subseteq> set (dict_keys ts) \<and> 1 \<le> card C \<and> \<not> attains ts initial targets (set (dict_keys ts) - C) \<and>
        (\<forall>D \<subset> C. 1 \<le> card D \<longrightarrow> attains ts initial targets (set (dict_keys ts) - D))}" by simp
    also have "\<dots> = {C. minimal_cut ts initial targets C}"
    proof (rule Collect_cong)
      fix C
      have pos: "1 \<le> card D \<longleftrightarrow> D \<noteq> {}" if "D \<subseteq> set (dict_keys ts)" for D
        using that by (metis One_nat_def Suc_le_eq card_gt_0_iff finite_set finite_subset)
      have empty: "attains ts initial targets (set (dict_keys ts) - {})" using True reach by simp
      show "(C \<subseteq> set (dict_keys ts) \<and> 1 \<le> card C \<and> \<not> attains ts initial targets (set (dict_keys ts) - C) \<and>
          (\<forall>D \<subset> C. 1 \<le> card D \<longrightarrow> attains ts initial targets (set (dict_keys ts) - D))) = minimal_cut ts initial targets C"
        unfolding minimal_cut_def using pos empty by (metis psubset_imp_subset subset_trans)
    qed
    finally show ?thesis using ms(1) by simp
  next
    case False
    then have "enum_values r = [[]]" using assms small A by (auto simp: enumerate_minimal_cut_sets_def Let_def)
    moreover have "minimal_cut ts initial targets C \<longleftrightarrow> C = {}" for C
      using False reach unfolding minimal_cut_def by (metis Diff_empty empty_subsetI not_psubset_empty psubsetI)
    ultimately show ?thesis by auto
  qed
qed

lemmas search_eval = enumerate_minimal_cut_sets_def enumerate_minimal_enablement_sets_def cut_test_def
  enablement_test_def enumerate_minimal_def minimal_step_def candidates_def structural_eval upt_rec
  numeral_2_eq_2 numeral_3_eq_3

lemma chain_cuts:
  "\<exists>b'. enumerate_minimal_cut_sets (\<lambda>_. 0) [''a''] [''c''] chain_ts 20 spare =
     Inr (\<lparr>enum_values = [[''t1''], [''t2'']], enum_exhaustive = True\<rparr>, b')"
  by (simp add: search_eval)

lemma chain_enablements:
  "\<exists>b'. enumerate_minimal_enablement_sets (\<lambda>_. 0) [''a''] [''c''] chain_ts 20 spare =
     Inr (\<lparr>enum_values = [[''t1'', ''t2'']], enum_exhaustive = True\<rparr>, b')"
  by (simp add: search_eval)

lemma minimal_enablements_listed:
  assumes "enumerate_minimal_enablement_sets clock initial targets ts maximum b = Inr (r, b')"
    and "enum_exhaustive r"
  shows "set ` set (enum_values r) = {E. minimal_enablement ts initial targets E}"
proof -
  obtain ms where ms: "enum_values r = ms"
    "enumerate_minimal clock (enablement_test clock initial targets ts) 0 (known_ids ts) b = Inr (ms, b')"
    using assms by (auto simp: enumerate_minimal_enablement_sets_def Let_def split: if_splits)
  have "distinct (known_ids ts)" by (simp add: known_ids_def)
  from enablement_search.enumerate_minimal_sets(1) [OF ms(2) this]
  have "set ` set ms = {E. E \<subseteq> set (dict_keys ts) \<and> attains ts initial targets (E \<inter> set (dict_keys ts)) \<and>
      (\<forall>D \<subset> E. \<not> attains ts initial targets (D \<inter> set (dict_keys ts)))}" by simp
  also have "\<dots> = {E. minimal_enablement ts initial targets E}"
    unfolding minimal_enablement_def by (rule Collect_cong) (metis Int_absorb2 psubset_imp_subset subset_trans)
  finally show ?thesis using ms(1) by simp
qed

text \<open>A family closed under supersets: its minimal members and the minimal sets that hit them all.\<close>

locale monotone_family =
  fixes P :: "'a set \<Rightarrow> bool" and U :: "'a set"
  assumes finite_universe: "finite U" and mono: "S \<subseteq> T \<Longrightarrow> T \<subseteq> U \<Longrightarrow> P S \<Longrightarrow> P T"
begin

definition least :: "'a set \<Rightarrow> bool" where
  "least E \<longleftrightarrow> E \<subseteq> U \<and> P E \<and> (\<forall>D \<subset> E. \<not> P D)"

lemma least_below: "S \<subseteq> U \<Longrightarrow> P S \<Longrightarrow> \<exists>E \<subseteq> S. least E"
proof (induction "card S" arbitrary: S rule: less_induct)
  case less
  show ?case
  proof (cases "\<exists>D \<subset> S. P D")
    case True
    then obtain D where D: "D \<subset> S" "P D" by blast
    have "finite S" using less.prems(1) finite_universe finite_subset by blast
    then have "card D < card S" using D(1) by (rule psubset_card_mono)
    then show ?thesis using less.hyps [of D] D less.prems(1) by (meson order_trans psubset_imp_subset)
  next
    case False
    then show ?thesis using less.prems unfolding least_def by blast
  qed
qed

lemma blocks_iff_hits: "\<not> P (U - C) \<longleftrightarrow> (\<forall>E. least E \<longrightarrow> E \<inter> C \<noteq> {})"
proof
  assume no: "\<not> P (U - C)"
  show "\<forall>E. least E \<longrightarrow> E \<inter> C \<noteq> {}"
  proof (intro allI impI notI)
    fix E
    assume E: "least E" "E \<inter> C = {}"
    then have "E \<subseteq> U - C" "P E" unfolding least_def by blast+
    then have "P (U - C)" using mono [OF _ Diff_subset] by blast
    then show False using no by contradiction
  qed
next
  assume hit: "\<forall>E. least E \<longrightarrow> E \<inter> C \<noteq> {}"
  show "\<not> P (U - C)"
  proof
    assume "P (U - C)"
    then obtain E where E: "E \<subseteq> U - C" "least E" using least_below [OF Diff_subset] by metis
    then have "E \<inter> C = {}" by (simp add: disjoint_iff subset_iff)
    then show False using hit E(2) by simp
  qed
qed

lemma minimal_blocks_hit:
  "C \<subseteq> U \<and> \<not> P (U - C) \<and> (\<forall>D \<subset> C. P (U - D)) \<longleftrightarrow>
   C \<subseteq> U \<and> (\<forall>E. least E \<longrightarrow> E \<inter> C \<noteq> {}) \<and> (\<forall>D \<subset> C. \<not> (\<forall>E. least E \<longrightarrow> E \<inter> D \<noteq> {}))"
  by (simp only: blocks_iff_hits [symmetric] not_not)

end

interpretation attainment: monotone_family "attains ts initial targets" "set (dict_keys ts)"
  for ts initial targets
proof
  show "S \<subseteq> T \<Longrightarrow> T \<subseteq> set (dict_keys ts) \<Longrightarrow> attains ts initial targets S \<Longrightarrow> attains ts initial targets T"
    for S T unfolding attains_def using reachable_mono [of S T "set initial" "set initial" ts] by blast
qed simp

lemma cut_sets_dual:
  assumes "enumerate_minimal_cut_sets clock initial targets ts maximum b = Inr (r, b1)" and "enum_exhaustive r"
    and "enumerate_minimal_enablement_sets clock' initial targets ts maximum' b' = Inr (q, b2)" and "enum_exhaustive q"
  shows "C \<in> set ` set (enum_values r) \<longleftrightarrow>
    C \<subseteq> set (dict_keys ts) \<and> (\<forall>e \<in> set (enum_values q). set e \<inter> C \<noteq> {}) \<and>
    (\<forall>D \<subset> C. \<exists>e \<in> set (enum_values q). set e \<inter> D = {})"
proof -
  have least: "attainment.least ts initial targets E \<longleftrightarrow> E \<in> set ` set (enum_values q)" for E
    using minimal_enablements_listed [OF assms(3,4)]
    by (simp add: attainment.least_def minimal_enablement_def)
  have members: "(\<forall>E. E \<in> set ` set (enum_values q) \<longrightarrow> E \<inter> X \<noteq> {}) \<longleftrightarrow> (\<forall>e \<in> set (enum_values q). set e \<inter> X \<noteq> {})" for X
    by auto
  have "C \<in> set ` set (enum_values r) \<longleftrightarrow> minimal_cut ts initial targets C"
    using minimal_cuts_listed [OF assms(1,2)] by simp
  also have "\<dots> \<longleftrightarrow> C \<subseteq> set (dict_keys ts) \<and> (\<forall>E. E \<in> set ` set (enum_values q) \<longrightarrow> E \<inter> C \<noteq> {}) \<and>
      (\<forall>D \<subset> C. \<not> (\<forall>E. E \<in> set ` set (enum_values q) \<longrightarrow> E \<inter> D \<noteq> {}))"
    unfolding minimal_cut_def attainment.minimal_blocks_hit least ..
  also have "\<dots> \<longleftrightarrow> C \<subseteq> set (dict_keys ts) \<and> (\<forall>e \<in> set (enum_values q). set e \<inter> C \<noteq> {}) \<and>
      (\<forall>D \<subset> C. \<not> (\<forall>e \<in> set (enum_values q). set e \<inter> D \<noteq> {}))"
    by (simp only: members)
  finally show ?thesis by (simp only: ball_simps(10) not_not)
qed

text \<open>
  C23: Exhaustive results of \<open>enumerate_minimal_cut_sets\<close> and \<open>enumerate_minimal_enablement_sets\<close> list exactly
  the minimal sets of transformations whose removal leaves a target unreachable and the minimal sets that by
  themselves reach every target; and the two are dual: the cut sets are exactly the minimal sets that meet every
  enablement set.
\<close>

theorem cut_sets_hit_enablement_sets:
  assumes "enumerate_minimal_cut_sets clock initial targets ts maximum b = Inr (r, b1)" and "enum_exhaustive r"
    and "enumerate_minimal_enablement_sets clock' initial targets ts maximum' b' = Inr (q, b2)" and "enum_exhaustive q"
  shows "set ` set (enum_values r) = {C. minimal_cut ts initial targets C} \<and>
    set ` set (enum_values q) = {E. minimal_enablement ts initial targets E} \<and>
    (\<forall>C. C \<in> set ` set (enum_values r) \<longleftrightarrow>
       C \<subseteq> set (dict_keys ts) \<and> (\<forall>e \<in> set (enum_values q). set e \<inter> C \<noteq> {}) \<and>
       (\<forall>D \<subset> C. \<exists>e \<in> set (enum_values q). set e \<inter> D = {}))"
  using minimal_cuts_listed [OF assms(1,2)] minimal_enablements_listed [OF assms(3,4)] cut_sets_dual [OF assms] by blast

theorem cut_sets_hit_enablement_sets_witness:
  "{C. minimal_cut chain_ts [''a''] [''c''] C} = {{''t1''}, {''t2''}} \<and>
    {E. minimal_enablement chain_ts [''a''] [''c''] E} = {{''t1'', ''t2''}}"
proof -
  obtain b1 where cut: "enumerate_minimal_cut_sets (\<lambda>_. 0) [''a''] [''c''] chain_ts 20 spare =
     Inr (\<lparr>enum_values = [[''t1''], [''t2'']], enum_exhaustive = True\<rparr>, b1)" using chain_cuts by blast
  obtain b2 where enable: "enumerate_minimal_enablement_sets (\<lambda>_. 0) [''a''] [''c''] chain_ts 20 spare =
     Inr (\<lparr>enum_values = [[''t1'', ''t2'']], enum_exhaustive = True\<rparr>, b2)" using chain_enablements by blast
  from cut_sets_hit_enablement_sets [OF cut _ enable] show ?thesis by simp
qed

end
