(* ===== verification/Raf_Properties.thy ===== *)
theory Raf_Properties
  imports Structural_Properties
begin

text \<open>
  Autocatalytic sets of \<open>exact_generalized_generative_raf\<close>: the maximal generalized RAFs are found exactly,
  the generative layers are the stages of a bottom-up run, and without inhibition a generative run is
  contained in a maximal RAF.
\<close>

definition raf ::
  "transformations \<Rightarrow> ident list \<Rightarrow> ident list \<Rightarrow> ident list \<Rightarrow> ident set \<Rightarrow> bool" where
  "raf ts food evidence authority S \<longleftrightarrow>
     S \<subseteq> set (dict_keys ts) \<and> S \<noteq> {} \<and>
     (\<forall>i \<in> S. supported ts evidence authority (reachable ts S (set food)) i)"

lemma is_generalized_raf_raf:
  "set c \<subseteq> set (dict_keys ts) \<Longrightarrow>
   is_generalized_raf c ts (reachable ts (set c) (set food)) ev au = raf ts food ev au (set c)"
  by (auto simp: is_generalized_raf_def raf_def)

lemma raf_loop_valid:
  assumes "fold_res (raf_step clock ts food ev au) cs (valid, b) = Inr (valid', b')"
    and "\<forall>c \<in> set cs. set c \<subseteq> set (dict_keys ts)"
  shows "valid' = valid @ map (\<lambda>c. (c, reachable ts (set c) (set food))) (filter (\<lambda>c. raf ts food ev au (set c)) cs)"
  using assms
proof (induction cs arbitrary: valid b)
  case (Cons c cs)
  obtain A b1 b2 where A: "raf_closure clock food c ts b1 = Inr (A, b2)" and
    rest: "fold_res (raf_step clock ts food ev au) cs
      (if is_generalized_raf c ts A ev au then valid @ [(c, A)] else valid, b2) = Inr (valid', b')"
    using Cons.prems(1) by (auto simp: raf_step_def [of clock ts food ev au c])
  have "A = reachable ts (set c) (set food)" by (rule raf_closure_reachable [OF A])
  then show ?case
    using Cons.IH [OF rest] Cons.prems(2) is_generalized_raf_raf [of c ts food ev au] by simp
qed simp

lemma candidates_mem:
  "c \<in> set (candidates n xs) \<longleftrightarrow> (\<exists>k. n \<le> k \<and> k \<le> length xs \<and> c \<in> set (combinations k xs))"
  by (auto simp: candidates_def less_Suc_eq_le simp del: upt_Suc)

lemma candidates_family:
  assumes "distinct ordered"
  shows "set ` set (candidates 1 ordered) = {S. S \<subseteq> set ordered \<and> S \<noteq> {}}"
proof (intro set_eqI iffI)
  fix S
  assume "S \<in> set ` set (candidates 1 ordered)"
  then obtain c k where "S = set c" "1 \<le> k" "c \<in> set (combinations k ordered)"
    by (auto simp: candidates_mem)
  then show "S \<in> {S. S \<subseteq> set ordered \<and> S \<noteq> {}}" using combinations_sound [of c k ordered] by auto
next
  fix S
  assume S: "S \<in> {S. S \<subseteq> set ordered \<and> S \<noteq> {}}"
  then obtain c where c: "c \<in> set (combinations (card S) ordered)" "set c = S"
    using combinations_complete assms by blast
  have "finite S" using S finite_subset by blast
  then have "1 \<le> card S" "card S \<le> length ordered"
    using S card_mono [of "set ordered" S] card_length [of ordered] by (auto simp: Suc_le_eq card_gt_0_iff)
  then have "c \<in> set (candidates 1 ordered)" using c(1) candidates_mem by blast
  then show "S \<in> set ` set (candidates 1 ordered)" using c(2) by blast
qed

lemma raf_run:
  assumes "exact_generalized_generative_raf clock ts food ev au maximum b = Inr (r, b')" "raf_exhaustive r"
  obtains valid b1 available layers b2 where
    "fold_res (raf_step clock ts food ev au) (candidates 1 (known_ids ts)) ([], b) = Inr (valid, b1)"
    "generative_loop clock ts ev au (set food) (known_ids ts) [] b1 = Inr ((available, layers), b2)"
    "r = \<lparr>maximal_rafs =
                    sort (filter (\<lambda>c. \<not> (\<exists>other \<in> set (dict_keys valid). set c \<subset> set other)) (dict_keys valid)),
                  full_set_is_raf = (known_ids ts \<in> set (dict_keys valid)),
                  generalized_closure = sorted_list_of_set (dict_get_default valid (known_ids ts) (set food)),
                  generative_layers = layers,
                  generative_closure = sorted_list_of_set available,
                  raf_exhaustive = True\<rparr>"
  using assms by (auto simp: exact_generalized_generative_raf_def Let_def split: if_splits)

lemma raf_valid:
  assumes "fold_res (raf_step clock ts food ev au) (candidates 1 (known_ids ts)) ([], b) = Inr (valid, b1)"
  shows "valid = map (\<lambda>c. (c, reachable ts (set c) (set food)))
           (filter (\<lambda>c. raf ts food ev au (set c)) (candidates 1 (known_ids ts)))"
    and "set ` set (dict_keys valid) = {S. raf ts food ev au S}"
proof -
  have d: "distinct (known_ids ts)" by (simp add: known_ids_def)
  have sub: "\<forall>c \<in> set (candidates 1 (known_ids ts)). set c \<subseteq> set (dict_keys ts)"
    using candidates_family [OF d] by auto
  show v: "valid = map (\<lambda>c. (c, reachable ts (set c) (set food)))
           (filter (\<lambda>c. raf ts food ev au (set c)) (candidates 1 (known_ids ts)))"
    using raf_loop_valid [OF assms sub] by simp
  have "dict_keys valid = filter (\<lambda>c. raf ts food ev au (set c)) (candidates 1 (known_ids ts))"
    by (simp add: v dict_keys_def comp_def)
  moreover have "raf ts food ev au S \<Longrightarrow> S \<in> set ` set (candidates 1 (known_ids ts))" for S
    using candidates_family [OF d] by (simp add: raf_def)
  ultimately show "set ` set (dict_keys valid) = {S. raf ts food ev au S}" by auto
qed

lemma sets_filter:
  fixes xs :: "'a::linorder list list"
  shows "set ` set (sort (filter (\<lambda>c. \<not> Q (set c)) xs)) = {S \<in> set ` set xs. \<not> Q S}"
  by auto

lemma maximal_rafs_sets:
  assumes "exact_generalized_generative_raf clock ts food ev au maximum b = Inr (r, b')" and "raf_exhaustive r"
  shows "set ` set (maximal_rafs r) = {S. raf ts food ev au S \<and> (\<forall>T. S \<subset> T \<longrightarrow> \<not> raf ts food ev au T)} \<and>
    (full_set_is_raf r \<longleftrightarrow> raf ts food ev au (set (dict_keys ts)))"
proof -
  obtain valid b1 available layers b2 where v:
    "fold_res (raf_step clock ts food ev au) (candidates 1 (known_ids ts)) ([], b) = Inr (valid, b1)" and
    r: "maximal_rafs r = sort (filter (\<lambda>c. \<not> (\<exists>other \<in> set (dict_keys valid). set c \<subset> set other)) (dict_keys valid))"
      "full_set_is_raf r = (known_ids ts \<in> set (dict_keys valid))"
    by (rule raf_run [OF assms]) simp
  note keys = raf_valid(2) [OF v]
  have larger: "(\<exists>other \<in> set (dict_keys valid). set c \<subset> set other) \<longleftrightarrow> (\<exists>T. set c \<subset> T \<and> raf ts food ev au T)" for c
  proof -
    have "(\<exists>other \<in> set (dict_keys valid). set c \<subset> set other) \<longleftrightarrow> (\<exists>T \<in> set ` set (dict_keys valid). set c \<subset> T)"
      by simp
    then show ?thesis unfolding keys by (metis mem_Collect_eq)
  qed
  have "set ` set (maximal_rafs r) = {S \<in> set ` set (dict_keys valid). \<not> (\<exists>T. S \<subset> T \<and> raf ts food ev au T)}"
    unfolding r(1) larger by (rule sets_filter)
  then have max: "set ` set (maximal_rafs r) = {S. raf ts food ev au S \<and> (\<forall>T. S \<subset> T \<longrightarrow> \<not> raf ts food ev au T)}"
    unfolding keys mem_Collect_eq by (simp only: not_ex de_Morgan_conj imp_conv_disj)
  have "known_ids ts \<in> set (candidates 1 (known_ids ts))" if "known_ids ts \<noteq> []"
  proof -
    have "xs \<in> set (combinations (length xs) xs)" for xs :: "ident list"
      by (induction xs) auto
    then show ?thesis using that by (metis One_nat_def Suc_leI candidates_mem length_greater_0_conv order_refl)
  qed
  moreover have "raf ts food ev au (set (dict_keys ts)) \<Longrightarrow> known_ids ts \<noteq> []"
    by (auto simp: raf_def known_ids_def)
  moreover have "known_ids ts \<in> set (dict_keys valid) \<longleftrightarrow>
      known_ids ts \<in> set (candidates 1 (known_ids ts)) \<and> raf ts food ev au (set (dict_keys ts))"
    by (simp add: raf_valid(1) [OF v] dict_keys_def comp_def conj_commute)
  ultimately show ?thesis using max r(2) by blast
qed

text \<open>
  C8: An exhaustive analysis lists exactly the maximal generalized RAFs, and decides whether all
  transformations together form one.
\<close>

theorem maximal_rafs_exact:
  assumes "exact_generalized_generative_raf clock ts food ev au maximum b = Inr (r, b')" and "raf_exhaustive r"
  shows "set ` set (maximal_rafs r) = {S. raf ts food ev au S \<and> (\<forall>T. S \<subset> T \<longrightarrow> \<not> raf ts food ev au T)} \<and>
    (full_set_is_raf r \<longleftrightarrow> raf ts food ev au (set (dict_keys ts)))"
  using assms by (rule maximal_rafs_sets)

section \<open>Generative layers\<close>

text \<open>The coordinates available after the given layers.\<close>

definition after_layers :: "transformations \<Rightarrow> ident list \<Rightarrow> ident list list \<Rightarrow> ident set" where
  "after_layers ts food layers = set food \<union> produced ts (concat layers)"

lemma produced_append [simp]: "produced ts (xs @ ys) = produced ts xs \<union> produced ts ys"
  by (auto simp: produced_def)

definition next_layer ::
  "transformations \<Rightarrow> ident list \<Rightarrow> ident list \<Rightarrow> ident list \<Rightarrow> ident list list \<Rightarrow> ident list" where
  "next_layer ts food ev au layers =
     filter (\<lambda>i. i \<notin> set (concat layers) \<and> supported ts ev au (after_layers ts food layers) i) (known_ids ts)"

definition staged ::
  "transformations \<Rightarrow> ident list \<Rightarrow> ident list \<Rightarrow> ident list \<Rightarrow> ident list list \<Rightarrow> bool" where
  "staged ts food ev au layers \<longleftrightarrow>
     (\<forall>k < length layers. layers ! k = next_layer ts food ev au (take k layers) \<and> layers ! k \<noteq> [])"

lemma staged_append:
  "staged ts food ev au layers \<Longrightarrow> next_layer ts food ev au layers \<noteq> [] \<Longrightarrow>
   staged ts food ev au (layers @ [next_layer ts food ev au layers])"
proof -
  let ?n = "next_layer ts food ev au layers"
  assume s: "staged ts food ev au layers" "?n \<noteq> []"
  have "(layers @ [?n]) ! k = next_layer ts food ev au (take k (layers @ [?n])) \<and> (layers @ [?n]) ! k \<noteq> []"
    if "k < length (layers @ [?n])" for k
  proof (cases "k = length layers")
    case True
    then show ?thesis using s(2) by simp
  next
    case False
    then have "k < length layers" using that by simp
    then have "(layers @ [?n]) ! k = layers ! k" "take k (layers @ [?n]) = take k layers"
      by (simp_all add: nth_append)
    then show ?thesis using s(1) \<open>k < length layers\<close> unfolding staged_def by metis
  qed
  then show ?thesis unfolding staged_def by blast
qed

lemma generative_loop_layers:
  assumes "generative_loop clock ts ev au available rest layers b = Inr ((available', layers'), b')"
    and "available = after_layers ts food layers"
    and "rest = filter (\<lambda>i. i \<notin> set (concat layers)) (known_ids ts)"
    and "staged ts food ev au layers"
  shows "available' = after_layers ts food layers' \<and> next_layer ts food ev au layers' = [] \<and>
    staged ts food ev au layers'"
  using assms
proof (induction clock ts ev au available rest layers b rule: generative_loop.induct)
  case (1 clock ts ev au available rest layers b)
  show ?case
  proof (cases "rest = []")
    case True
    then have "available' = available" "layers' = layers"
      using 1(2) by (simp_all add: generative_loop.simps [of clock ts ev au available "[]" layers b])
    moreover have "next_layer ts food ev au layers = []"
      using True 1(4) by (auto simp: next_layer_def filter_empty_conv)
    ultimately show ?thesis using 1(3,5) by (simp only:)
  next
    case False
    obtain layer b1 where layer: "layer_loop clock ts ev au available rest b = Inr (layer, b1)"
      using 1(2) False by (subst (asm) generative_loop.simps) auto
    have eq: "layer = next_layer ts food ev au layers"
      using layer_loop_filter [OF layer] 1(3,4) by (simp add: next_layer_def conj_commute)
    show ?thesis
    proof (cases "layer = []")
      case True
      then have "available' = available" "layers' = layers"
        using 1(2) False layer by (simp_all add: generative_loop.simps [of clock ts ev au available rest layers b])
      then show ?thesis using 1(3,5) eq True by (metis (no_types, lifting))
    next
      case more: False
      then have run: "generative_loop clock ts ev au (available \<union> produced ts layer)
          (filter (\<lambda>i. i \<notin> set layer) rest) (layers @ [layer]) b1 = Inr ((available', layers'), b')"
        using 1(2) False layer by (simp add: generative_loop.simps [of clock ts ev au available rest layers b])
      have "available \<union> produced ts layer = after_layers ts food (layers @ [layer])"
        using 1(3) by (auto simp: after_layers_def)
      moreover have "filter (\<lambda>i. i \<notin> set layer) rest = filter (\<lambda>i. i \<notin> set (concat (layers @ [layer]))) (known_ids ts)"
        using 1(4) by (auto intro!: filter_cong)
      moreover have "staged ts food ev au (layers @ [layer])"
        using staged_append 1(5) eq more by blast
      ultimately show ?thesis
        using 1(1) [OF False layer] more run by (simp only: fst_conv snd_conv not_False_eq_True simp_thms)
    qed
  qed
qed

lemma generative_layers_run:
  assumes "exact_generalized_generative_raf clock ts food ev au maximum b = Inr (r, b')" and "raf_exhaustive r"
  shows "staged ts food ev au (generative_layers r) \<and>
    next_layer ts food ev au (generative_layers r) = [] \<and>
    set (generative_closure r) = after_layers ts food (generative_layers r)"
proof -
  obtain b1 available layers b2 where run:
    "generative_loop clock ts ev au (set food) (known_ids ts) [] b1 = Inr ((available, layers), b2)"
    and r: "generative_layers r = layers" "generative_closure r = sorted_list_of_set available"
    by (rule raf_run [OF assms]) simp
  have "available = after_layers ts food layers \<and> next_layer ts food ev au layers = [] \<and>
    staged ts food ev au layers"
    by (rule generative_loop_layers [OF run]) (simp_all add: after_layers_def produced_Nil staged_def)
  moreover have "finite (after_layers ts food layers)" by (simp add: after_layers_def)
  ultimately show ?thesis by (simp add: r)
qed

text \<open>
  Layer by layer the analysis runs exactly the transformations not yet run whose inputs and
  catalysts are present and inhibitors absent among food and earlier products; it stops only when no
  further one can run, and the generative closure is the food with everything produced.
\<close>

theorem generative_layers_stages:
  assumes "exact_generalized_generative_raf clock ts food ev au maximum b = Inr (r, b')" and "raf_exhaustive r"
  shows "staged ts food ev au (generative_layers r) \<and>
    next_layer ts food ev au (generative_layers r) = [] \<and>
    set (generative_closure r) = after_layers ts food (generative_layers r)"
  using assms by (rule generative_layers_run)

lemma chain_flow:
  "flows (lookup chain_ts ''t1'') = ({''a''}, {''b''})" "flows (lookup chain_ts ''t2'') = ({''b''}, {''c''})"
  by (simp_all add: structural_eval)

lemma chain_supported:
  "supported chain_ts ev au A ''t1'' \<longleftrightarrow> ''a'' \<in> A" "supported chain_ts ev au A ''t2'' \<longleftrightarrow> ''b'' \<in> A"
  by (simp_all only: supported_def Let_def chain_flow fst_conv) (simp_all add: chain_ts_def lookup_def dict_get_def)

lemma chain_raf:
  "\<exists>b'. exact_generalized_generative_raf (\<lambda>_. 0) chain_ts [''a''] [] [] 20 spare =
     Inr (\<lparr>maximal_rafs = [[''t1'', ''t2'']], full_set_is_raf = True, generalized_closure = [''a'', ''b'', ''c''],
            generative_layers = [[''t1''], [''t2'']], generative_closure = [''a'', ''b'', ''c''],
            raf_exhaustive = True\<rparr>, b')"
proof -
  have ids: "known_ids chain_ts = [''t1'', ''t2'']" by (simp add: structural_eval)
  have cands: "candidates 1 [''t1'', ''t2''] = [[''t1''], [''t2''], [''t1'', ''t2'']]"
    by (simp add: candidates_def upt_rec numeral_2_eq_2)
  show ?thesis
    unfolding exact_generalized_generative_raf_def ids Let_def cands
    by (simp add: raf_step_def raf_closure_def raf_loop.simps sorted_set_def chain_flow spend_def spare_def Let_def
        is_generalized_raf_def chain_supported generative_loop.simps produced_Cons produced_Nil dict_get_default_def
        dict_keys_def insert_commute psubset_eq)
qed

theorem maximal_rafs_exact_witness:
  "{S. raf chain_ts [''a''] [] [] S \<and> (\<forall>T. S \<subset> T \<longrightarrow> \<not> raf chain_ts [''a''] [] [] T)} = {{''t1'', ''t2''}} \<and>
   raf chain_ts [''a''] [] [] {''t1'', ''t2''}"
proof -
  from chain_raf obtain b' where run: "exact_generalized_generative_raf (\<lambda>_. 0) chain_ts [''a''] [] [] 20 spare =
     Inr (\<lparr>maximal_rafs = [[''t1'', ''t2'']], full_set_is_raf = True, generalized_closure = [''a'', ''b'', ''c''],
            generative_layers = [[''t1''], [''t2'']], generative_closure = [''a'', ''b'', ''c''],
            raf_exhaustive = True\<rparr>, b')" by blast
  show ?thesis using maximal_rafs_exact [OF run] by (auto simp: chain_ts_def dict_keys_def)
qed

theorem generative_layers_stages_witness:
  "staged chain_ts [''a''] [] [] [[''t1''], [''t2'']] \<and>
   after_layers chain_ts [''a''] [[''t1''], [''t2'']] = {''a'', ''b'', ''c''}"
proof -
  from chain_raf obtain b' where run: "exact_generalized_generative_raf (\<lambda>_. 0) chain_ts [''a''] [] [] 20 spare =
     Inr (\<lparr>maximal_rafs = [[''t1'', ''t2'']], full_set_is_raf = True, generalized_closure = [''a'', ''b'', ''c''],
            generative_layers = [[''t1''], [''t2'']], generative_closure = [''a'', ''b'', ''c''],
            raf_exhaustive = True\<rparr>, b')" by blast
  show ?thesis using generative_layers_stages [OF run] by simp
qed

lemma supported_mono:
  "supported ts ev au A i \<Longrightarrow> inhibitors (lookup ts i) = [] \<Longrightarrow> A \<subseteq> B \<Longrightarrow> supported ts ev au B i"
  unfolding supported_def Let_def by (metis Int_empty_left empty_set subset_trans)

lemma staged_reachable:
  assumes "staged ts food ev au layers" "k \<le> length layers"
  shows "after_layers ts food (take k layers) \<subseteq> reachable ts (set (concat (take k layers))) (set food)"
  using assms(2)
proof (induction k)
  case 0
  then show ?case by (auto simp: after_layers_def produced_Nil intro: reachable.initial)
next
  case (Suc k)
  let ?L = "take k layers" and ?l = "layers ! k"
  have split: "take (Suc k) layers = ?L @ [?l]" using Suc.prems by (simp add: take_Suc_conv_app_nth)
  let ?R = "reachable ts (set (concat (?L @ [?l]))) (set food)"
  have before: "after_layers ts food ?L \<subseteq> ?R"
    using Suc reachable_mono [of "set (concat ?L)" "set (concat (?L @ [?l]))" "set food" "set food" ts] by auto
  have "outs ts i \<subseteq> ?R" if i: "i \<in> set ?l" for i
  proof -
    have "?l = next_layer ts food ev au ?L" using assms(1) Suc.prems unfolding staged_def by simp
    then have "supported ts ev au (after_layers ts food ?L) i" using i by (simp add: next_layer_def)
    then have "ins ts i \<subseteq> ?R" using before by (auto simp: supported_def Let_def)
    moreover have "closed_under ts (set (concat (?L @ [?l]))) ?R" by (rule reachable_closed)
    ultimately show ?thesis using i by (simp add: closed_under_def)
  qed
  then have "produced ts ?l \<subseteq> ?R" unfolding produced_def by (rule UN_least)
  then show ?case using before unfolding split by (simp add: after_layers_def)
qed

lemma staged_raf:
  assumes "staged ts food ev au layers" "layers \<noteq> []"
    and "\<And>t. t \<in> set (dict_values ts) \<Longrightarrow> inhibitors t = []"
  shows "raf ts food ev au (set (concat layers))"
proof -
  have each: "i \<in> set (dict_keys ts) \<and> supported ts ev au (reachable ts (set (concat layers)) (set food)) i"
    if i: "i \<in> set (concat layers)" for i
  proof -
    obtain k where k: "k < length layers" "i \<in> set (layers ! k)" using i by (metis UN_E in_set_conv_nth set_concat)
    have "layers ! k = next_layer ts food ev au (take k layers)" using assms(1) k(1) unfolding staged_def by simp
    then have n: "i \<in> set (dict_keys ts)" "supported ts ev au (after_layers ts food (take k layers)) i"
      using k(2) by (auto simp: next_layer_def)
    have "set (concat (take k layers)) \<subseteq> set (concat layers)" by (auto dest: in_set_takeD)
    then have "after_layers ts food (take k layers) \<subseteq> reachable ts (set (concat layers)) (set food)"
      using staged_reachable [OF assms(1), of k] k(1) reachable_mono [OF _ order_refl]
      by (meson less_imp_le_nat subset_trans)
    moreover have "inhibitors (lookup ts i) = []" using assms(3) [OF lookup_value [OF n(1)]] .
    ultimately show ?thesis using n supported_mono by blast
  qed
  have "set (concat layers) \<noteq> {}"
    using assms(1,2) by (cases layers) (force simp: staged_def)+
  then show ?thesis using each by (auto simp: raf_def)
qed

text \<open>
  Without inhibitors everything the generative run executes is a generalized RAF, contained in a
  maximal one of the result: bottom-up growth never leaves the autocatalytic core.
\<close>

theorem generative_run_in_maximal_raf:
  assumes "exact_generalized_generative_raf clock ts food ev au maximum b = Inr (r, b')" and "raf_exhaustive r"
    and "\<And>t. t \<in> set (dict_values ts) \<Longrightarrow> inhibitors t = []" and "generative_layers r \<noteq> []"
  shows "\<exists>M \<in> set (maximal_rafs r). set (concat (generative_layers r)) \<subseteq> set M"
proof -
  let ?S = "set (concat (generative_layers r))"
  have S: "raf ts food ev au ?S"
    using staged_raf generative_layers_run [OF assms(1,2)] assms(3,4) by blast
  have up: "\<exists>M. S \<subseteq> M \<and> raf ts food ev au M \<and> (\<forall>T. M \<subset> T \<longrightarrow> \<not> raf ts food ev au T)"
    if "raf ts food ev au S" for S
    using that
  proof (induction "card (set (dict_keys ts)) - card S" arbitrary: S rule: less_induct)
    case less
    show ?case
    proof (cases "\<exists>T. S \<subset> T \<and> raf ts food ev au T")
      case True
      then obtain T where T: "S \<subset> T" "raf ts food ev au T" by blast
      then have sub: "T \<subseteq> set (dict_keys ts)" by (simp add: raf_def)
      then have "card S < card T" "card T \<le> card (set (dict_keys ts))"
        using T(1) finite_subset [OF sub] by (simp_all add: psubset_card_mono card_mono)
      then show ?thesis using less.hyps [of T] T by (meson diff_less_mono2 less_le_trans psubset_imp_subset subset_trans)
    qed (use less.prems in blast)
  qed
  obtain M where M: "?S \<subseteq> M" "raf ts food ev au M \<and> (\<forall>T. M \<subset> T \<longrightarrow> \<not> raf ts food ev au T)"
    using up [OF S] by metis
  then have "M \<in> set ` set (maximal_rafs r)" using maximal_rafs_sets [OF assms(1,2)] by simp
  then obtain m where "m \<in> set (maximal_rafs r)" "M = set m" by (rule imageE)
  then show ?thesis using M(1) by metis
qed

theorem generative_run_in_maximal_raf_witness:
  "\<exists>M \<in> set [[''t1'', ''t2'']]. {''t1'', ''t2''} \<subseteq> set M"
proof -
  from chain_raf obtain b' where run: "exact_generalized_generative_raf (\<lambda>_. 0) chain_ts [''a''] [] [] 20 spare =
     Inr (\<lparr>maximal_rafs = [[''t1'', ''t2'']], full_set_is_raf = True, generalized_closure = [''a'', ''b'', ''c''],
            generative_layers = [[''t1''], [''t2'']], generative_closure = [''a'', ''b'', ''c''],
            raf_exhaustive = True\<rparr>, b')" by blast
  have "\<And>t. t \<in> set (dict_values chain_ts) \<Longrightarrow> inhibitors t = []" by (auto simp: chain_ts_def dict_values_def)
  from generative_run_in_maximal_raf [OF run _ this] show ?thesis by simp
qed

end
