(* ===== verification/Curves.thy ===== *)
theory Curves
  imports Structural
begin

text \<open>
  Arrival and service curves: \<open>CurvePoint\<close> and \<open>ServiceCurveSpec\<close> of \<open>v6/models.py\<close> (the part the
  analysis reads) and \<open>_interpolate\<close>, \<open>_inverse_crossing\<close> and \<open>deterministic_curve_bounds\<close> of
  \<open>v6/structural_analysis.py\<close>. A curve is its list of (offset, cumulative) points, exact rationals. The
  backlog is proved to be the greatest vertical deviation; the delay is not the greatest horizontal one
  when the service curve has a flat piece.
\<close>

section \<open>Curves and their bounds\<close>

type_synonym point = "rat \<times> rat"

definition pairwise :: "'a list \<Rightarrow> ('a \<times> 'a) list" where
  "pairwise xs = zip xs (tl xs)"

text \<open>The checks of \<open>curve_integrity\<close> on the points, with the field's \<open>min_length=2\<close>.\<close>

definition curve_integrity :: "point list \<Rightarrow> bool" where
  "curve_integrity points \<longleftrightarrow>
     length points \<ge> 2 \<and> length points \<le> 4096 \<and>
     fst (hd points) = 0 \<and> snd (hd points) = 0 \<and>
     (\<forall>(l, r) \<in> set (pairwise (map fst points)). \<not> r \<le> l) \<and>
     (\<forall>v \<in> set (map snd points). \<not> v < 0) \<and>
     (\<forall>(l, r) \<in> set (pairwise (map snd points)). \<not> r < l)"

fun interpolate_loop :: "(point \<times> point) list \<Rightarrow> rat \<Rightarrow> rat option" where
  "interpolate_loop [] tm = None"
| "interpolate_loop (((left_t, left_v), (right_t, right_v)) # rest) tm =
     (if left_t \<le> tm \<and> tm \<le> right_t
      then if tm = left_t \<or> right_t = left_t then Some left_v
           else Some (left_v + (right_v - left_v) * (tm - left_t) / (right_t - left_t))
      else interpolate_loop rest tm)"

definition interpolate :: "point list \<Rightarrow> rat \<Rightarrow> rat option" where
  "interpolate points tm =
     (if tm < fst (hd points) \<or> tm > fst (last points) then None
      else case interpolate_loop (pairwise points) tm of
             Some v \<Rightarrow> Some v
           | None \<Rightarrow> Some (snd (last points)))"

fun crossing_loop :: "point list \<Rightarrow> (point \<times> point) list \<Rightarrow> rat \<Rightarrow> rat \<Rightarrow> rat option" where
  "crossing_loop points [] v not_before = None"
| "crossing_loop points (((left_t, left_v), (right_t, right_v)) # rest) v not_before =
     (if right_t < not_before \<or> right_v < v then crossing_loop points rest v not_before
      else let start_t = max left_t not_before in
           case interpolate points start_t of
             None \<Rightarrow> crossing_loop points rest v not_before
           | Some start_v \<Rightarrow>
               if start_v \<ge> v then Some start_t
               else if right_v = start_v then crossing_loop points rest v not_before
               else Some (start_t + (v - start_v) * (right_t - start_t) / (right_v - start_v)))"

definition inverse_crossing :: "point list \<Rightarrow> rat \<Rightarrow> rat \<Rightarrow> rat option" where
  "inverse_crossing points v not_before =
     (if v > snd (last points) then None else crossing_loop points (pairwise points) v not_before)"

record curve_bounds =
  backlog :: rat
  delay :: "rat option"
  bounds_exhaustive :: bool

definition candidate_times :: "point list \<Rightarrow> point list \<Rightarrow> rat \<Rightarrow> rat list" where
  "candidate_times arrival service horizon =
     sorted_set
       (filter (\<lambda>t. 0 \<le> t \<and> t \<le> horizon) (map fst (arrival @ service)) @
        List.map_filter (\<lambda>(_, v). case inverse_crossing arrival v 0 of
            Some c \<Rightarrow> if c \<le> horizon then Some c else None
          | None \<Rightarrow> None) service)"

fun bounds_loop ::
  "(nat \<Rightarrow> int) \<Rightarrow> point list \<Rightarrow> point list \<Rightarrow> rat list \<Rightarrow> rat \<times> rat \<times> bool \<Rightarrow> budget \<Rightarrow>
   (rat \<times> rat \<times> bool) analysed" where
  "bounds_loop clock arrival service [] s b = Inr (s, b)"
| "bounds_loop clock arrival service (tm # tms) s b =
     res_bind (spend clock 1 b) (\<lambda>b.
       let (backlog, delay, exhaustive) = s in
       case (interpolate arrival tm, interpolate service tm) of
         (Some a, Some v) \<Rightarrow>
           (let backlog = max backlog (a - v) in
            case inverse_crossing service a tm of
              None \<Rightarrow> bounds_loop clock arrival service tms (backlog, delay, False) b
            | Some c \<Rightarrow> bounds_loop clock arrival service tms (backlog, max delay (c - tm), exhaustive) b)
       | _ \<Rightarrow> bounds_loop clock arrival service tms (backlog, delay, False) b)"

definition deterministic_curve_bounds ::
  "(nat \<Rightarrow> int) \<Rightarrow> point list \<Rightarrow> point list \<Rightarrow> budget \<Rightarrow> curve_bounds analysed" where
  "deterministic_curve_bounds clock arrival service b =
     require (arrival \<noteq> [] \<and> service \<noteq> []) AnalysisIndexError
       (let horizon = min (fst (last arrival)) (fst (last service)) in
        res_bind (bounds_loop clock arrival service (candidate_times arrival service horizon) (0, 0, True) b)
          (\<lambda>((backlog, delay, exhaustive), b).
            Inr (\<lparr>backlog = max backlog 0, delay = (if exhaustive then Some delay else None),
                   bounds_exhaustive = exhaustive\<rparr>, b)))"

section \<open>Curves are piecewise linear\<close>

lemma pairwise_simps [simp]:
  "pairwise [] = []" "pairwise [x] = []" "pairwise (x # y # xs) = (x, y) # pairwise (y # xs)"
  by (simp_all add: pairwise_def)

definition rising :: "point list \<Rightarrow> bool" where
  "rising points \<longleftrightarrow> points \<noteq> [] \<and> sorted_wrt (<) (map fst points)"

lemma pairwise_less_sorted:
  "\<forall>(l, r) \<in> set (pairwise xs). \<not> r \<le> l \<Longrightarrow> sorted_wrt (<) (xs :: rat list)"
proof (induction xs)
  case (Cons x xs)
  show ?case
  proof (cases xs)
    case (Cons y ys)
    have "sorted_wrt (<) xs" using Cons.IH Cons.prems Cons by simp
    moreover have "x < y" using Cons.prems Cons by simp
    ultimately show ?thesis using Cons by auto
  qed simp
qed simp

lemma integrity_rising: "curve_integrity points \<Longrightarrow> rising points"
  using pairwise_less_sorted [of "map fst points"] by (auto simp: curve_integrity_def rising_def)

lemma segment_times:
  fixes points :: "point list"
  assumes "sorted_wrt (<) (map fst points)" "((lt, lv), (rt, rv)) \<in> set (pairwise points)"
  shows "lt < rt \<and> fst (hd points) \<le> lt \<and> rt \<le> fst (last points) \<and> (lt, lv) \<in> set points \<and> (rt, rv) \<in> set points"
  using assms
proof (induction points)
  case (Cons p points)
  show ?case
  proof (cases points)
    case Nil
    then show ?thesis using Cons.prems by simp
  next
    case (Cons q rest)
    have sorted: "sorted_wrt (<) (map fst points)" "\<forall>u \<in> set points. fst p < fst u" using Cons.prems(1) by auto
    consider "((lt, lv), (rt, rv)) = (p, q)" | "((lt, lv), (rt, rv)) \<in> set (pairwise points)"
      using Cons.prems(2) Cons by auto
    then show ?thesis
    proof cases
      case 1
      have "q = last points \<or> fst q < fst (last points)" using sorted(1) Cons by auto
      then have "fst q \<le> fst (last points)" by auto
      then show ?thesis using 1 sorted(2) Cons by auto
    next
      case 2
      then have IH: "lt < rt" "fst (hd points) \<le> lt" "rt \<le> fst (last points)" "(lt, lv) \<in> set points" "(rt, rv) \<in> set points"
        using Cons.IH sorted(1) by blast+
      moreover have "fst p < fst (hd points)" using sorted(2) Cons by simp
      ultimately show ?thesis using Cons by auto
    qed
  qed
qed simp

definition line :: "point \<times> point \<Rightarrow> rat \<Rightarrow> rat" where
  "line seg t = (let ((lt, lv), (rt, rv)) = seg in lv + (rv - lv) * (t - lt) / (rt - lt))"

lemma interpolate_loop_line:
  assumes "sorted_wrt (<) (map fst points)" "((lt, lv), (rt, rv)) \<in> set (pairwise points)" "lt \<le> t" "t \<le> rt"
  shows "interpolate_loop (pairwise points) t = Some (line ((lt, lv), (rt, rv)) t)"
  using assms(1,2)
proof (induction points)
  case (Cons p points)
  show ?case
  proof (cases points)
    case Nil
    then show ?thesis using Cons.prems by simp
  next
    case points: (Cons q rest)
    obtain pt pv qt qv where pq: "p = (pt, pv)" "q = (qt, qv)" by (cases p; cases q)
    have sorted: "sorted_wrt (<) (map fst points)" "pt < qt" using Cons.prems(1) points pq by auto
    consider "((lt, lv), (rt, rv)) = (p, q)" | "((lt, lv), (rt, rv)) \<in> set (pairwise points)"
      using Cons.prems(2) points by auto
    then show ?thesis
    proof cases
      case 1
      then show ?thesis using assms(3,4) points pq by (auto simp: line_def)
    next
      case 2
      have seg: "lt < rt" "qt \<le> lt" using segment_times [OF sorted(1) 2] points pq by auto
      show ?thesis
      proof (cases "t \<le> qt")
        case True
        then have t: "t = lt" "t = qt" using seg(2) assms(3) by auto
        have "interpolate_loop (pairwise points) t = Some (line ((lt, lv), (rt, rv)) t)"
          using Cons.IH [OF sorted(1) 2] .
        moreover have "interpolate_loop (pairwise points) t = Some qv"
        proof -
          obtain r rs where "rest = r # rs" using 2 points by (cases rest) auto
          then show ?thesis using t(2) points pq sorted(1) by (cases r) auto
        qed
        ultimately show ?thesis using t points pq sorted(2) by (simp add: line_def)
      next
        case False
        then show ?thesis using Cons.IH [OF sorted(1) 2] points pq by simp
      qed
    qed
  qed
qed simp

lemma interpolate_line:
  assumes "rising points" "((lt, lv), (rt, rv)) \<in> set (pairwise points)" "lt \<le> t" "t \<le> rt"
  shows "interpolate points t = Some (line ((lt, lv), (rt, rv)) t)"
  using interpolate_loop_line [of points lt lv rt rv t] segment_times [of points lt lv rt rv] assms
  by (auto simp: interpolate_def rising_def)

lemma segment_covers:
  fixes points :: "point list"
  assumes "sorted_wrt (<) (map fst points)" "length points \<ge> 2" "fst (hd points) \<le> x" "y \<le> fst (last points)" "x \<le> y"
    "\<forall>u \<in> fst ` set points. \<not> (x < u \<and> u < y)"
  shows "\<exists>lt lv rt rv. ((lt, lv), (rt, rv)) \<in> set (pairwise points) \<and> lt \<le> x \<and> y \<le> rt"
  using assms
proof (induction points)
  case (Cons p points)
  obtain q rest where points: "points = q # rest" using Cons.prems(2) by (cases points) auto
  obtain pt pv qt qv where pq: "p = (pt, pv)" "q = (qt, qv)" by (cases p; cases q)
  show ?case
  proof (cases "y \<le> qt")
    case True
    then show ?thesis using Cons.prems(3) points pq by auto
  next
    case False
    then have x: "qt \<le> x" using Cons.prems(6) points pq by force
    have "rest \<noteq> []" using False Cons.prems(4) points pq by auto
    then have "\<exists>lt lv rt rv. ((lt, lv), (rt, rv)) \<in> set (pairwise points) \<and> lt \<le> x \<and> y \<le> rt"
      using Cons.IH Cons.prems points pq x by (auto simp: Suc_le_eq)
    then show ?thesis using points by auto
  qed
qed simp

definition slope :: "point \<times> point \<Rightarrow> rat" where
  "slope seg = (snd (snd seg) - snd (fst seg)) / (fst (snd seg) - fst (fst seg))"

lemma line_slope: "line seg t = line seg 0 + slope seg * t"
  by (cases seg) (auto simp: line_def slope_def diff_divide_distrib add_divide_distrib algebra_simps)

lemma linear_max:
  fixes c m x y t :: rat
  assumes "x \<le> t" "t \<le> y"
  shows "c + m * t \<le> max (c + m * x) (c + m * y)"
proof (cases "0 \<le> m")
  case True
  then have "m * t \<le> m * y" using assms(2) by (simp add: mult_left_mono)
  then show ?thesis by simp
next
  case False
  then have "m * t \<le> m * x" using assms(1) by (simp add: mult_left_mono_neg)
  then show ?thesis by simp
qed

text \<open>The vertical deviation at a time where both curves are defined.\<close>

definition deviation :: "point list \<Rightarrow> point list \<Rightarrow> rat \<Rightarrow> rat" where
  "deviation arrival service t = the (interpolate arrival t) - the (interpolate service t)"

lemma deviation_max:
  assumes "rising a" "rising s" "length a \<ge> 2" "length s \<ge> 2" "x \<le> t" "t \<le> y"
    "fst (hd a) \<le> x" "fst (hd s) \<le> x" "y \<le> fst (last a)" "y \<le> fst (last s)"
    "\<forall>u \<in> fst ` set (a @ s). \<not> (x < u \<and> u < y)"
  shows "deviation a s t \<le> max (deviation a s x) (deviation a s y)"
proof -
  have xy: "x \<le> y" using assms(5,6) by simp
  obtain la lva ra rva where A: "((la, lva), (ra, rva)) \<in> set (pairwise a)" "la \<le> x" "y \<le> ra"
    using segment_covers [of a x y] assms xy by (auto simp: rising_def)
  obtain ls lvs rs rvs where S: "((ls, lvs), (rs, rvs)) \<in> set (pairwise s)" "ls \<le> x" "y \<le> rs"
    using segment_covers [of s x y] assms xy by (auto simp: rising_def)
  let ?A = "((la, lva), (ra, rva))" and ?S = "((ls, lvs), (rs, rvs))"
  have dev: "deviation a s u = (line ?A 0 - line ?S 0) + (slope ?A - slope ?S) * u" if "x \<le> u" "u \<le> y" for u
  proof -
    have "deviation a s u = line ?A u - line ?S u"
      using interpolate_line [OF assms(1) A(1), of u] interpolate_line [OF assms(2) S(1), of u] A S that
      by (simp add: deviation_def)
    also have "\<dots> = (line ?A 0 - line ?S 0) + (slope ?A - slope ?S) * u"
      using line_slope [of ?A u] line_slope [of ?S u] by (simp add: algebra_simps)
    finally show ?thesis .
  qed
  show ?thesis using dev [of x] dev [of y] dev [of t] linear_max [OF assms(5,6)] xy assms(5,6) by auto
qed

section \<open>The loop over candidate times\<close>

lemma bounds_loop_backlog:
  assumes "bounds_loop clock a s tms (bl, dl, ex) b = Inr ((bl', dl', ex'), b')"
    and "\<forall>t \<in> set tms. interpolate a t \<noteq> None \<and> interpolate s t \<noteq> None"
  shows "bl \<le> bl' \<and> (\<forall>t \<in> set tms. deviation a s t \<le> bl') \<and> (bl' = bl \<or> (\<exists>t \<in> set tms. bl' = deviation a s t))"
  using assms
proof (induction tms arbitrary: bl dl ex b)
  case (Cons t tms)
  obtain u v where uv: "interpolate a t = Some u" "interpolate s t = Some v" using Cons.prems(2) by auto
  obtain dl2 ex2 b2 where rest: "bounds_loop clock a s tms (max bl (u - v), dl2, ex2) b2 = Inr ((bl', dl', ex'), b')"
    using Cons.prems(1) uv by (auto simp: Let_def split: option.splits)
  have dev: "deviation a s t = u - v" using uv by (simp add: deviation_def)
  show ?case
    using Cons.IH [OF rest] Cons.prems(2) dev by (auto simp: max_def split: if_splits)
qed simp

lemma inverse_crossing_after:
  assumes "crossing_loop points segs v nb = Some c" "\<forall>((lt, lv), (rt, rv)) \<in> set segs. lt < rt"
  shows "nb \<le> c"
  using assms
proof (induction points segs v nb rule: crossing_loop.induct)
  case (2 points lt lv rt rv rest v nb)
  then show ?case
    by (auto simp: Let_def max_def split: if_splits option.splits intro!: add_increasing2 divide_nonneg_nonneg mult_nonneg_nonneg)
qed simp

lemma interpolate_defined:
  "rising points \<Longrightarrow> fst (hd points) \<le> t \<Longrightarrow> t \<le> fst (last points) \<Longrightarrow> interpolate points t \<noteq> None"
  by (auto simp: interpolate_def split: option.splits)

section \<open>Exact backlog\<close>

lemma candidate_times_mem:
  "t \<in> set (candidate_times a s h) \<longleftrightarrow>
     t \<in> fst ` set (a @ s) \<and> 0 \<le> t \<and> t \<le> h \<or> (\<exists>v \<in> snd ` set s. inverse_crossing a v 0 = Some t \<and> t \<le> h)"
  unfolding candidate_times_def
  by (force simp: List.map_filter_def split: option.splits if_splits)

lemma crossing_nonneg:
  assumes "rising points" "inverse_crossing points v nb = Some c"
  shows "nb \<le> c"
proof -
  have "\<forall>((lt, lv), (rt, rv)) \<in> set (pairwise points). lt < rt"
    using segment_times assms(1) by (auto simp: rising_def)
  then show ?thesis
    using assms(2) inverse_crossing_after [of points "pairwise points" v nb c]
    by (auto simp: inverse_crossing_def split: if_splits)
qed

lemma breakpoints_around:
  fixes T :: "rat set"
  assumes "finite T" "lo \<in> T" "hi \<in> T" "lo \<le> t" "t \<le> hi"
  shows "\<exists>x \<in> T. \<exists>y \<in> T. x \<le> t \<and> t \<le> y \<and> (\<forall>u \<in> T. \<not> (x < u \<and> u < y))"
proof -
  let ?x = "Max {u \<in> T. u \<le> t}" and ?y = "Min {u \<in> T. t \<le> u}"
  have f: "finite {u \<in> T. u \<le> t}" "{u \<in> T. u \<le> t} \<noteq> {}" "finite {u \<in> T. t \<le> u}" "{u \<in> T. t \<le> u} \<noteq> {}"
    using assms by auto
  have x: "?x \<in> T" "?x \<le> t" using Max_in [OF f(1,2)] by auto
  have y: "?y \<in> T" "t \<le> ?y" using Min_in [OF f(3,4)] by auto
  have "\<not> (?x < u \<and> u < ?y)" if "u \<in> T" for u
    using that Max_ge [OF f(1), of u] Min_le [OF f(3), of u] by (cases "u \<le> t") auto
  then show ?thesis using x y by blast
qed

lemma last_nonneg: "curve_integrity p \<Longrightarrow> 0 \<le> fst (last p)"
proof -
  assume p: "curve_integrity p"
  then have "sorted_wrt (<) (map fst p)" "p \<noteq> []" "fst (hd p) = 0"
    using integrity_rising by (auto simp: curve_integrity_def rising_def)
  then show ?thesis by (cases p) (auto simp: less_imp_le)
qed

lemma interpolate_origin:
  assumes "rising p" "hd p = (0, 0)" "length p \<ge> 2"
  shows "interpolate p 0 = Some 0"
proof -
  obtain q ps where "p = (0, 0) # q # ps" using assms(2,3) by (cases p; cases "tl p") auto
  then show ?thesis using assms(1) by (cases q; cases ps rule: rev_cases)
      (auto simp: interpolate_def rising_def less_imp_le not_less)
qed

lemma integrity_facts:
  assumes "curve_integrity p"
  shows "rising p" "hd p = (0, 0)" "length p \<ge> 2" "p \<noteq> []"
  using assms integrity_rising by (auto simp: curve_integrity_def prod_eq_iff)

lemma deviation_at_breakpoint:
  assumes ok: "curve_integrity arrival" "curve_integrity service"
    and h: "h = min (fst (last arrival)) (fst (last service))" and t: "0 \<le> t" "t \<le> h"
  shows "\<exists>x \<in> fst ` set (arrival @ service). 0 \<le> x \<and> x \<le> h \<and> deviation arrival service t \<le> deviation arrival service x"
proof -
  let ?T = "{u \<in> fst ` set (arrival @ service). 0 \<le> u \<and> u \<le> h}"
  note a = integrity_facts [OF ok(1)] and s = integrity_facts [OF ok(2)]
  have "(0, 0) \<in> set arrival" using a(2,4) by (metis list.set_sel(1))
  then have "0 \<in> fst ` set (arrival @ service)" by force
  then have zero: "0 \<in> ?T" using last_nonneg ok h by auto
  have hor: "h \<in> ?T" using a(4) s(4) last_nonneg ok h by (auto simp: min_def)
  obtain x y where xy: "x \<in> ?T" "y \<in> ?T" "x \<le> t" "t \<le> y" "\<forall>u \<in> ?T. \<not> (x < u \<and> u < y)"
    using breakpoints_around [OF _ zero hor t] by auto
  have "\<forall>u \<in> fst ` set (arrival @ service). \<not> (x < u \<and> u < y)"
    using xy by (auto 0 3 dest: order_less_imp_le order_trans)
  then have "deviation arrival service t \<le> max (deviation arrival service x) (deviation arrival service y)"
    using xy a s h by (intro deviation_max) auto
  then show ?thesis using xy(1,2) unfolding le_max_iff_disj by blast
qed

text \<open>
  C34: For two curves that pass validation the reported backlog is exactly the greatest vertical
  deviation of arrival over service at any time up to the common horizon, not only at breakpoints.
\<close>

theorem backlog_exact:
  assumes "curve_integrity arrival" and "curve_integrity service"
    and "deterministic_curve_bounds clock arrival service b = Inr (r, b')"
  shows "(\<forall>t. 0 \<le> t \<and> t \<le> min (fst (last arrival)) (fst (last service)) \<longrightarrow>
       deviation arrival service t \<le> backlog r) \<and>
    (\<exists>t. 0 \<le> t \<and> t \<le> min (fst (last arrival)) (fst (last service)) \<and> deviation arrival service t = backlog r)"
proof -
  let ?h = "min (fst (last arrival)) (fst (last service))"
  let ?C = "set (candidate_times arrival service ?h)"
  note a = integrity_facts [OF assms(1)] and s = integrity_facts [OF assms(2)]
  obtain bl dl ex where loop: "bounds_loop clock arrival service (candidate_times arrival service ?h) (0, 0, True) b
      = Inr ((bl, dl, ex), b')" and r: "backlog r = max bl 0"
    using assms(3) a(4) s(4) by (auto simp: deterministic_curve_bounds_def Let_def)
  have bounds: "0 \<le> t \<and> t \<le> ?h" if "t \<in> ?C" for t
    using that candidate_times_mem crossing_nonneg [OF a(1)] by blast
  then have "\<forall>t \<in> ?C. interpolate arrival t \<noteq> None \<and> interpolate service t \<noteq> None"
    using interpolate_defined a(1,2) s(1,2) by (metis fst_conv min.boundedE)
  from bounds_loop_backlog [OF loop this] have fact: "0 \<le> bl" "\<forall>t \<in> ?C. deviation arrival service t \<le> bl"
    "bl = 0 \<or> (\<exists>t \<in> ?C. bl = deviation arrival service t)"
    by blast+
  have "deviation arrival service t \<le> bl" if "0 \<le> t" "t \<le> ?h" for t
    using deviation_at_breakpoint [OF assms(1,2) refl that] candidate_times_mem fact(2)
    by (meson order_trans)
  moreover have "\<exists>t. 0 \<le> t \<and> t \<le> ?h \<and> deviation arrival service t = bl"
  proof (cases "bl = 0")
    case True
    have "deviation arrival service 0 = 0" using interpolate_origin a s by (simp add: deviation_def)
    then show ?thesis using True last_nonneg assms(1,2) by auto
  next
    case False
    then show ?thesis using fact(3) bounds by metis
  qed
  ultimately show ?thesis using r fact(1) by (simp add: max_def)
qed

lemmas curve_eval = deterministic_curve_bounds_def candidate_times_def sorted_set_def interpolate_def
  inverse_crossing_def List.map_filter_simps List.map_filter_def Let_def spend_def max_def min_def insort_key_def

lemma burst_bounds:
  "\<exists>b'. deterministic_curve_bounds (\<lambda>_. 0) [(0, 0), (1, 4), (4, 4)] [(0, 0), (4, 8)] \<lparr>remaining = 100, deadline_at = 10, ticks = 1\<rparr>
     = Inr (\<lparr>backlog = 2, delay = Some 1, bounds_exhaustive = True\<rparr>, b')"
  by (simp add: curve_eval)

theorem backlog_exact_witness:
  "deviation [(0, 0), (1, 4), (4, 4)] [(0, 0), (4, 8)] (3 / 2) \<le> 2 \<and>
   (\<exists>t. deviation [(0, 0), (1, 4), (4, 4)] [(0, 0), (4, 8)] t = 2)"
proof -
  obtain b' where run: "deterministic_curve_bounds (\<lambda>_. 0) [(0, 0), (1, 4), (4, 4)] [(0, 0), (4, 8)]
      \<lparr>remaining = 100, deadline_at = 10, ticks = 1\<rparr> = Inr (\<lparr>backlog = 2, delay = Some 1, bounds_exhaustive = True\<rparr>, b')"
    using burst_bounds by blast
  have "curve_integrity [(0, 0), (1, 4), (4, 4)]" "curve_integrity [(0, 0), (4, 8)]"
    by (simp_all add: curve_integrity_def)
  from backlog_exact [OF this run] show ?thesis by auto
qed


end
