(* ===== verification/Growth_Model.thy ===== *)
theory Growth_Model
  imports Prelude Complex_Main "HOL-Library.Product_Lexorder"
begin

text \<open>
  The documents of the growth game (\<open>v6/models.py\<close>): \<open>GrowthState\<close> and its parts, successors,
  actions, contracts, capability frontiers, and the Action, Capability and unit documents they bind. A
  \<open>Rational\<close> field is the number it denotes; a \<open>GrowthFrontierState\<close> is a state whose \<open>gs_frontier\<close> is
  present. Record fields carry a prefix for their class.
\<close>

datatype outcome = success | partial | failure | timeout

datatype attribution = endogenous | external | attribution_unresolved

record interval =
  iv_lower :: rat
  iv_upper :: rat

record domain =
  gd_unit :: string
  gd_target :: rat
  gd_service_floor :: rat
  gd_quality_floor :: rat
  gd_coverage_floor :: rat

record work =
  wk_id :: ident
  wk_stage :: ident
  wk_remaining :: rat
  wk_deadline :: rat

record reservation =
  rv_resource :: ident
  rv_owner :: ident
  rv_quantity :: rat
  rv_until :: rat

record checkpoint =
  cp_time :: rat
  cp_capacities :: "(ident, interval) dict"

record activation =
  av_action_id :: ident
  av_rule_id :: ident
  av_producer_id :: ident
  av_successor_id :: ident
  av_depth :: int
  av_time :: rat
  av_parent :: digest

text \<open>The fields \<open>GrowthFrontierState\<close> adds to \<open>GrowthState\<close>.\<close>

record frontier_part =
  fp_digest :: digest
  fp_enabled :: "ident list"
  fp_depth :: int
  fp_lineage :: "activation list"

record gstate =
  gs_capacities :: "(ident, interval) dict"
  gs_quality :: "(ident, rat) dict"
  gs_coverage :: "(ident, rat) dict"
  gs_resources :: "(ident, rat) dict"
  gs_reservations :: "reservation list"
  gs_queue :: "work list"
  gs_obligations :: "work list"
  gs_elapsed :: rat
  gs_checkpoints :: "checkpoint list"
  gs_evidence :: "(ident, rat) dict"
  gs_pending :: "ident list"
  gs_used :: "ident list"
  gs_assumptions :: "(ident, rat) dict"
  gs_models :: "ident list"
  gs_spent :: "(ident, rat) dict"
  gs_charges :: "(ident, (ident, rat) dict) dict"
  gs_offered :: "(ident, rat) dict"
  gs_completed :: "(ident, rat) dict"
  gs_attribution :: attribution
  gs_actual_evidence :: "digest list"
  gs_live :: "digest list"
  gs_hazards :: "ident list"
  gs_frontier :: "frontier_part option"

record successor =
  su_id :: ident
  su_outcome :: outcome
  su_models :: "ident list"
  su_duration :: rat
  su_capacity_delta :: "(ident, interval) dict"
  su_quality :: "(ident, rat) dict"
  su_coverage :: "(ident, rat) dict"
  su_charges :: "(ident, (ident, rat) dict) dict"
  su_reservations :: "reservation list"
  su_arrivals :: "work list"
  su_debt_added :: "work list"
  su_offered :: "(ident, rat) dict"
  su_completed :: "(ident, rat) dict"
  su_evidence_added :: "(ident, rat) dict"
  su_evidence_removed :: "ident list"
  su_pending_added :: "ident list"
  su_pending_resolved :: "ident list"
  su_assumptions_added :: "(ident, rat) dict"
  su_assumptions_removed :: "ident list"
  su_attribution :: attribution

record recipe =
  re_action_digest :: digest
  re_required_evidence :: "ident list"
  re_required_assumptions :: "ident list"
  re_minimum_capacities :: "(ident, rat) dict"
  re_interactions :: "ident list"
  re_earliest :: rat
  re_expires :: rat
  re_successors :: "successor list"

record window =
  win_start :: rat
  win_end :: rat
  win_task_factor :: rat
  win_research_factor :: rat

record search_limits =
  li_max_witness_nodes :: nat
  li_max_states :: nat
  li_max_expansions :: nat
  li_max_policies :: nat
  li_max_depth :: nat

record comparator =
  co_id :: ident
  co_excluded :: "ident list"

datatype planning_boundary = shared_budget | external_paid

record contract =
  gc_snapshot :: digest
  gc_units :: digest
  gc_time_origin :: time
  gc_domains :: "(ident, domain) dict"
  gc_resource_units :: "(ident, string) dict"
  gc_resource_floors :: "(ident, rat) dict"
  gc_shared_resources :: "(ident, rat) dict"
  gc_joint_coefficients :: "(ident, (ident, rat) dict) dict"
  gc_joint_service_until :: rat
  gc_queue_limits :: "(ident, rat) dict"
  gc_debt_limits :: "(ident, rat) dict"
  gc_blocking_ids :: "ident list"
  gc_entry_evidence :: "ident list"
  gc_models :: "ident list"
  gc_initial_state :: gstate
  gc_windows :: "window list"
  gc_continuation_horizon :: rat
  gc_continuation_task_factor :: rat
  gc_continuation_research_factor :: rat
  gc_deadline :: rat
  gc_max_decisions :: nat
  gc_actions :: "recipe list"
  gc_comparators :: "comparator list"
  gc_comparison_margin :: rat
  gc_cost_order :: "ident list"
  gc_monetary_resource :: "ident option"
  gc_search_limits :: search_limits
  gc_planning_charge :: "(ident, rat) dict"
  gc_planning_duration :: rat
  gc_planning_boundary :: planning_boundary

section \<open>Bound documents\<close>

record lifecycle =
  lc_valid_from :: time
  lc_valid_until :: time
  lc_withdrawn_at :: "time option"

definition lifecycle_ordered :: "lifecycle \<Rightarrow> bool" where
  "lifecycle_ordered l \<longleftrightarrow>
     \<not> lc_valid_until l \<le> lc_valid_from l \<and>
     (case lc_withdrawn_at l of None \<Rightarrow> True | Some w \<Rightarrow> \<not> w < lc_valid_from l)"

record branch_effect =
  br_outcome :: outcome
  br_must_add :: "digest list"
  br_may_add :: "digest list"
  br_must_remove :: "digest list"
  br_may_remove :: "digest list"
  br_resource_lower :: "(ident, rat) dict"
  br_resource_upper :: "(ident, rat) dict"
  br_evidence_routes :: "ident list"
  br_resolves_blockers :: "ident list"
  br_debt :: "ident list"
  br_rollback_obligations :: "ident list"
  br_hazards_added :: "ident list"
  br_hazards_removed :: "ident list"
  br_time_upper :: rat
  br_cost_upper :: rat
  br_quality_lower :: rat
  br_safety_lower :: rat
  br_verification_load_upper :: rat
  br_independence_erosion_upper :: rat
  br_correlation_concentration_upper :: rat
  br_cut_exposure_upper :: rat

text \<open>\<open>BranchEffect.interval_integrity\<close>: the validator raises unless all of this holds.\<close>

definition interval_integrity :: "branch_effect \<Rightarrow> bool" where
  "interval_integrity b \<longleftrightarrow>
     set (dict_keys (br_resource_lower b)) = set (dict_keys (br_resource_upper b)) \<and>
     (\<forall>(k, v) \<in> set (br_resource_lower b). \<not> v > the (dict_get (br_resource_upper b) k)) \<and>
     \<not> br_time_upper b < 0 \<and> \<not> br_cost_upper b < 0 \<and>
     (\<forall>v \<in> {br_verification_load_upper b, br_independence_erosion_upper b,
            br_correlation_concentration_upper b, br_cut_exposure_upper b}. \<not> v < 0) \<and>
     set (br_hazards_added b) \<inter> set (br_hazards_removed b) = {} \<and>
     distinct (br_must_add b) \<and> distinct (br_may_add b) \<and>
     distinct (br_must_remove b) \<and> distinct (br_may_remove b) \<and>
     (set (br_must_add b) \<union> set (br_may_add b)) \<inter> (set (br_must_remove b) \<union> set (br_may_remove b)) = {} \<and>
     distinct (br_evidence_routes b) \<and> distinct (br_resolves_blockers b) \<and> distinct (br_debt b) \<and>
     distinct (br_rollback_obligations b) \<and> distinct (br_hazards_added b) \<and> distinct (br_hazards_removed b)"

record capability =
  cap_id :: ident
  cap_adapter :: ident
  cap_verifier :: ident
  cap_policy_digest :: digest
  cap_image_digest :: digest
  cap_materials :: "digest list"
  cap_output_schema_name :: ident
  cap_output_schema_digest :: digest
  cap_repeatable :: bool
  cap_progress_measure :: "ident option"
  cap_branches :: "branch_effect list"

definition four_outcomes :: "capability \<Rightarrow> bool" where
  "four_outcomes c \<longleftrightarrow>
     length (cap_branches c) = 4 \<and>
     br_outcome ` set (cap_branches c) = {success, partial, failure, timeout} \<and>
     cap_adapter c \<noteq> cap_verifier c \<and>
     \<not> (cap_repeatable c \<and> cap_progress_measure c = None) \<and>
     distinct (cap_materials c)"

record action_spec =
  ac_id :: ident
  ac_capability :: digest
  ac_required :: "digest list"
  ac_prohibited_hazards :: "ident list"
  ac_protected :: "digest list"

record unit_definition =
  un_dimensions :: "(ident, int) dict"
  un_scale :: rat

record unit_registry =
  ur_units :: "(string, unit_definition) dict"
  ur_coordinate_units :: "(ident, string) dict"
  ur_time_unit :: string

record snapshot =
  sn_unit_registry :: digest
  sn_objects :: "digest list"

text \<open>
  A member of the object map. Documents the game only asks for their \<open>spec.lifecycle\<close> are
  \<open>OtherDoc\<close>.
\<close>

datatype document =
  ActionDoc action_spec
| CapabilityDoc capability
| PolicyDoc "digest list" \<comment> \<open>ExecutionPolicy: its allowed image digests\<close>
| SnapshotDoc snapshot
| UnitsDoc unit_registry
| OtherDoc "lifecycle option"

fun doc_lifecycle :: "document option \<Rightarrow> lifecycle option" where
  "doc_lifecycle (Some (OtherDoc l)) = l"
| "doc_lifecycle _ = None"

type_synonym objects = "(digest, document) dict"

record binding =
  bi_action_id :: ident
  bi_action_digest :: digest
  bi_capability_digest :: digest
  bi_output_schema_digest :: digest
  bi_policy_digest :: digest
  bi_lifecycle :: lifecycle

record rule =
  ru_id :: ident
  ru_producer_id :: ident
  ru_successor_id :: ident
  ru_activated :: "ident list"
  ru_capabilities :: "digest list"
  ru_evidence :: "ident list"
  ru_models :: "ident list"
  ru_minimum_capacities :: "(ident, rat) dict"
  ru_minimum_resources :: "(ident, rat) dict"
  ru_valid_from :: rat
  ru_expires :: rat

record frontier =
  fr_contract_digest :: digest
  fr_initial :: "ident list"
  fr_latent :: "ident list"
  fr_bindings :: "binding list"
  fr_rules :: "rule list"
  fr_max_depth :: int
  fr_initial_lineage :: "activation list"

datatype policy_node =
  PolicyNode (pn_state: digest) (pn_action: "ident option") (pn_entry: bool)
    (pn_branches: "(ident \<times> policy_node) list") (pn_effects: "(ident, digest) dict")

record objective =
  ob_entry :: rat
  ob_attainment :: rat
  ob_cost :: "(ident, rat) dict"
  ob_debt :: "(ident, rat) dict"
  ob_duration :: rat

section \<open>Errors and digests\<close>

text \<open>
  \<open>GrowthError\<close> carries its code; the others are the built-in exceptions of a missing key, of
  \<open>next\<close> and \<open>min\<close> on nothing, of an attribute of a document of another class, and of pydantic.
  \<open>Diverges\<close> stands for a loop that does not return.
\<close>

datatype growth_error =
  GrowthError string | KeyError | StopIteration | EmptyError | AttributeError | ValidationError
| ZeroDivision | Diverges

text \<open>
  The digest functions: \<open>document_digest\<close> and \<open>content_digest\<close> take SHA-256 of the canonical JSON of
  \<open>model_dump\<close>, a pydantic function, so each is a parameter of the model.
\<close>

record digests =
  dg_state :: "gstate \<Rightarrow> digest"
  dg_effect :: "successor \<Rightarrow> digest"
  dg_window :: "window \<Rightarrow> digest"
  dg_checkpoint :: "checkpoint \<Rightarrow> digest"
  dg_node :: "policy_node \<Rightarrow> digest"
  dg_document :: "document \<Rightarrow> digest"
  dg_contract :: "contract \<Rightarrow> digest"
  dg_frontier :: "frontier \<Rightarrow> digest"
  dg_schema :: "ident \<Rightarrow> digest"
  dg_input :: "digest \<Rightarrow> digest list \<Rightarrow> digest option \<Rightarrow> digest"
  dg_checked :: "digest \<Rightarrow> digest option \<Rightarrow> objective \<Rightarrow> digest"

definition item :: "('k, 'v) dict \<Rightarrow> 'k \<Rightarrow> growth_error + 'v" where
  "item d k = (case dict_get d k of None \<Rightarrow> Inl KeyError | Some v \<Rightarrow> Inr v)"

lemma item_Inr [simp]: "item d k = Inr v \<longleftrightarrow> dict_get d k = Some v"
  by (simp add: item_def split: option.splits)

lemma item_Inl [simp]: "item d k = Inl e \<longleftrightarrow> e = KeyError \<and> dict_get d k = None"
  by (auto simp: item_def split: option.splits)

text \<open>\<open>all(...)\<close> over a generator whose body may raise.\<close>

fun all_in :: "('a \<Rightarrow> 'e + bool) \<Rightarrow> 'a list \<Rightarrow> 'e + bool" where
  "all_in f [] = Inr True"
| "all_in f (x # xs) = res_bind (f x) (\<lambda>ok. if ok then all_in f xs else Inr False)"

lemma all_in_True [simp]: "all_in f xs = Inr True \<longleftrightarrow> (\<forall>x \<in> set xs. f x = Inr True)"
  by (induction xs) (auto split: if_splits)

definition res_require :: "'e + bool \<Rightarrow> 'e \<Rightarrow> 'e + 'a \<Rightarrow> 'e + 'a" where
  "res_require m e k = res_bind m (\<lambda>ok. require ok e k)"

lemma res_require_Inr [res_simps, simp]: "res_require m e k = Inr x \<longleftrightarrow> m = Inr True \<and> k = Inr x"
  by (cases m) (auto simp: res_require_def)

text \<open>\<open>for x in xs: ...\<close> with a body that only checks.\<close>

fun each :: "('a \<Rightarrow> 'e + unit) \<Rightarrow> 'a list \<Rightarrow> 'e + unit" where
  "each f [] = Inr ()"
| "each f (x # xs) = res_bind (f x) (\<lambda>_. each f xs)"

lemma each_Inr [simp]: "each f xs = Inr () \<longleftrightarrow> (\<forall>x \<in> set xs. f x = Inr ())"
  by (induction xs) auto

lemma each_Inr_unit [simp]: "each f xs = Inr u \<longleftrightarrow> (\<forall>x \<in> set xs. f x = Inr ())"
  by (cases u) simp

abbreviation then_do :: "'e + unit \<Rightarrow> 'e + 'a \<Rightarrow> 'e + 'a" where
  "then_do m k \<equiv> res_bind m (\<lambda>_. k)"

definition action_at :: "objects \<Rightarrow> digest \<Rightarrow> growth_error + action_spec" where
  "action_at objects d = res_bind (item objects d)
     (\<lambda>x. case x of ActionDoc a \<Rightarrow> Inr a | _ \<Rightarrow> Inl AttributeError)"

definition capability_at :: "objects \<Rightarrow> digest \<Rightarrow> growth_error + capability" where
  "capability_at objects d = res_bind (item objects d)
     (\<lambda>x. case x of CapabilityDoc c \<Rightarrow> Inr c | _ \<Rightarrow> Inl AttributeError)"

definition units_at :: "objects \<Rightarrow> digest \<Rightarrow> growth_error + unit_registry" where
  "units_at objects d = res_bind (item objects d)
     (\<lambda>x. case x of UnitsDoc u \<Rightarrow> Inr u | _ \<Rightarrow> Inl AttributeError)"

lemma action_at_Inr [simp]: "action_at objects d = Inr a \<longleftrightarrow> dict_get objects d = Some (ActionDoc a)"
  by (auto simp: action_at_def item_def res_bind_def split: option.splits document.splits)

lemma capability_at_Inr [simp]: "capability_at objects d = Inr c \<longleftrightarrow> dict_get objects d = Some (CapabilityDoc c)"
  by (auto simp: capability_at_def item_def res_bind_def split: option.splits document.splits)

lemma units_at_Inr [simp]: "units_at objects d = Inr u \<longleftrightarrow> dict_get objects d = Some (UnitsDoc u)"
  by (auto simp: units_at_def item_def res_bind_def split: option.splits document.splits)

text \<open>\<open>next(x for x in xs if P x)\<close>.\<close>

definition first_of :: "('a \<Rightarrow> bool) \<Rightarrow> 'a list \<Rightarrow> growth_error + 'a" where
  "first_of P xs = (case List.find P xs of None \<Rightarrow> Inl StopIteration | Some x \<Rightarrow> Inr x)"

lemma first_of_Inr: "first_of P xs = Inr x \<Longrightarrow> x \<in> set xs \<and> P x"
  by (auto simp: first_of_def find_Some_iff split: option.splits)

end
