(* ===== verification/Growth_Ledger.thy ===== *)
theory Growth_Ledger
  imports Growth_Model
begin

text \<open>
  The ledger of the growth game (\<open>v6/growth.py\<close>): \<open>normalize\<close> and the pydantic validation it ends with,
  \<open>state_digest\<close>, \<open>check_state\<close>, and the successors a state admits.
\<close>

section \<open>Field validation\<close>

text \<open>
  \<open>str\<close> of a \<open>Fraction\<close> as a \<open>Rational\<close> field: the pattern always matches, the length is limited to 1234.
\<close>

definition rational_length :: "rat \<Rightarrow> nat" where
  "rational_length q =
     (let (n, d) = quotient_of q
      in (if n < 0 then 1 else 0) + length (show_nat (nat \<bar>n\<bar>)) +
         (if d = 1 then 0 else 1 + length (show_nat (nat d))))"

definition fits :: "rat \<Rightarrow> bool" where
  "fits q \<longleftrightarrow> rational_length q \<le> 1234"

text \<open>For evaluation: digits counted over integers.\<close>

function digits :: "int \<Rightarrow> int" where
  "digits k = (if k < 10 then 1 else 1 + digits (k div 10))"
  by auto
termination by (relation "measure nat") auto

declare digits.simps [simp del]

lemma digits_show: "int (length (show_nat n)) = digits (int n)"
proof (induction n rule: show_nat.induct)
  case (1 n)
  then show ?case by (subst show_nat.simps, subst digits.simps) (simp add: zdiv_int)
qed

text \<open>The digits of an unknown integer are not counted: the count follows the binary digits.\<close>

fun bits :: "num \<Rightarrow> unit list" where
  "bits num.One = [()]"
| "bits (num.Bit0 n) = () # bits n"
| "bits (num.Bit1 n) = () # bits n"

fun digits_within :: "unit list \<Rightarrow> int \<Rightarrow> int" where
  "digits_within [] k = 1"
| "digits_within (_ # fuel) k = (if k < 10 then 1 else 1 + digits_within fuel (k div 10))"

lemma digits_within: "k < 2 ^ length fuel \<Longrightarrow> digits_within fuel k = digits k"
proof (induction fuel arbitrary: k)
  case (Cons u fuel)
  have "k div 10 < 2 ^ length fuel" if "10 \<le> k" using Cons.prems that by simp
  then show ?case using Cons.IH [of "k div 10"] by (subst digits.simps) simp
qed (subst digits.simps, simp)

lemma double_power: "(2::int) ^ length (bits n) + 2 ^ length (bits n) = 2 ^ length (() # bits n)"
  by simp

lemma bits_bound: "numeral n < (2 ^ length (bits n) :: int)"
proof (induction n)
  case (Bit0 n)
  from add_strict_mono [OF Bit0 Bit0] show ?case
    by (simp only: numeral_Bit0 [of n] bits.simps double_power [symmetric])
next
  case (Bit1 n)
  then have "numeral n + 1 \<le> (2 ^ length (bits n) :: int)" by (rule zless_imp_add1_zle)
  from add_less_le_mono [OF Bit1 this] show ?case
    by (simp only: numeral_Bit1 [of n] bits.simps double_power [symmetric] add.assoc)
qed simp

lemma digits_code [code]: "digits 0 = 1" "digits (Int.Pos n) = digits_within (bits n) (Int.Pos n)" "digits (Int.Neg n) = 1"
proof -
  show "digits 0 = 1" "digits (Int.Neg n) = 1" by (subst digits.simps, simp)+
  show "digits (Int.Pos n) = digits_within (bits n) (Int.Pos n)" using digits_within [OF bits_bound] by simp
qed

lemma fits_code [code]:
  "fits q = (let (n, d) = quotient_of q
     in (if n < 0 then 1 else 0) + digits \<bar>n\<bar> + (if d = 1 then 0 else 1 + digits d) \<le> 1234)"
proof -
  obtain n d where q: "quotient_of q = (n, d)" by (cases "quotient_of q")
  then have "0 < d" using quotient_of_denom_pos by blast
  then show ?thesis
    using digits_show [of "nat \<bar>n\<bar>"] digits_show [of "nat d"] by (auto simp: fits_def rational_length_def q)
qed

text \<open>The \<open>max_length\<close> and \<open>min_length\<close> of a list field.\<close>

definition at_most :: "int \<Rightarrow> 'a list \<Rightarrow> bool" where
  "at_most n xs \<longleftrightarrow> int (length xs) \<le> n"

definition at_least :: "int \<Rightarrow> 'a list \<Rightarrow> bool" where
  "at_least n xs \<longleftrightarrow> n \<le> int (length xs)"

definition interval_rationals :: "(ident, interval) dict \<Rightarrow> rat list" where
  "interval_rationals d = concat (map (\<lambda>(k, v). [iv_lower v, iv_upper v]) d)"

definition state_rationals :: "gstate \<Rightarrow> rat list" where
  "state_rationals s =
     interval_rationals (gs_capacities s) @ dict_values (gs_quality s) @ dict_values (gs_coverage s) @
     dict_values (gs_resources s) @ concat (map (\<lambda>r. [rv_quantity r, rv_until r]) (gs_reservations s)) @
     concat (map (\<lambda>w. [wk_remaining w, wk_deadline w]) (gs_queue s @ gs_obligations s)) @ [gs_elapsed s] @
     concat (map (\<lambda>p. cp_time p # interval_rationals (cp_capacities p)) (gs_checkpoints s)) @
     dict_values (gs_evidence s) @ dict_values (gs_assumptions s) @ dict_values (gs_spent s) @
     concat (map dict_values (dict_values (gs_charges s))) @ dict_values (gs_offered s) @
     dict_values (gs_completed s) @
     (case gs_frontier s of None \<Rightarrow> [] | Some f \<Rightarrow> map av_time (fp_lineage f))"

definition valid_fields :: "gstate \<Rightarrow> bool" where
  "valid_fields s \<longleftrightarrow>
     at_least 3 (gs_capacities s) \<and> at_most 32 (gs_capacities s) \<and>
     at_least 3 (gs_quality s) \<and> at_most 32 (gs_quality s) \<and>
     at_least 3 (gs_coverage s) \<and> at_most 32 (gs_coverage s) \<and>
     at_least 1 (gs_resources s) \<and> at_most 32 (gs_resources s) \<and>
     at_most 128 (gs_reservations s) \<and> at_most 128 (gs_queue s) \<and> at_most 128 (gs_obligations s) \<and>
     at_most 64 (gs_checkpoints s) \<and>
     (\<forall>p \<in> set (gs_checkpoints s). at_least 3 (cp_capacities p) \<and> at_most 32 (cp_capacities p)) \<and>
     at_most 128 (gs_evidence s) \<and> at_most 128 (gs_pending s) \<and> at_most 32 (gs_used s) \<and>
     at_most 128 (gs_assumptions s) \<and> at_most 32 (gs_models s) \<and> at_most 32 (gs_spent s) \<and>
     at_most 16 (gs_charges s) \<and> at_most 32 (gs_offered s) \<and> at_most 32 (gs_completed s) \<and>
     at_most 128 (gs_actual_evidence s) \<and> at_most 10000 (gs_live s) \<and> at_most 128 (gs_hazards s) \<and>
     (case gs_frontier s of None \<Rightarrow> True
      | Some f \<Rightarrow> at_least 1 (fp_enabled f) \<and> at_most 16 (fp_enabled f) \<and> 0 \<le> fp_depth f \<and>
          fp_depth f \<le> 16 \<and> at_most 16 (fp_lineage f) \<and>
          (\<forall>x \<in> set (fp_lineage f). 1 \<le> av_depth x \<and> av_depth x \<le> 16)) \<and>
     (\<forall>q \<in> set (state_rationals s). fits q)"

section \<open>Normal form\<close>

definition normal_form :: "gstate \<Rightarrow> gstate" where
  "normal_form s = s\<lparr>
     gs_models := sorted_set (gs_models s),
     gs_used := sorted_set (gs_used s),
     gs_pending := sorted_set (gs_pending s),
     gs_actual_evidence := sorted_set (gs_actual_evidence s),
     gs_live := sorted_set (gs_live s),
     gs_hazards := sorted_set (gs_hazards s),
     gs_queue := sort_key wk_id (gs_queue s),
     gs_obligations := sort_key wk_id (gs_obligations s),
     gs_reservations := sort_key (\<lambda>r. (rv_resource r, rv_owner r, rv_until r)) (gs_reservations s),
     gs_checkpoints := sort_key cp_time (gs_checkpoints s),
     gs_frontier := map_option (\<lambda>f. f\<lparr>
       fp_enabled := sort (fp_enabled f),
       fp_lineage := sort_key av_action_id (fp_lineage f)\<rparr>) (gs_frontier s)\<rparr>"

definition normalize :: "gstate \<Rightarrow> growth_error + gstate" where
  "normalize s =
     (let n = normal_form s in require (valid_fields n) ValidationError (Inr n))"

definition state_digest :: "digests \<Rightarrow> gstate \<Rightarrow> growth_error + digest" where
  "state_digest dg s = res_bind (normalize s) (\<lambda>n. Inr (dg_state dg n))"

lemma normalize_Inr [res_simps]: "normalize s = Inr n \<longleftrightarrow> n = normal_form s \<and> valid_fields n"
  by (auto simp: normalize_def Let_def)

section \<open>State invariants\<close>

definition check_intervals :: "(ident, interval) dict \<Rightarrow> bool \<Rightarrow> growth_error + unit" where
  "check_intervals values nonnegative =
     require (\<forall>(k, v) \<in> set values. iv_lower v \<le> iv_upper v \<and> (\<not> nonnegative \<or> iv_lower v \<ge> 0))
       (GrowthError ''growth_interval_invalid'') (Inr ())"

definition check_nonnegative :: "(ident, rat) dict \<Rightarrow> growth_error + unit" where
  "check_nonnegative values =
     require (\<forall>v \<in> set (dict_values values). v \<ge> 0) (GrowthError ''growth_negative_quantity'') (Inr ())"

fun sum_res :: "('a \<Rightarrow> 'e + rat) \<Rightarrow> 'a list \<Rightarrow> 'e + rat" where
  "sum_res f [] = Inr 0"
| "sum_res f (x # xs) = res_bind (f x) (\<lambda>v. res_bind (sum_res f xs) (\<lambda>s. Inr (v + s)))"

definition add_to :: "('k, rat) dict \<Rightarrow> 'k \<Rightarrow> rat \<Rightarrow> ('k, rat) dict" where
  "add_to d k v = dict_set d k (dict_get_default d k 0 + v)"

definition check_domain :: "gstate \<Rightarrow> ident \<times> domain \<Rightarrow> growth_error + unit" where
  "check_domain s kd =
     (let (k, d) = kd in
      res_bind (item (gs_capacities s) k) (\<lambda>cap.
      require (iv_lower cap \<ge> gd_service_floor d) (GrowthError ''growth_service_floor'')
      (res_bind (item (gs_quality s) k) (\<lambda>q.
       require (gd_quality_floor d \<le> q \<and> q \<le> 1) (GrowthError ''growth_quality_floor'')
       (res_bind (item (gs_coverage s) k) (\<lambda>v.
        require (gd_coverage_floor d \<le> v \<and> v \<le> 1) (GrowthError ''growth_coverage_floor'') (Inr ())))))))"

definition work_step ::
  "contract \<Rightarrow> gstate \<Rightarrow> work \<Rightarrow> ident list \<times> (ident, rat) dict \<Rightarrow>
   growth_error + ident list \<times> (ident, rat) dict" where
  "work_step c s w acc =
     (let (seen, totals) = acc in
      require (wk_id w \<notin> set seen) (GrowthError ''growth_work_duplicate'')
      (require (wk_stage w \<in> set (dict_keys (gc_domains c)) \<and> wk_remaining w \<ge> 0)
        (GrowthError ''growth_work_invalid'')
      (require (wk_remaining w = 0 \<or> wk_deadline w > gs_elapsed s) (GrowthError ''growth_work_deadline'')
       (Inr (wk_id w # seen, add_to totals (wk_stage w) (wk_remaining w))))))"

definition check_queue ::
  "contract \<Rightarrow> gstate \<Rightarrow> work list \<Rightarrow> (ident, rat) dict \<Rightarrow> ident list \<Rightarrow> growth_error + ident list" where
  "check_queue c s queue limits seen =
     res_bind (fold_res (work_step c s) queue (seen, [])) (\<lambda>(seen, totals).
     res_require (all_in (\<lambda>(k, v). res_bind (item limits k) (\<lambda>l. Inr (v \<le> l))) totals)
       (GrowthError ''growth_backlog_limit'') (Inr seen))"

definition reservation_step ::
  "contract \<Rightarrow> gstate \<Rightarrow> reservation \<Rightarrow> (ident, rat) dict \<Rightarrow> growth_error + (ident, rat) dict" where
  "reservation_step c s r reserved =
     require (rv_resource r \<in> set (dict_keys (gc_shared_resources c)) \<and> rv_quantity r \<ge> 0)
       (GrowthError ''growth_reservation_domain'')
     (Inr (if rv_until r > gs_elapsed s then add_to reserved (rv_resource r) (rv_quantity r) else reserved))"

definition check_shared ::
  "contract \<Rightarrow> gstate \<Rightarrow> (ident, rat) dict \<Rightarrow> ident \<times> rat \<Rightarrow> growth_error + unit" where
  "check_shared c s reserved ka =
     (let (key, amount) = ka in
      res_bind (item (gc_joint_coefficients c) key) (\<lambda>coefficients.
      res_bind (sum_res (\<lambda>(k, v). res_bind (item (gs_capacities s) k) (\<lambda>cap. Inr (v * iv_upper cap)))
                  coefficients) (\<lambda>joint.
      require (joint + dict_get_default reserved key 0 \<le> amount)
        (GrowthError ''growth_shared_resource_double_booking'') (Inr ()))))"

definition check_checkpoint :: "contract \<Rightarrow> gstate \<Rightarrow> checkpoint \<Rightarrow> growth_error + unit" where
  "check_checkpoint c s p =
     require (set (dict_keys (cp_capacities p)) = set (dict_keys (gc_domains c)) \<and>
              0 \<le> cp_time p \<and> cp_time p \<le> gs_elapsed s)
       (GrowthError ''growth_checkpoint_invalid'')
     (check_intervals (cp_capacities p) True)"

definition check_state :: "contract \<Rightarrow> gstate \<Rightarrow> growth_error + unit" where
  "check_state c s =
     require (set (dict_keys (gs_capacities s)) = set (dict_keys (gc_domains c)) \<and>
              set (dict_keys (gs_quality s)) = set (dict_keys (gc_domains c)) \<and>
              set (dict_keys (gs_coverage s)) = set (dict_keys (gc_domains c)))
       (GrowthError ''growth_domains_mismatch'')
     (then_do (check_intervals (gs_capacities s) True)
     (require (set (dict_keys (gs_resources s)) = set (dict_keys (gc_resource_units c)))
        (GrowthError ''growth_resource_domain'')
     (require (0 \<le> gs_elapsed s \<and> gs_elapsed s \<le> gc_deadline c) (GrowthError ''growth_deadline'')
     (require (set (gs_models s) \<subseteq> set (gc_models c)) (GrowthError ''growth_model_domain'')
     (then_do (each (check_domain s) (gc_domains c))
     (then_do (each (\<lambda>(k, v). require (v \<ge> dict_get_default (gc_resource_floors c) k 0)
        (GrowthError ''growth_resource_floor'') (Inr ())) (gs_resources s))
     (res_bind (check_queue c s (gs_queue s) (gc_queue_limits c) []) (\<lambda>seen.
      res_bind (check_queue c s (gs_obligations s) (gc_debt_limits c) seen) (\<lambda>_.
      res_bind (fold_res (reservation_step c s) (gs_reservations s) []) (\<lambda>reserved.
      then_do (each (check_shared c s reserved) (gc_shared_resources c))
      (then_do (each (check_checkpoint c s) (gs_checkpoints s))
      (require (distinct (map cp_time (gs_checkpoints s))) (GrowthError ''growth_checkpoint_invalid'')
        (Inr ())))))))))))))"

section \<open>Successors\<close>

definition successors :: "gstate \<Rightarrow> recipe \<Rightarrow> successor list" where
  "successors s r =
     sort_key su_id (filter (\<lambda>b. set (gs_models s) \<inter> set (su_models b) \<noteq> {}) (re_successors r))"

lemma set_successors: "set (successors s r) = {b \<in> set (re_successors r). set (gs_models s) \<inter> set (su_models b) \<noteq> {}}"
  by (auto simp: successors_def)

end
