(* ===== verification/Growth_Frontier.thy ===== *)
theory Growth_Frontier
  imports Growth_Ledger
begin

text \<open>
  \<open>v6/growth_frontier.py\<close>: model enablement. A frontier declares which actions are enabled at first and
  which rules enable others; a state carries the enabled actions and the lineage of activations. The
  \<open>while\<close> loop of \<open>check_use\<close> along the lineage is \<open>use_loop\<close>, a partial function: not returning is
  \<open>None\<close>, which \<open>check_use\<close> reports as \<open>Diverges\<close>.
\<close>

definition base_state :: "gstate \<Rightarrow> growth_error + gstate" where
  "base_state s =
     (let b = s\<lparr>gs_frontier := None\<rparr> in require (valid_fields b) ValidationError (Inr b))"

definition max_default :: "int list \<Rightarrow> int" where
  "max_default xs = (case xs of [] \<Rightarrow> 0 | y # ys \<Rightarrow> fold max ys y)"

definition index_by :: "('a \<Rightarrow> 'k) \<Rightarrow> 'a list \<Rightarrow> ('k, 'a) dict" where
  "index_by key xs = fold (\<lambda>x d. dict_set d (key x) x) xs []"

definition with_frontier :: "gstate \<Rightarrow> frontier_part \<Rightarrow> growth_error + gstate" where
  "with_frontier s f =
     res_bind (base_state s) (\<lambda>b.
       let r = b\<lparr>gs_frontier := Some f\<rparr> in require (valid_fields r) ValidationError (Inr r))"

definition seed :: "digests \<Rightarrow> gstate \<Rightarrow> frontier \<Rightarrow> growth_error + gstate" where
  "seed dg s fr = with_frontier s
     \<lparr>fp_digest = dg_frontier dg fr,
      fp_enabled = sort (fr_initial fr),
      fp_depth = max_default (map av_depth (fr_initial_lineage fr)),
      fp_lineage = sort_key av_action_id (fr_initial_lineage fr)\<rparr>"

section \<open>The lineage\<close>

definition lineage_ok ::
  "frontier \<Rightarrow> gstate \<Rightarrow> (ident, activation) dict \<Rightarrow> (ident, rule) dict \<Rightarrow> ident set \<Rightarrow> activation \<Rightarrow> bool"
where
  "lineage_ok fr s lineage rules initial event \<longleftrightarrow>
     (case dict_get rules (av_rule_id event) of None \<Rightarrow> False
      | Some rule \<Rightarrow>
          let parent = dict_get lineage (av_producer_id event) in
          av_action_id event \<in> set (ru_activated rule) \<and>
          av_producer_id event = ru_producer_id rule \<and>
          av_successor_id event = ru_successor_id rule \<and>
          (av_producer_id event \<in> initial \<or> parent \<noteq> None) \<and>
          av_depth event = (case parent of Some p \<Rightarrow> av_depth p + 1 | None \<Rightarrow> 1) \<and>
          av_time event \<le> gs_elapsed s \<and>
          (case parent of None \<Rightarrow> True | Some p \<Rightarrow> av_time p < av_time event))"

definition check_frontier_state ::
  "digests \<Rightarrow> gstate \<Rightarrow> frontier \<Rightarrow> growth_error + frontier_part" where
  "check_frontier_state dg s fr =
     (case gs_frontier s of None \<Rightarrow> Inl (GrowthError ''growth_frontier_state_missing'')
      | Some f \<Rightarrow>
        require (fp_digest f = dg_frontier dg fr) (GrowthError ''growth_frontier_digest_mismatch'')
        (let lineage = index_by av_action_id (fp_lineage f);
             carried = index_by av_action_id (fr_initial_lineage fr);
             initial = set (fr_initial fr) - set (dict_keys carried);
             rules = index_by ru_id (fr_rules fr)
         in require (length lineage = length (fp_lineage f) \<and>
                     (\<forall>(k, v) \<in> set carried. dict_get lineage k = Some v) \<and>
                     initial \<inter> set (dict_keys lineage) = {} \<and>
                     set (fp_enabled f) = initial \<union> set (dict_keys lineage) \<and>
                     length (fp_enabled f) = card (set (fp_enabled f)))
              (GrowthError ''growth_frontier_lineage_invalid'')
           (then_do (each (\<lambda>event. require (lineage_ok fr s lineage rules initial event)
                        (GrowthError ''growth_frontier_lineage_invalid'') (Inr ())) (fp_lineage f))
           (require (fp_depth f = max_default (map av_depth (dict_values lineage)) \<and>
                     fp_depth f \<le> fr_max_depth fr)
              (GrowthError ''growth_frontier_depth_overflow'')
              (Inr f)))))"

section \<open>Liveness of bindings and conditions\<close>

definition seconds_from :: "contract \<Rightarrow> time \<Rightarrow> rat" where
  "seconds_from c t = of_int (t - gc_time_origin c) / 1000000"

definition time_scale :: "contract \<Rightarrow> objects \<Rightarrow> growth_error + rat" where
  "time_scale c objects =
     res_bind (units_at objects (gc_units c)) (\<lambda>u.
     res_bind (item (ur_units u) (ur_time_unit u)) (\<lambda>d. Inr (un_scale d)))"

definition check_lifecycle ::
  "contract \<Rightarrow> objects \<Rightarrow> lifecycle \<Rightarrow> rat \<Rightarrow> rat \<Rightarrow> growth_error + unit" where
  "check_lifecycle c objects l start finish =
     res_bind (time_scale c objects) (\<lambda>scale.
       require (start * scale \<ge> seconds_from c (lc_valid_from l) \<and>
                finish * scale \<le> seconds_from c (lc_valid_until l) \<and>
                (case lc_withdrawn_at l of None \<Rightarrow> True | Some w \<Rightarrow> finish * scale < seconds_from c w))
         (GrowthError ''growth_frontier_object_expired'') (Inr ()))"

definition binding_live ::
  "contract \<Rightarrow> objects \<Rightarrow> frontier \<Rightarrow> gstate \<Rightarrow> ident \<Rightarrow> rat \<Rightarrow> growth_error + unit" where
  "binding_live c objects fr s action_id finish =
     res_bind (first_of (\<lambda>b. bi_action_id b = action_id) (fr_bindings fr)) (\<lambda>b.
     res_bind (first_of (\<lambda>r. re_action_digest r = bi_action_digest b) (gc_actions c)) (\<lambda>r.
     require (gs_elapsed s < re_expires r \<and> finish \<le> re_expires r)
       (GrowthError ''growth_frontier_object_expired'')
     (res_bind (action_at objects (bi_action_digest b)) (\<lambda>a.
      let required = [bi_action_digest b, bi_capability_digest b, bi_policy_digest b] @ ac_required a in
      require (set required \<subseteq> set (gs_live s)) (GrowthError ''growth_frontier_object_unavailable'')
      (then_do (check_lifecycle c objects (bi_lifecycle b) (gs_elapsed s) finish)
       (each (\<lambda>d. case doc_lifecycle (dict_get objects d) of None \<Rightarrow> Inr ()
               | Some l \<Rightarrow> check_lifecycle c objects l (gs_elapsed s) finish) required))))))"

definition all_with :: "('a \<Rightarrow> 'e + bool) \<Rightarrow> 'a list \<Rightarrow> bool \<Rightarrow> 'e + bool" where
  "all_with f xs so_far = (if so_far then all_in f xs else Inr False)"

definition conditions :: "rule \<Rightarrow> gstate \<Rightarrow> rat \<Rightarrow> growth_error + bool" where
  "conditions rule s finish =
     (if ru_valid_from rule \<le> gs_elapsed s \<and> finish \<le> ru_expires rule \<and>
         set (gs_models s) \<subseteq> set (ru_models rule) \<and>
         set (ru_capabilities rule) \<subseteq> set (gs_live s) \<and>
         (\<forall>k \<in> set (ru_evidence rule). case dict_get (gs_evidence s) k of None \<Rightarrow> False
            | Some v \<Rightarrow> v \<ge> finish)
      then res_bind (all_in (\<lambda>(k, v). res_bind (item (gs_capacities s) k) (\<lambda>cap. Inr (iv_lower cap \<ge> v)))
                       (ru_minimum_capacities rule))
             (all_with (\<lambda>(k, v). res_bind (item (gs_resources s) k) (\<lambda>q. Inr (q \<ge> v)))
                (ru_minimum_resources rule))
      else Inr False)"

section \<open>Use\<close>

definition check_link ::
  "contract \<Rightarrow> objects \<Rightarrow> frontier \<Rightarrow> gstate \<Rightarrow> (ident, rule) dict \<Rightarrow> rat \<Rightarrow> activation \<Rightarrow> growth_error + unit"
where
  "check_link c objects fr s rules finish parent =
     res_bind (item rules (av_rule_id parent)) (\<lambda>rule.
     then_do (binding_live c objects fr s (ru_producer_id rule) finish)
     (res_require (conditions rule s finish) (GrowthError ''growth_frontier_premise_unavailable'')
      (each (\<lambda>d. require (case dict_get objects d of Some (CapabilityDoc _) \<Rightarrow> True | _ \<Rightarrow> False)
               (GrowthError ''growth_frontier_capability_missing'') (Inr ())) (ru_capabilities rule))))"

partial_function (option) use_loop ::
  "contract \<Rightarrow> objects \<Rightarrow> frontier \<Rightarrow> gstate \<Rightarrow> (ident, activation) dict \<Rightarrow> (ident, rule) dict \<Rightarrow> rat \<Rightarrow>
   activation option \<Rightarrow> (growth_error + unit) option" where
  "use_loop c objects fr s lineage rules finish parent =
     (case parent of None \<Rightarrow> Some (Inr ())
      | Some p \<Rightarrow>
          case check_link c objects fr s rules finish p of
            Inl e \<Rightarrow> Some (Inl e)
          | Inr _ \<Rightarrow> use_loop c objects fr s lineage rules finish (dict_get lineage (av_producer_id p)))"

declare use_loop.simps [code]

definition check_use ::
  "digests \<Rightarrow> contract \<Rightarrow> objects \<Rightarrow> frontier \<Rightarrow> gstate \<Rightarrow> ident \<Rightarrow> rat \<Rightarrow> growth_error + unit" where
  "check_use dg c objects fr s action_id finish =
     res_bind (check_frontier_state dg s fr) (\<lambda>f.
     require (action_id \<in> set (fp_enabled f)) (GrowthError ''growth_frontier_action_latent'')
     (then_do (binding_live c objects fr s action_id finish)
      (let lineage = index_by av_action_id (fp_lineage f);
           rules = index_by ru_id (fr_rules fr)
       in case use_loop c objects fr s lineage rules finish (dict_get lineage action_id) of
            None \<Rightarrow> Inl Diverges
          | Some r \<Rightarrow> r)))"

section \<open>Activation\<close>

definition activate_target ::
  "digests \<Rightarrow> contract \<Rightarrow> objects \<Rightarrow> frontier \<Rightarrow> gstate \<Rightarrow> gstate \<Rightarrow> ident \<Rightarrow> successor \<Rightarrow> int \<Rightarrow> rule \<Rightarrow> ident \<Rightarrow>
   ident list \<times> activation list \<Rightarrow> growth_error + ident list \<times> activation list" where
  "activate_target dg c objects fr before after producer effect depth rule target acc =
     (let (enabled, lineage) = acc in
      require (depth \<le> fr_max_depth fr) (GrowthError ''growth_frontier_depth_overflow'')
      (then_do (binding_live c objects fr after target (gs_elapsed after))
       (res_bind (state_digest dg before) (\<lambda>parent.
        require (1 \<le> depth \<and> depth \<le> 16 \<and> fits (gs_elapsed after)) ValidationError
        (Inr (enabled @ [target],
              lineage @ [\<lparr>av_action_id = target, av_rule_id = ru_id rule, av_producer_id = producer,
                          av_successor_id = su_id effect, av_depth = depth,
                          av_time = gs_elapsed after, av_parent = parent\<rparr>]))))))"

definition activate_rule ::
  "digests \<Rightarrow> contract \<Rightarrow> objects \<Rightarrow> frontier \<Rightarrow> gstate \<Rightarrow> gstate \<Rightarrow> ident \<Rightarrow> successor \<Rightarrow> int \<Rightarrow> rule \<Rightarrow>
   ident list \<times> activation list \<Rightarrow> growth_error + ident list \<times> activation list" where
  "activate_rule dg c objects fr before after producer effect depth rule acc =
     (if ru_producer_id rule \<noteq> producer \<or> ru_successor_id rule \<noteq> su_id effect then Inr acc
      else res_bind (conditions rule after (gs_elapsed after)) (\<lambda>ok.
        if \<not> ok then Inr acc
        else fold_res (activate_target dg c objects fr before after producer effect depth rule)
               (sorted_set (filter (\<lambda>t. t \<notin> set (fst acc)) (ru_activated rule))) acc))"

definition activate ::
  "digests \<Rightarrow> contract \<Rightarrow> objects \<Rightarrow> frontier \<Rightarrow> gstate \<Rightarrow> gstate \<Rightarrow> recipe \<Rightarrow> successor \<Rightarrow>
   growth_error + gstate" where
  "activate dg c objects fr before after r effect =
     res_bind (check_frontier_state dg before fr) (\<lambda>f.
     res_bind (action_at objects (re_action_digest r)) (\<lambda>a.
     let producer = ac_id a in
     then_do (check_use dg c objects fr before producer (gs_elapsed after))
     (let parent = List.find (\<lambda>x. av_action_id x = producer) (fp_lineage f);
          depth = (case parent of Some p \<Rightarrow> av_depth p + 1 | None \<Rightarrow> 1)
      in res_bind (fold_res (activate_rule dg c objects fr before after producer effect depth)
                     (sort_key ru_id (fr_rules fr)) (fp_enabled f, fp_lineage f)) (\<lambda>(enabled, lineage).
           with_frontier after
             \<lparr>fp_digest = fp_digest f,
              fp_enabled = sort enabled,
              fp_depth = max_default (map av_depth lineage),
              fp_lineage = sort_key av_action_id lineage\<rparr>))))"

end
