(* ===== verification/Growth_Kernel.thy ===== *)
theory Growth_Kernel
  imports Growth_Frontier
begin

text \<open>
  The kernel of the growth game (\<open>v6/growth.py\<close>): the charged initial state, which actions apply, one
  transition, attainment and credit blocks. A handler is one definition; the blocks of \<open>transition\<close>
  that update one part of the ledger are definitions of their own.
\<close>

section \<open>Initial state\<close>

definition charge_planning :: "contract \<Rightarrow> (ident, rat) dict \<Rightarrow> (ident, rat) dict" where
  "charge_planning c bucket =
     map (\<lambda>(k, v). (k, dict_get_default bucket k 0 + v)) (gc_planning_charge c)"

definition pay_step ::
  "ident \<times> rat \<Rightarrow> (ident, rat) dict \<times> (ident, rat) dict \<Rightarrow>
   growth_error + (ident, rat) dict \<times> (ident, rat) dict" where
  "pay_step kv acc =
     (let (k, v) = kv; (resources, spent) = acc in
      res_bind (item resources k) (\<lambda>q. Inr (dict_set resources k (q - v), add_to spent k v)))"

definition window_boundaries :: "contract \<Rightarrow> rat list" where
  "window_boundaries c = concat (map (\<lambda>w. [win_start w, win_end w]) (gc_windows c))"

definition make_checkpoint :: "rat \<Rightarrow> (ident, interval) dict \<Rightarrow> growth_error + checkpoint" where
  "make_checkpoint t caps =
     require (at_least 3 caps \<and> at_most 32 caps \<and> fits t \<and> (\<forall>q \<in> set (interval_rationals caps). fits q))
       ValidationError (Inr \<lparr>cp_time = t, cp_capacities = caps\<rparr>)"

definition boundary_step ::
  "(ident, interval) dict \<Rightarrow> rat \<Rightarrow> checkpoint list \<Rightarrow> growth_error + checkpoint list" where
  "boundary_step caps t cps =
     (if \<exists>p \<in> set cps. cp_time p = t then Inr cps
      else res_bind (make_checkpoint t caps) (\<lambda>p. Inr (cps @ [p])))"

definition initial_state ::
  "digests \<Rightarrow> contract \<Rightarrow> frontier option \<Rightarrow> growth_error + gstate" where
  "initial_state dg c fr =
     (let s = gc_initial_state c;
          category = (if gc_planning_boundary c = shared_budget then ''planner'' else ''external-planner'');
          charges = dict_set (gs_charges s) category
                      (charge_planning c (dict_get_default (gs_charges s) category []))
      in res_bind (if gc_planning_boundary c = shared_budget
                   then fold_res pay_step (gc_planning_charge c) (gs_resources s, gs_spent s)
                   else Inr (gs_resources s, gs_spent s)) (\<lambda>(resources, spent).
         let elapsed = gs_elapsed s + gc_planning_duration c;
             boundaries = sorted_set (gs_elapsed s # filter (\<lambda>t. gs_elapsed s \<le> t \<and> t \<le> elapsed)
                                                      (window_boundaries c))
         in res_bind (fold_res (boundary_step (gs_capacities s)) boundaries (gs_checkpoints s))
              (\<lambda>checkpoints.
            res_bind (normalize (s\<lparr>gs_resources := resources, gs_spent := spent, gs_charges := charges,
                                   gs_elapsed := elapsed, gs_checkpoints := checkpoints\<rparr>)) (\<lambda>state.
            then_do (check_state c state)
              (case fr of None \<Rightarrow> Inr state | Some f \<Rightarrow> seed dg state f)))))"

section \<open>Applicable actions\<close>

definition premises_live :: "ident list \<Rightarrow> (ident, rat) dict \<Rightarrow> rat \<Rightarrow> bool" where
  "premises_live needed available now \<longleftrightarrow>
     (\<forall>x \<in> set needed. case dict_get available x of None \<Rightarrow> False | Some v \<Rightarrow> v > now)"

definition applicable ::
  "digests \<Rightarrow> contract \<Rightarrow> gstate \<Rightarrow> recipe \<Rightarrow> objects \<Rightarrow> frontier option \<Rightarrow>
   growth_error + action_spec \<times> capability" where
  "applicable dg c s r objects fr =
     require (gs_models s \<noteq> []) (GrowthError ''growth_inconsistent_models'')
     (res_bind (action_at objects (re_action_digest r)) (\<lambda>a.
      res_bind (capability_at objects (ac_capability a)) (\<lambda>cap.
      then_do (case fr of
                 Some f \<Rightarrow> check_use dg c objects f s (ac_id a) (gs_elapsed s)
               | None \<Rightarrow> require (gs_frontier s = None)
                           (GrowthError ''growth_frontier_document_required'') (Inr ()))
      (require (cap_repeatable cap \<or> ac_id a \<notin> set (gs_used s)) (GrowthError ''growth_nonrepeatable_reuse'')
      (require (re_earliest r \<le> gs_elapsed s \<and> gs_elapsed s < re_expires r)
         (GrowthError ''growth_action_expired'')
      (require (set (ac_required a) \<subseteq> set (gs_live s)) (GrowthError ''growth_required_object'')
      (require (set (ac_prohibited_hazards a) \<inter> set (gs_hazards s) = {}) (GrowthError ''growth_hazard'')
      (require (premises_live (re_required_evidence r) (gs_evidence s) (gs_elapsed s))
         (GrowthError ''growth_premise_missing_or_expired'')
      (require (premises_live (re_required_assumptions r) (gs_assumptions s) (gs_elapsed s))
         (GrowthError ''growth_premise_missing_or_expired'')
      (res_require (all_in (\<lambda>(k, v). res_bind (item (gs_capacities s) k) (\<lambda>i. Inr (iv_lower i \<ge> v)))
                      (re_minimum_capacities r)) (GrowthError ''growth_capacity_prerequisite'')
       (Inr (a, cap))))))))))))"

section \<open>One transition\<close>

text \<open>Completed work is checked item by item and summed by stage.\<close>

definition completion_step ::
  "(ident, work) dict \<Rightarrow> rat \<Rightarrow> ident \<times> rat \<Rightarrow> (ident, rat) dict \<Rightarrow> growth_error + (ident, rat) dict" where
  "completion_step work finish kv used =
     (let (k, amount) = kv in
      res_bind (item work k) (\<lambda>w.
      require (0 \<le> amount \<and> amount \<le> wk_remaining w) (GrowthError ''growth_completion_exceeds_work'')
      (require (amount = 0 \<or> wk_deadline w \<ge> finish) (GrowthError ''growth_completion_late'')
       (Inr (add_to used (wk_stage w) amount)))))"

definition service_step ::
  "gstate \<Rightarrow> successor \<Rightarrow> (ident, rat) dict \<Rightarrow> ident \<Rightarrow> (ident, rat) dict \<times> (ident, rat) dict \<Rightarrow>
   growth_error + (ident, rat) dict \<times> (ident, rat) dict" where
  "service_step s effect used stage acc =
     (let (completed, offered) = acc;
          offer = dict_get_default (su_offered effect) stage 0;
          done = dict_get_default used stage 0
      in res_bind (if done \<le> offer
                   then res_bind (item (gs_capacities s) stage)
                          (\<lambda>cap. Inr (offer \<le> iv_lower cap * su_duration effect))
                   else Inr False) (\<lambda>ok.
         require ok (GrowthError ''growth_service_overbooked'')
         (Inr (add_to completed stage done, add_to offered stage offer))))"

definition remaining_work :: "successor \<Rightarrow> work list \<Rightarrow> work list" where
  "remaining_work effect queue =
     map (\<lambda>w. w\<lparr>wk_remaining := wk_remaining w - dict_get_default (su_completed effect) (wk_id w) 0\<rparr>)
       (filter (\<lambda>w. wk_remaining w > dict_get_default (su_completed effect) (wk_id w) 0) queue)"

text \<open>Resources, spent and the bucket of the category.\<close>

type_synonym accounts = "(ident, rat) dict \<times> (ident, rat) dict \<times> (ident, (ident, rat) dict) dict"

definition charge_step :: "ident \<Rightarrow> ident \<times> rat \<Rightarrow> accounts \<Rightarrow> growth_error + accounts" where
  "charge_step category kv acc =
     (let (k, amount) = kv; (resources, spent, charges) = acc in
      res_bind (item resources k) (\<lambda>q.
        Inr (dict_set resources k (q - amount), add_to spent k amount,
             dict_set charges category (add_to (dict_get_default charges category []) k amount))))"

definition charge_category :: "ident \<times> (ident, rat) dict \<Rightarrow> accounts \<Rightarrow> growth_error + accounts" where
  "charge_category ca acc =
     (let (category, amounts) = ca; (resources, spent, charges) = acc in
      fold_res (charge_step category) amounts
        (resources, spent, dict_set charges category (dict_get_default charges category [])))"

definition capacity_step ::
  "ident \<times> interval \<Rightarrow> (ident, interval) dict \<Rightarrow> growth_error + (ident, interval) dict" where
  "capacity_step kd caps =
     (let (k, d) = kd in
      res_bind (item caps k) (\<lambda>i.
        let n = \<lparr>iv_lower = iv_lower i + iv_lower d, iv_upper = iv_upper i + iv_upper d\<rparr>
        in require (fits (iv_lower n) \<and> fits (iv_upper n)) ValidationError (Inr (dict_set caps k n))))"

text \<open>Required signed objects expire in the model clock.\<close>

definition check_required_object ::
  "contract \<Rightarrow> objects \<Rightarrow> rat \<Rightarrow> rat \<Rightarrow> rat \<Rightarrow> digest \<Rightarrow> growth_error + unit" where
  "check_required_object c objects scale start finish d =
     require (dict_get objects d \<noteq> None) (GrowthError ''growth_required_object'')
     (case doc_lifecycle (dict_get objects d) of None \<Rightarrow> Inr ()
      | Some l \<Rightarrow>
          require (start * scale \<ge> seconds_from c (lc_valid_from l))
            (GrowthError ''growth_required_object_expired'')
          (require (finish * scale \<le> seconds_from c (lc_valid_until l))
            (GrowthError ''growth_required_object_expired'')
           (case lc_withdrawn_at l of None \<Rightarrow> Inr ()
            | Some w \<Rightarrow> require (finish * scale < seconds_from c w)
                 (GrowthError ''growth_required_object_expired'') (Inr ()))))"

definition kept_premises :: "(ident, rat) dict \<Rightarrow> ident list \<Rightarrow> (ident, rat) dict \<Rightarrow> rat \<Rightarrow> (ident, rat) dict"
where
  "kept_premises old removed added finish =
     dict_update (filter (\<lambda>(k, v). k \<notin> set removed \<and> v \<ge> finish) old) added"

definition crossing_step ::
  "gstate \<Rightarrow> (ident, interval) dict \<Rightarrow> rat \<Rightarrow> rat \<Rightarrow> checkpoint list \<Rightarrow> growth_error + checkpoint list" where
  "crossing_step s caps finish t cps =
     (if gs_elapsed s < t \<and> t \<le> finish
      then res_bind (make_checkpoint t (if t = finish then caps else gs_capacities s)) (\<lambda>p. Inr (cps @ [p]))
      else Inr cps)"

definition premises_last :: "(ident, rat) dict \<Rightarrow> ident list \<Rightarrow> rat \<Rightarrow> growth_error + bool" where
  "premises_last values names finish =
     all_in (\<lambda>k. res_bind (item values k) (\<lambda>v. Inr (v \<ge> finish))) names"

text \<open>The ledger entries of a step: work, service, accounts and capacities.\<close>

definition settle_work ::
  "contract \<Rightarrow> gstate \<Rightarrow> successor \<Rightarrow> work list \<Rightarrow> work list \<Rightarrow> rat \<Rightarrow>
   growth_error + (ident, rat) dict \<times> (ident, rat) dict" where
  "settle_work c s effect queues debts finish =
     (let work = index_by wk_id (queues @ debts) in
      require (length work = length queues + length debts) (GrowthError ''growth_work_duplicate'')
      (require (set (dict_keys (su_completed effect)) \<subseteq> set (dict_keys work))
         (GrowthError ''growth_completion_without_work'')
      (then_do (check_nonnegative (su_offered effect))
      (require (set (dict_keys (su_offered effect)) \<subseteq> set (dict_keys (gc_domains c)))
         (GrowthError ''growth_queue_domain'')
      (res_bind (fold_res (completion_step work finish) (su_completed effect) []) (\<lambda>used.
       fold_res (service_step s effect used) (dict_keys (gc_domains c)) (gs_completed s, gs_offered s)))))))"

text \<open>The state a step ends in, from its settled parts; \<open>held\<close> are the reservations that still hold.\<close>

definition settled ::
  "gstate \<Rightarrow> successor \<Rightarrow> capability \<Rightarrow> action_spec \<Rightarrow> branch_effect \<Rightarrow> reservation list \<Rightarrow> rat \<Rightarrow> work list \<Rightarrow>
   work list \<Rightarrow> accounts \<Rightarrow> (ident, interval) dict \<Rightarrow> (ident, rat) dict \<Rightarrow> (ident, rat) dict \<Rightarrow> checkpoint list \<Rightarrow> gstate"
where
  "settled s effect cap a branch held finish queues debts accounts capacities completed offered checkpoints =
     s\<lparr>
       gs_capacities := capacities,
       gs_quality := dict_update (gs_quality s) (su_quality effect),
       gs_coverage := dict_update (gs_coverage s) (su_coverage effect),
       gs_resources := fst accounts,
       gs_spent := fst (snd accounts),
       gs_charges := snd (snd accounts),
       gs_reservations := filter (\<lambda>v. rv_until v > finish) (held @ su_reservations effect),
       gs_queue := queues,
       gs_obligations := debts,
       gs_elapsed := finish,
       gs_checkpoints := checkpoints,
       gs_evidence := kept_premises (gs_evidence s) (su_evidence_removed effect)
                        (su_evidence_added effect) finish,
       gs_assumptions := kept_premises (gs_assumptions s) (su_assumptions_removed effect)
                           (su_assumptions_added effect) finish,
       gs_used := gs_used s @ (if cap_repeatable cap then [] else [ac_id a]),
       gs_pending := sorted_set (filter (\<lambda>x. x \<notin> set (su_pending_resolved effect)) (gs_pending s) @
                        su_pending_added effect @ br_must_add branch @ br_may_add branch),
       gs_live := sorted_set (filter (\<lambda>x. x \<notin> set (br_must_remove branch) \<union> set (br_may_remove branch)) (gs_live s)),
       gs_hazards := sorted_set (filter (\<lambda>x. x \<notin> set (br_hazards_removed branch)) (gs_hazards s) @
                        br_hazards_added branch),
       gs_offered := offered,
       gs_completed := completed,
       gs_attribution := (if gs_attribution s \<noteq> su_attribution effect
                          then attribution_unresolved else gs_attribution s)\<rparr>"

definition transition_ledger ::
  "contract \<Rightarrow> gstate \<Rightarrow> recipe \<Rightarrow> successor \<Rightarrow> objects \<Rightarrow> action_spec \<Rightarrow> capability \<Rightarrow> growth_error + gstate"
where
  "transition_ledger c s r effect objects a cap =
     (let finish = gs_elapsed s + su_duration effect in
      require (finish \<le> re_expires r \<and> finish \<le> gc_deadline c) (GrowthError ''growth_deadline'')
      (res_require (premises_last (gs_evidence s) (re_required_evidence r) finish)
         (GrowthError ''growth_premise_expires_during_action'')
      (res_require (premises_last (gs_assumptions s) (re_required_assumptions r) finish)
         (GrowthError ''growth_premise_expires_during_action'')
      (let held = filter (\<lambda>v. rv_until v > gs_elapsed s) (gs_reservations s) in
       require (\<forall>v \<in> set (su_reservations effect). rv_until v \<ge> finish)
         (GrowthError ''growth_reservation_expired'')
      (then_do (check_state c (s\<lparr>gs_reservations := held @ su_reservations effect\<rparr>))
      (let queues = gs_queue s @ su_arrivals effect; debts = gs_obligations s @ su_debt_added effect in
       then_do (check_state c (s\<lparr>gs_queue := queues, gs_obligations := debts\<rparr>))
      (res_bind (settle_work c s effect queues debts finish) (\<lambda>(completed, offered).
       let queues = remaining_work effect queues; debts = remaining_work effect debts in
       res_bind (fold_res charge_category (su_charges effect)
                   (gs_resources s, gs_spent s, gs_charges s)) (\<lambda>accounts.
       res_bind (fold_res capacity_step (su_capacity_delta effect) (gs_capacities s)) (\<lambda>capacities.
       require (\<not> ((\<exists>d \<in> set (dict_values (su_capacity_delta effect)). iv_lower d > 0) \<and>
                   wk_id ` set (debts @ queues) \<inter> set (gc_blocking_ids c) \<noteq> {}))
         (GrowthError ''growth_credit_blocked_by_work'')
      (res_bind (first_of (\<lambda>b. br_outcome b = su_outcome effect) (cap_branches cap)) (\<lambda>branch.
       res_bind (time_scale c objects) (\<lambda>scale.
       then_do (each (check_required_object c objects scale (gs_elapsed s) finish) (ac_required a))
      (let removals = set (br_must_remove branch) \<union> set (br_may_remove branch) in
       require (removals \<inter> set (ac_protected a) = {}) (GrowthError ''growth_protected_object'')
      (res_bind (fold_res (crossing_step s capacities finish) (sorted_set (window_boundaries c))
                   (gs_checkpoints s)) (\<lambda>checkpoints.
       normalize (settled s effect cap a branch held finish queues debts
         accounts capacities completed offered checkpoints)))))))))))))))))"

definition transition ::
  "digests \<Rightarrow> contract \<Rightarrow> gstate \<Rightarrow> recipe \<Rightarrow> successor \<Rightarrow> objects \<Rightarrow> frontier option \<Rightarrow> growth_error + gstate"
where
  "transition dg c s r effect objects fr =
     res_bind (applicable dg c s r objects fr) (\<lambda>(a, cap).
     require (effect \<in> set (successors s r)) (GrowthError ''growth_undeclared_successor'')
     (res_bind (transition_ledger c s r effect objects a cap) (\<lambda>result.
      require (set (gs_hazards result) \<inter> set (ac_prohibited_hazards a) = {}) (GrowthError ''growth_hazard'')
      (then_do (check_state c result)
       (case fr of None \<Rightarrow> Inr result | Some f \<Rightarrow> activate dg c objects f s result r effect)))))"

section \<open>Attainment and credit\<close>

definition attainment_of :: "(interval \<Rightarrow> rat) \<Rightarrow> contract \<Rightarrow> gstate \<Rightarrow> ident \<Rightarrow> growth_error + rat" where
  "attainment_of bound c s k =
     res_bind (item (gs_capacities s) k) (\<lambda>i.
     res_bind (item (gc_domains c) k) (\<lambda>d.
     require (gd_target d \<noteq> 0) ZeroDivision (Inr (bound i / gd_target d))))"

definition attainment :: "(interval \<Rightarrow> rat) \<Rightarrow> contract \<Rightarrow> gstate \<Rightarrow> growth_error + rat" where
  "attainment bound c s =
     res_bind (attainment_of bound c s ''task'') (\<lambda>t.
     res_bind (attainment_of bound c s ''research'') (\<lambda>r. Inr (min t r)))"

definition grown :: "gstate \<Rightarrow> (ident, interval) dict \<Rightarrow> ident \<times> rat \<Rightarrow> growth_error + bool" where
  "grown s start kf =
     (let (k, factor) = kf in
      res_bind (item (gs_capacities s) k) (\<lambda>i.
      res_bind (item start k) (\<lambda>b. Inr (iv_lower i \<ge> iv_upper b * factor))))"

definition block_supported :: "gstate \<Rightarrow> window \<Rightarrow> growth_error + bool" where
  "block_supported s w =
     (case filter (\<lambda>p. cp_time p = win_start w) (gs_checkpoints s) of
        [] \<Rightarrow> Inr False
      | p # _ \<Rightarrow>
          if gs_elapsed s = win_end w
          then all_in (grown s (cp_capacities p))
                 [(''task'', win_task_factor w), (''research'', win_research_factor w)]
          else Inr False)"

end
