(* ===== verification/Growth_Facts.thy ===== *)
theory Growth_Facts
  imports Growth_Kernel "HOL-Library.Multiset"
begin

text \<open>
  Lemmas on the growth ledger: what a passed \<open>check_state\<close> says of the state, the loops of a
  transition read as sums, and the invariants that the properties of \<open>Growth_Properties\<close> state.
\<close>

section \<open>Sums in dicts\<close>

lemma dict_get_default_add_to [simp]:
  "dict_get_default (add_to d k v) k' 0 = dict_get_default d k' 0 + (if k' = k then v else 0)"
  by (simp add: add_to_def)

lemma set_dict_keys_add_to [simp]: "set (dict_keys (add_to d k v)) = insert k (set (dict_keys d))"
  by (simp add: add_to_def)

lemma dict_get_default_Nil [simp]: "dict_get_default [] k v = v"
  by (simp add: dict_get_default_def)

lemma dict_get_default_Some: "dict_get d k = Some v \<Longrightarrow> dict_get_default d k x = v"
  by (simp add: dict_get_def dict_get_default_def)

lemma dict_get_default_notin: "k \<notin> set (dict_keys d) \<Longrightarrow> dict_get_default d k x = x"
  by (simp add: dict_get_default_def dict_keys_def map_of_eq_None_iff [THEN iffD2])

lemma distinct_add_to [simp]: "distinct (dict_keys d) \<Longrightarrow> distinct (dict_keys (add_to d k v))"
  by (simp add: add_to_def)

text \<open>A dict built by key from a list.\<close>

lemma keys_index_by [simp]: "set (dict_keys (index_by key xs)) = key ` set xs"
proof -
  have "set (dict_keys (fold (\<lambda>x d. dict_set d (key x) x) xs d)) = set (dict_keys d) \<union> key ` set xs" for d
    by (induction xs arbitrary: d) auto
  then show ?thesis by (simp add: index_by_def dict_keys_def)
qed

lemma distinct_index_by: "distinct (dict_keys (index_by key xs))"
proof -
  have "distinct (dict_keys d) \<Longrightarrow> distinct (dict_keys (fold (\<lambda>x d. dict_set d (key x) x) xs d))" for d
    by (induction xs arbitrary: d) auto
  then show ?thesis by (simp add: index_by_def dict_keys_def)
qed

lemma index_by_Some: "dict_get (index_by key xs) k = Some x \<Longrightarrow> x \<in> set xs \<and> key x = k"
proof -
  have "dict_get (fold (\<lambda>x d. dict_set d (key x) x) xs d) k = Some x \<Longrightarrow>
      dict_get d k = Some x \<or> x \<in> set xs \<and> key x = k" for d
  proof (induction xs arbitrary: d)
    case (Cons y ys)
    from Cons.IH [of "dict_set d (key y) y"] Cons.prems show ?case by (auto split: if_splits)
  qed simp
  from this [of "[]"] show "dict_get (index_by key xs) k = Some x \<Longrightarrow> ?thesis" by (simp add: index_by_def)
qed

lemma length_index_by: "length (index_by key xs) = length xs \<longleftrightarrow> distinct (map key xs)"
proof -
  have "length (index_by key xs) = card (set (dict_keys (index_by key xs)))"
    using distinct_card [OF distinct_index_by] by (metis dict_keys_def length_map)
  then have "length (index_by key xs) = card (set (map key xs))" by simp
  then show ?thesis by (metis card_distinct distinct_card length_map)
qed

lemma index_by_member:
  assumes "distinct (map key xs)" "x \<in> set xs"
  shows "dict_get (index_by key xs) (key x) = Some x"
proof -
  obtain y where y: "dict_get (index_by key xs) (key x) = Some y"
    using assms(2) dict_get_None [of "index_by key xs" "key x"] by (cases "dict_get (index_by key xs) (key x)") auto
  then have "y \<in> set xs" "key y = key x" using index_by_Some by metis+
  then show ?thesis using y assms by (metis distinct_map inj_on_def)
qed

lemma index_by_iff:
  "distinct (map key xs) \<Longrightarrow> dict_get (index_by key xs) k = Some x \<longleftrightarrow> x \<in> set xs \<and> key x = k"
  using index_by_Some index_by_member by metis

lemma index_by_None: "dict_get (index_by key xs) k = None \<longleftrightarrow> k \<notin> key ` set xs"
  by (simp add: dict_get_None)

text \<open>The total of the remaining work of a stage.\<close>

definition backlog_at :: "work list \<Rightarrow> ident \<Rightarrow> rat" where
  "backlog_at ws k = sum_list (map wk_remaining (filter (\<lambda>w. wk_stage w = k) ws))"

lemma backlog_at_Nil [simp]: "backlog_at [] k = 0"
  by (simp add: backlog_at_def)

lemma backlog_at_Cons [simp]:
  "backlog_at (w # ws) k = (if wk_stage w = k then wk_remaining w else 0) + backlog_at ws k"
  by (simp add: backlog_at_def)

lemma backlog_at_append [simp]: "backlog_at (xs @ ys) k = backlog_at xs k + backlog_at ys k"
  by (simp add: backlog_at_def)

lemma backlog_at_sort [simp]: "backlog_at (sort_key f ws) k = backlog_at ws k"
proof -
  have "mset (map wk_remaining (filter (\<lambda>w. wk_stage w = k) (sort_key f ws))) =
      mset (map wk_remaining (filter (\<lambda>w. wk_stage w = k) ws))"
    by (simp only: mset_map mset_filter mset_sort)
  then show ?thesis unfolding backlog_at_def by (metis sum_mset_sum_list)
qed

lemma work_step_Inr:
  "work_step c s w (seen, totals) = Inr r \<longleftrightarrow>
     wk_id w \<notin> set seen \<and> wk_stage w \<in> set (dict_keys (gc_domains c)) \<and> 0 \<le> wk_remaining w \<and>
     (wk_remaining w = 0 \<or> gs_elapsed s < wk_deadline w) \<and>
     r = (wk_id w # seen, add_to totals (wk_stage w) (wk_remaining w))"
  by (auto simp: work_step_def)

lemma work_steps_ids:
  "fold_res (work_step c s) queue (seen, totals) = Inr (seen', totals') \<Longrightarrow>
   seen' = rev (map wk_id queue) @ seen \<and> distinct (map wk_id queue) \<and> set (map wk_id queue) \<inter> set seen = {}"
proof (induction queue arbitrary: seen totals)
  case (Cons w ws)
  then have "wk_id w \<notin> set seen"
    and "fold_res (work_step c s) ws (wk_id w # seen, add_to totals (wk_stage w) (wk_remaining w)) = Inr (seen', totals')"
    by (auto simp: work_step_Inr)
  with Cons.IH [OF this(2)] show ?case by auto
qed simp

lemma work_steps_each:
  "fold_res (work_step c s) queue (seen, totals) = Inr (seen', totals') \<Longrightarrow> w \<in> set queue \<Longrightarrow>
   wk_stage w \<in> set (dict_keys (gc_domains c)) \<and> 0 \<le> wk_remaining w \<and>
     (wk_remaining w = 0 \<or> gs_elapsed s < wk_deadline w)"
  by (induction queue arbitrary: seen totals) (auto simp: work_step_Inr)

lemma work_steps_total:
  "fold_res (work_step c s) queue (seen, totals) = Inr (seen', totals') \<Longrightarrow>
   dict_get_default totals' k 0 = dict_get_default totals k 0 + backlog_at queue k"
proof (induction queue arbitrary: seen totals)
  case (Cons w ws)
  then have "fold_res (work_step c s) ws (wk_id w # seen, add_to totals (wk_stage w) (wk_remaining w)) = Inr (seen', totals')"
    by (auto simp: work_step_Inr)
  from Cons.IH [OF this] show ?case by auto
qed simp

lemma work_steps_keys:
  "fold_res (work_step c s) queue (seen, totals) = Inr (seen', totals') \<Longrightarrow>
   set (dict_keys totals') = set (dict_keys totals) \<union> wk_stage ` set queue"
proof (induction queue arbitrary: seen totals)
  case (Cons w ws)
  then have "fold_res (work_step c s) ws (wk_id w # seen, add_to totals (wk_stage w) (wk_remaining w)) = Inr (seen', totals')"
    by (auto simp: work_step_Inr)
  from Cons.IH [OF this] show ?case by auto
qed simp

lemma work_steps_distinct:
  "fold_res (work_step c s) queue (seen, totals) = Inr (seen', totals') \<Longrightarrow> distinct (dict_keys totals) \<Longrightarrow>
   distinct (dict_keys totals')"
proof (induction queue arbitrary: seen totals)
  case (Cons w ws)
  then have "fold_res (work_step c s) ws (wk_id w # seen, add_to totals (wk_stage w) (wk_remaining w)) = Inr (seen', totals')"
    by (auto simp: work_step_Inr)
  from Cons.IH [OF this] Cons.prems(2) show ?case by simp
qed simp

lemma work_steps_complete:
  assumes "distinct (map wk_id queue)" "set (map wk_id queue) \<inter> set seen = {}"
    "\<forall>w \<in> set queue. wk_stage w \<in> set (dict_keys (gc_domains c)) \<and> 0 \<le> wk_remaining w \<and>
       (wk_remaining w = 0 \<or> gs_elapsed s < wk_deadline w)"
  shows "\<exists>r. fold_res (work_step c s) queue (seen, totals) = Inr r"
  using assms
proof (induction queue arbitrary: seen totals)
  case (Cons w ws)
  have "work_step c s w (seen, totals) = Inr (wk_id w # seen, add_to totals (wk_stage w) (wk_remaining w))"
    using Cons.prems by (simp add: work_step_def)
  then show ?case using Cons.IH [of "wk_id w # seen"] Cons.prems by auto
qed simp

definition queue_kept :: "contract \<Rightarrow> rat \<Rightarrow> work list \<Rightarrow> (ident, rat) dict \<Rightarrow> bool" where
  "queue_kept c now queue limits \<longleftrightarrow>
     (\<forall>w \<in> set queue. wk_stage w \<in> set (dict_keys (gc_domains c)) \<and> 0 \<le> wk_remaining w \<and>
        (wk_remaining w = 0 \<or> now < wk_deadline w)) \<and>
     (\<forall>k \<in> wk_stage ` set queue. \<exists>l. dict_get limits k = Some l \<and> backlog_at queue k \<le> l)"

lemma dict_mem:
  "distinct (dict_keys d) \<Longrightarrow> (k, v) \<in> set d \<longleftrightarrow> k \<in> set (dict_keys d) \<and> dict_get_default d k x = v"
proof
  assume "distinct (dict_keys d)" "(k, v) \<in> set d"
  then show "k \<in> set (dict_keys d) \<and> dict_get_default d k x = v"
    using dict_get_in [of d k v] by (auto simp: dict_get_default_Some dict_keys_def rev_image_eqI)
next
  assume d: "distinct (dict_keys d)" "k \<in> set (dict_keys d) \<and> dict_get_default d k x = v"
  then obtain u where "dict_get d k = Some u" using dict_get_None [of d k] by (cases "dict_get d k") auto
  then show "(k, v) \<in> set d" using d(2) dict_get_SomeD dict_get_default_Some by metis
qed

lemma backlog_limits:
  assumes "fold_res (work_step c s) queue (seen, []) = Inr (seen', totals)"
  shows "all_in (\<lambda>(k, v). res_bind (item limits k) (\<lambda>l. Inr (v \<le> l))) totals = Inr True \<longleftrightarrow>
    (\<forall>k \<in> wk_stage ` set queue. \<exists>l. dict_get limits k = Some l \<and> backlog_at queue k \<le> l)"
proof -
  have d: "distinct (dict_keys totals)" "set (dict_keys totals) = wk_stage ` set queue"
    "dict_get_default totals k 0 = backlog_at queue k" for k
    using work_steps_distinct [OF assms] work_steps_keys [OF assms] work_steps_total [OF assms]
    by (simp_all add: dict_keys_def)
  have mem: "(k, v) \<in> set totals \<longleftrightarrow> k \<in> wk_stage ` set queue \<and> backlog_at queue k = v" for k v
    using dict_mem [OF d(1), where x = 0] d(2,3) by simp
  have "all_in (\<lambda>(k, v). res_bind (item limits k) (\<lambda>l. Inr (v \<le> l))) totals = Inr True \<longleftrightarrow>
      (\<forall>k v. (k, v) \<in> set totals \<longrightarrow> (\<exists>l. dict_get limits k = Some l \<and> v \<le> l))"
    by (auto 0 3)
  then show ?thesis unfolding mem by blast
qed

lemma check_queue_Inr:
  "check_queue c s queue limits seen = Inr seen' \<longleftrightarrow>
     queue_kept c (gs_elapsed s) queue limits \<and> distinct (map wk_id queue) \<and> set (map wk_id queue) \<inter> set seen = {} \<and>
     seen' = rev (map wk_id queue) @ seen"
  (is "?L \<longleftrightarrow> ?R")
proof
  assume ?L
  then obtain totals where run: "fold_res (work_step c s) queue (seen, []) = Inr (seen', totals)"
    "all_in (\<lambda>(k, v). res_bind (item limits k) (\<lambda>l. Inr (v \<le> l))) totals = Inr True"
    by (auto simp: check_queue_def simp del: all_in_True)
  then show ?R using backlog_limits [OF run(1)] work_steps_ids [OF run(1)] work_steps_each [OF run(1)]
    unfolding queue_kept_def by blast
next
  assume R: ?R
  then obtain seen2 totals where run: "fold_res (work_step c s) queue (seen, []) = Inr (seen2, totals)"
    using work_steps_complete [of queue seen c s "[]"] by (auto simp: queue_kept_def)
  have "all_in (\<lambda>(k, v). res_bind (item limits k) (\<lambda>l. Inr (v \<le> l))) totals = Inr True"
    using backlog_limits [OF run, THEN iffD2] R unfolding queue_kept_def by blast
  then show ?L using run work_steps_ids [OF run] R by (simp add: check_queue_def del: all_in_True)
qed

section \<open>The state invariant\<close>

definition reserved_at :: "rat \<Rightarrow> reservation list \<Rightarrow> ident \<Rightarrow> rat" where
  "reserved_at now rs k =
     sum_list (map rv_quantity (filter (\<lambda>r. rv_resource r = k \<and> rv_until r > now) rs))"

definition joint_use :: "(ident, rat) dict \<Rightarrow> (ident, interval) dict \<Rightarrow> rat" where
  "joint_use coefficients caps =
     sum_list (map (\<lambda>(k, v). v * iv_upper (the (dict_get caps k))) coefficients)"

text \<open>
  What \<open>check_state\<close> promises, without loops: domains, floors, deadlines, backlog limits per stage,
  unique work, no shared resource booked beyond its amount, checkpoints in order of time.
\<close>

definition kept :: "contract \<Rightarrow> gstate \<Rightarrow> bool" where
  "kept c s \<longleftrightarrow>
     set (dict_keys (gs_capacities s)) = set (dict_keys (gc_domains c)) \<and>
     set (dict_keys (gs_quality s)) = set (dict_keys (gc_domains c)) \<and>
     set (dict_keys (gs_coverage s)) = set (dict_keys (gc_domains c)) \<and>
     (\<forall>(k, v) \<in> set (gs_capacities s). 0 \<le> iv_lower v \<and> iv_lower v \<le> iv_upper v) \<and>
     set (dict_keys (gs_resources s)) = set (dict_keys (gc_resource_units c)) \<and>
     0 \<le> gs_elapsed s \<and> gs_elapsed s \<le> gc_deadline c \<and>
     set (gs_models s) \<subseteq> set (gc_models c) \<and>
     (\<forall>(k, d) \<in> set (gc_domains c).
        (\<exists>cap. dict_get (gs_capacities s) k = Some cap \<and> gd_service_floor d \<le> iv_lower cap) \<and>
        (\<exists>q. dict_get (gs_quality s) k = Some q \<and> gd_quality_floor d \<le> q \<and> q \<le> 1) \<and>
        (\<exists>v. dict_get (gs_coverage s) k = Some v \<and> gd_coverage_floor d \<le> v \<and> v \<le> 1)) \<and>
     (\<forall>(k, v) \<in> set (gs_resources s). dict_get_default (gc_resource_floors c) k 0 \<le> v) \<and>
     queue_kept c (gs_elapsed s) (gs_queue s) (gc_queue_limits c) \<and>
     queue_kept c (gs_elapsed s) (gs_obligations s) (gc_debt_limits c) \<and>
     distinct (map wk_id (gs_queue s @ gs_obligations s)) \<and>
     (\<forall>r \<in> set (gs_reservations s). rv_resource r \<in> set (dict_keys (gc_shared_resources c)) \<and> 0 \<le> rv_quantity r) \<and>
     (\<forall>(k, amount) \<in> set (gc_shared_resources c). \<exists>coefficients.
        dict_get (gc_joint_coefficients c) k = Some coefficients \<and>
        set (dict_keys coefficients) \<subseteq> set (dict_keys (gs_capacities s)) \<and>
        joint_use coefficients (gs_capacities s) + reserved_at (gs_elapsed s) (gs_reservations s) k \<le> amount) \<and>
     (\<forall>p \<in> set (gs_checkpoints s). set (dict_keys (cp_capacities p)) = set (dict_keys (gc_domains c)) \<and>
        0 \<le> cp_time p \<and> cp_time p \<le> gs_elapsed s \<and>
        (\<forall>(k, v) \<in> set (cp_capacities p). 0 \<le> iv_lower v \<and> iv_lower v \<le> iv_upper v)) \<and>
     distinct (map cp_time (gs_checkpoints s))"

lemma reservation_steps:
  "fold_res (reservation_step c s) rs reserved = Inr out \<longleftrightarrow>
     (\<forall>r \<in> set rs. rv_resource r \<in> set (dict_keys (gc_shared_resources c)) \<and> 0 \<le> rv_quantity r) \<and>
     out = fold (\<lambda>r d. if rv_until r > gs_elapsed s then add_to d (rv_resource r) (rv_quantity r) else d) rs reserved"
  by (induction rs arbitrary: reserved) (auto simp: reservation_step_def)

lemma reserved_fold:
  "dict_get_default (fold (\<lambda>r d. if rv_until r > now then add_to d (rv_resource r) (rv_quantity r) else d) rs d) k 0 =
     dict_get_default d k 0 + reserved_at now rs k"
  by (induction rs arbitrary: d) (simp_all add: reserved_at_def)

lemma joint_sum:
  "sum_res (\<lambda>(k, v). res_bind (item caps k) (\<lambda>cap. Inr (v * iv_upper cap))) coefficients = Inr joint \<longleftrightarrow>
     set (dict_keys coefficients) \<subseteq> set (dict_keys caps) \<and> joint = joint_use coefficients caps"
proof (induction coefficients arbitrary: joint)
  case (Cons kv rest)
  obtain k v where kv: "kv = (k, v)" by (cases kv)
  show ?case
  proof (cases "dict_get caps k")
    case None
    then show ?thesis using dict_get_None [of caps k] by (auto simp: kv dict_keys_def)
  next
    case (Some cap)
    then have "k \<in> set (dict_keys caps)" using dict_get_None [of caps k] by auto
    then show ?thesis using Cons.IH Some by (auto simp: kv joint_use_def dict_keys_def)
  qed
qed (auto simp: joint_use_def dict_keys_def)

lemma check_intervals_Inr [simp]:
  "check_intervals d True = Inr u \<longleftrightarrow> (\<forall>(k, v) \<in> set d. 0 \<le> iv_lower v \<and> iv_lower v \<le> iv_upper v)"
  by (auto simp: check_intervals_def)

lemma check_domain_Inr:
  "check_domain s kd = Inr u \<longleftrightarrow> (case kd of (k, d) \<Rightarrow>
        (\<exists>cap. dict_get (gs_capacities s) k = Some cap \<and> gd_service_floor d \<le> iv_lower cap) \<and>
        (\<exists>q. dict_get (gs_quality s) k = Some q \<and> gd_quality_floor d \<le> q \<and> q \<le> 1) \<and>
        (\<exists>v. dict_get (gs_coverage s) k = Some v \<and> gd_coverage_floor d \<le> v \<and> v \<le> 1))"
  by (cases kd) (auto simp: check_domain_def)

lemma check_shared_Inr:
  "check_shared c s reserved ka = Inr u \<longleftrightarrow> (case ka of (k, amount) \<Rightarrow> \<exists>coefficients.
        dict_get (gc_joint_coefficients c) k = Some coefficients \<and>
        set (dict_keys coefficients) \<subseteq> set (dict_keys (gs_capacities s)) \<and>
        joint_use coefficients (gs_capacities s) + dict_get_default reserved k 0 \<le> amount)"
  by (cases ka) (auto simp: check_shared_def joint_sum)

lemma check_checkpoint_Inr:
  "check_checkpoint c s p = Inr u \<longleftrightarrow> set (dict_keys (cp_capacities p)) = set (dict_keys (gc_domains c)) \<and>
        0 \<le> cp_time p \<and> cp_time p \<le> gs_elapsed s \<and>
        (\<forall>(k, v) \<in> set (cp_capacities p). 0 \<le> iv_lower v \<and> iv_lower v \<le> iv_upper v)"
  by (auto simp: check_checkpoint_def)

lemma reservations_shared:
  "(\<exists>reserved. fold_res (reservation_step c s) rs [] = Inr reserved \<and>
     (\<forall>ka \<in> set shared. check_shared c s reserved ka = Inr ()) \<and> R) \<longleftrightarrow>
   (\<forall>r \<in> set rs. rv_resource r \<in> set (dict_keys (gc_shared_resources c)) \<and> 0 \<le> rv_quantity r) \<and>
   (\<forall>(k, amount) \<in> set shared. \<exists>coefficients.
        dict_get (gc_joint_coefficients c) k = Some coefficients \<and>
        set (dict_keys coefficients) \<subseteq> set (dict_keys (gs_capacities s)) \<and>
        joint_use coefficients (gs_capacities s) + reserved_at (gs_elapsed s) rs k \<le> amount) \<and> R"
  unfolding reservation_steps check_shared_Inr by (simp add: reserved_fold)

lemma queues_kept:
  "(\<exists>seen. check_queue c s q l [] = Inr seen \<and> (\<exists>seen'. check_queue c s b l' seen = Inr seen' \<and> R)) \<longleftrightarrow>
     queue_kept c (gs_elapsed s) q l \<and> queue_kept c (gs_elapsed s) b l' \<and> distinct (map wk_id (q @ b)) \<and> R"
  by (auto simp: check_queue_Inr)

lemma ex_unit: "(\<exists>u :: unit. P) \<longleftrightarrow> P"
  by simp

lemma case_require: "(case kv of (k, v) \<Rightarrow> require (P k v) e (Inr ())) = Inr u \<longleftrightarrow> (case kv of (k, v) \<Rightarrow> P k v)"
  by (cases kv) simp

lemma check_state_kept_unit: "check_state c s = Inr () \<longleftrightarrow> kept c s"
  unfolding check_state_def require_Inr res_bind_Inr check_intervals_Inr
    each_Inr_unit check_domain_Inr check_checkpoint_Inr ex_unit case_require
  unfolding queues_kept reservations_shared kept_def
  by (simp only: conj_assoc simp_thms)

lemma check_state_kept: "check_state c s = Inr u \<longleftrightarrow> kept c s"
  using check_state_kept_unit by (cases u) simp

end
