(* ===== verification/Growth_Steps.thy ===== *)
theory Growth_Steps
  imports Growth_Facts
begin

text \<open>
  What a transition of the growth kernel does to the ledger: the facts its guards establish, and its
  loops over charges and work read as sums.
\<close>

section \<open>Reading a transition\<close>

lemma settled_fields:
  fixes s effect cap a branch held finish queues debts accounts capacities completed offered checkpoints
  defines "t \<equiv> normal_form (settled s effect cap a branch held finish queues debts accounts capacities
    completed offered checkpoints)"
  shows "gs_elapsed t = finish" "gs_completed t = completed" "gs_offered t = offered"
    "gs_queue t = sort_key wk_id queues" "gs_obligations t = sort_key wk_id debts"
    "(gs_resources t, gs_spent t, gs_charges t) = accounts"
    "gs_live t = sorted_set (sorted_set (filter (\<lambda>x. x \<notin> set (br_must_remove branch) \<union> set (br_may_remove branch)) (gs_live s)))"
    "gs_used t = sorted_set (gs_used s @ (if cap_repeatable cap then [] else [ac_id a]))"
    "gs_actual_evidence t = sorted_set (gs_actual_evidence s)" "gs_models t = sorted_set (gs_models s)"
  by (simp_all add: t_def normal_form_def settled_def)

lemma transition_ledger_Inr:
  assumes "transition_ledger c s r effect objects a cap = Inr t"
  obtains branch where
    "first_of (\<lambda>b. br_outcome b = su_outcome effect) (cap_branches cap) = Inr branch"
    "(set (br_must_remove branch) \<union> set (br_may_remove branch)) \<inter> set (ac_protected a) = {}"
    "gs_elapsed t = gs_elapsed s + su_duration effect"
    "gs_elapsed t \<le> re_expires r" "gs_elapsed t \<le> gc_deadline c"
    "kept c (s\<lparr>gs_queue := gs_queue s @ su_arrivals effect,
               gs_obligations := gs_obligations s @ su_debt_added effect\<rparr>)"
    "settle_work c s effect (gs_queue s @ su_arrivals effect) (gs_obligations s @ su_debt_added effect) (gs_elapsed t)
       = Inr (gs_completed t, gs_offered t)"
    "gs_queue t = sort_key wk_id (remaining_work effect (gs_queue s @ su_arrivals effect))"
    "gs_obligations t = sort_key wk_id (remaining_work effect (gs_obligations s @ su_debt_added effect))"
    "fold_res charge_category (su_charges effect) (gs_resources s, gs_spent s, gs_charges s) =
       Inr (gs_resources t, gs_spent t, gs_charges t)"
    "gs_live t = sorted_set (sorted_set
       (filter (\<lambda>x. x \<notin> set (br_must_remove branch) \<union> set (br_may_remove branch)) (gs_live s)))"
    "gs_used t = sorted_set (gs_used s @ (if cap_repeatable cap then [] else [ac_id a]))"
    "gs_actual_evidence t = sorted_set (gs_actual_evidence s)"
    "gs_models t = sorted_set (gs_models s)"
  using assms
  unfolding transition_ledger_def Let_def res_bind_Inr require_Inr res_require_Inr normalize_Inr
    check_state_kept split_paired_Ex prod.case
  by (elim exE conjE) (rule that, assumption, simp_all only: settled_fields)

lemma with_frontier_Inr: "with_frontier s f = Inr t \<Longrightarrow> t = s\<lparr>gs_frontier := Some f\<rparr>"
  by (auto simp: with_frontier_def base_state_def Let_def)

lemma activate_ledger: "activate dg c objects fr before after r effect = Inr t \<Longrightarrow> \<exists>f. t = after\<lparr>gs_frontier := Some f\<rparr>"
  by (auto simp: activate_def Let_def dest!: with_frontier_Inr)

lemma kept_frontier [simp]: "kept c (s\<lparr>gs_frontier := f\<rparr>) = kept c s"
  by (simp add: kept_def)

text \<open>A transition is a settled ledger, up to the activations it records.\<close>

lemma transition_Inr:
  assumes "transition dg c s r effect objects fr = Inr t"
  obtains a cap u where "applicable dg c s r objects fr = Inr (a, cap)"
    "transition_ledger c s r effect objects a cap = Inr u" "effect \<in> set (successors s r)"
    "kept c u" "\<exists>f. t = u\<lparr>gs_frontier := f\<rparr>"
    "case fr of None \<Rightarrow> t = u | Some f \<Rightarrow> activate dg c objects f s u r effect = Inr t"
    "set (gs_hazards u) \<inter> set (ac_prohibited_hazards a) = {}"
proof -
  obtain a cap u where u: "applicable dg c s r objects fr = Inr (a, cap)"
    "effect \<in> set (successors s r)" "transition_ledger c s r effect objects a cap = Inr u"
    "set (gs_hazards u) \<inter> set (ac_prohibited_hazards a) = {}" "kept c u"
    "(case fr of None \<Rightarrow> Inr u | Some f \<Rightarrow> activate dg c objects f s u r effect) = Inr t"
    using assms unfolding transition_def res_bind_Inr require_Inr check_state_kept split_paired_Ex prod.case by blast
  have same: "u = u\<lparr>gs_frontier := gs_frontier u\<rparr>" by simp
  have f: "\<exists>f. t = u\<lparr>gs_frontier := f\<rparr>"
  proof (cases fr)
    case None
    then show ?thesis using u(6) same by (metis Inr_inject option.case(1))
  next
    case (Some f)
    then have "activate dg c objects f s u r effect = Inr t" using u(6) by simp
    from activate_ledger [OF this] show ?thesis by blast
  qed
  have a: "case fr of None \<Rightarrow> t = u | Some f \<Rightarrow> activate dg c objects f s u r effect = Inr t"
    using u(6) by (cases fr) simp_all
  show ?thesis by (rule that [OF u(1,3,2,5) f a u(4)])
qed

section \<open>Resources\<close>

abbreviation amount_of :: "(ident, rat) dict \<Rightarrow> ident \<Rightarrow> rat" where
  "amount_of d k \<equiv> dict_get_default d k 0"

definition entries_of :: "ident \<Rightarrow> (ident, rat) dict \<Rightarrow> rat" where
  "entries_of k amounts = sum_list (map snd (filter (\<lambda>kv. fst kv = k) amounts))"

text \<open>What a successor charges to a resource, over all its categories.\<close>

definition charged :: "successor \<Rightarrow> ident \<Rightarrow> rat" where
  "charged effect k = sum_list (map (\<lambda>ca. entries_of k (snd ca)) (su_charges effect))"

text \<open>What the charge book of a state says was spent of a resource.\<close>

definition booked :: "(ident, (ident, rat) dict) dict \<Rightarrow> ident \<Rightarrow> rat" where
  "booked charges k = sum_list (map (\<lambda>cb. amount_of (snd cb) k) charges)"

lemma booked_set [simp]:
  "booked (dict_set charges category bucket) k =
     booked charges k - amount_of (dict_get_default charges category []) k + amount_of bucket k"
proof (induction charges)
  case (Cons cb charges)
  then show ?case
    by (cases cb) (auto simp: booked_def dict_set_def dict_get_default_def)
qed (simp add: booked_def dict_set_def dict_get_default_def)

definition accounts_move :: "(ident \<Rightarrow> rat) \<Rightarrow> accounts \<Rightarrow> accounts \<Rightarrow> bool" where
  "accounts_move paid before after \<longleftrightarrow>
     (\<forall>k. amount_of (fst after) k = amount_of (fst before) k - paid k \<and>
          amount_of (fst (snd after)) k = amount_of (fst (snd before)) k + paid k \<and>
          booked (snd (snd after)) k = booked (snd (snd before)) k + paid k)"

lemma accounts_move_trans:
  "accounts_move p x y \<Longrightarrow> accounts_move q y z \<Longrightarrow> accounts_move (\<lambda>k. p k + q k) x z"
  by (simp add: accounts_move_def)

lemma charge_step_moves:
  assumes "charge_step category kv acc = Inr acc'"
  shows "accounts_move (\<lambda>k. if k = fst kv then snd kv else 0) acc acc'"
proof -
  obtain k v resources spent charges where [simp]: "kv = (k, v)" "acc = (resources, spent, charges)"
    by (cases kv; cases acc) auto
  obtain q where q: "dict_get resources k = Some q"
    "acc' = (dict_set resources k (q - v), add_to spent k v,
       dict_set charges category (add_to (dict_get_default charges category []) k v))"
    using assms by (auto simp: charge_step_def)
  then show ?thesis by (simp add: accounts_move_def dict_get_default_Some)
qed

lemma charge_steps_move:
  "fold_res (charge_step category) amounts acc = Inr acc' \<Longrightarrow> accounts_move (\<lambda>k. entries_of k amounts) acc acc'"
proof (induction amounts arbitrary: acc)
  case (Cons kv amounts)
  then obtain m where m: "charge_step category kv acc = Inr m"
    "fold_res (charge_step category) amounts m = Inr acc'" by auto
  from accounts_move_trans [OF charge_step_moves [OF m(1)] Cons.IH [OF m(2)]]
  show ?case by (simp add: accounts_move_def entries_of_def)
qed (simp add: accounts_move_def entries_of_def)

lemma charge_category_moves:
  assumes "charge_category ca acc = Inr acc'"
  shows "accounts_move (\<lambda>k. entries_of k (snd ca)) acc acc'"
proof -
  obtain category amounts resources spent charges where [simp]:
    "ca = (category, amounts)" "acc = (resources, spent, charges)"
    by (cases ca; cases acc) auto
  have run: "fold_res (charge_step category) amounts
      (resources, spent, dict_set charges category (dict_get_default charges category [])) = Inr acc'"
    using assms by (simp add: charge_category_def)
  from charge_steps_move [OF run] show ?thesis by (simp add: accounts_move_def)
qed

lemma charge_categories_move:
  "fold_res charge_category cas acc = Inr acc' \<Longrightarrow>
   accounts_move (\<lambda>k. sum_list (map (\<lambda>ca. entries_of k (snd ca)) cas)) acc acc'"
proof (induction cas arbitrary: acc)
  case (Cons ca cas)
  then obtain m where m: "charge_category ca acc = Inr m" "fold_res charge_category cas m = Inr acc'" by auto
  from accounts_move_trans [OF charge_category_moves [OF m(1)] Cons.IH [OF m(2)]]
  show ?case by simp
qed (simp add: accounts_move_def)

lemma ledger_accounts:
  assumes "transition_ledger c s r effect objects a cap = Inr t"
  shows "accounts_move (charged effect) (gs_resources s, gs_spent s, gs_charges s)
           (gs_resources t, gs_spent t, gs_charges t)"
  using transition_ledger_Inr [OF assms] charge_categories_move
  by (metis (no_types, lifting) charged_def ext)

section \<open>Work\<close>

text \<open>What a successor completes of the work of a stage.\<close>

definition completes :: "successor \<Rightarrow> work list \<Rightarrow> ident \<Rightarrow> rat" where
  "completes effect ws k =
     sum_list (map (\<lambda>w. amount_of (su_completed effect) (wk_id w)) (filter (\<lambda>w. wk_stage w = k) ws))"

lemma completion_step_Inr:
  "completion_step work finish (i, amount) used = Inr used' \<longleftrightarrow>
     (\<exists>w. dict_get work i = Some w \<and> 0 \<le> amount \<and> amount \<le> wk_remaining w \<and>
        (amount = 0 \<or> finish \<le> wk_deadline w) \<and> used' = add_to used (wk_stage w) amount)"
  by (auto simp: completion_step_def)

lemma completion_steps_each:
  "fold_res (completion_step work finish) done used = Inr used' \<Longrightarrow> (i, amount) \<in> set done \<Longrightarrow>
   \<exists>w. dict_get work i = Some w \<and> 0 \<le> amount \<and> amount \<le> wk_remaining w"
proof (induction "done" arbitrary: used)
  case (Cons kv rest)
  obtain j v where [simp]: "kv = (j, v)" by (cases kv)
  obtain u where u: "completion_step work finish (j, v) used = Inr u"
    "fold_res (completion_step work finish) rest u = Inr used'" using Cons.prems(1) by auto
  show ?case
  proof (cases "(i, amount) \<in> set rest")
    case True
    then show ?thesis by (rule Cons.IH [OF u(2)])
  next
    case False
    then show ?thesis using Cons.prems(2) u(1) unfolding completion_step_Inr by auto
  qed
qed simp

lemma completion_steps_used:
  "fold_res (completion_step work finish) done used = Inr used' \<Longrightarrow>
   amount_of used' k = amount_of used k +
     sum_list (map snd (filter (\<lambda>kv. wk_stage (the (dict_get work (fst kv))) = k) done))"
proof (induction "done" arbitrary: used)
  case (Cons kv rest)
  obtain j v where [simp]: "kv = (j, v)" by (cases kv)
  obtain u where u: "completion_step work finish (j, v) used = Inr u"
    "fold_res (completion_step work finish) rest u = Inr used'" using Cons.prems(1) by auto
  obtain w where "dict_get work j = Some w" "u = add_to used (wk_stage w) v"
    using u(1) unfolding completion_step_Inr by auto
  then show ?case using Cons.IH [OF u(2)] by simp
qed simp

lemma sum_over_entries:
  assumes "distinct (dict_keys d)"
  shows "sum_list (map snd (filter (\<lambda>kv. P (fst kv)) d)) = (\<Sum>k \<in> {k \<in> set (dict_keys d). P k}. amount_of d k)"
proof -
  have "sum_list (map snd (filter (\<lambda>kv. P (fst kv)) d)) =
      sum_list (map (amount_of d) (map fst (filter (\<lambda>kv. P (fst kv)) d)))"
    using dict_mem [OF assms, where x = 0] by (auto intro!: arg_cong [where f = sum_list])
  moreover have "distinct (map fst (filter (\<lambda>kv. P (fst kv)) d))"
    using assms by (simp add: dict_keys_def distinct_map_filter)
  moreover have "set (map fst (filter (\<lambda>kv. P (fst kv)) d)) = {k \<in> set (dict_keys d). P k}"
    by (auto simp: dict_keys_def)
  ultimately show ?thesis by (simp only: sum_list_distinct_conv_sum_set)
qed

lemma used_completes:
  assumes run: "fold_res (completion_step (index_by wk_id ws) finish) (su_completed effect) [] = Inr used"
    and ids: "distinct (map wk_id ws)" and keys: "distinct (dict_keys (su_completed effect))"
    and sub: "set (dict_keys (su_completed effect)) \<subseteq> wk_id ` set ws"
  shows "amount_of used k = completes effect ws k"
proof -
  let ?stage = "\<lambda>i. wk_stage (the (dict_get (index_by wk_id ws) i))"
  let ?done = "amount_of (su_completed effect)"
  have "amount_of used k = (\<Sum>i \<in> {i \<in> set (dict_keys (su_completed effect)). ?stage i = k}. ?done i)"
    using completion_steps_used [OF run] sum_over_entries [OF keys, of "\<lambda>i. ?stage i = k"] by simp
  also have "\<dots> = (\<Sum>i \<in> {i \<in> wk_id ` set ws. ?stage i = k}. ?done i)"
    using sub by (intro sum.mono_neutral_left) (auto intro: dict_get_default_notin)
  also have "{i \<in> wk_id ` set ws. ?stage i = k} = set (map wk_id (filter (\<lambda>w. wk_stage w = k) ws))"
    using index_by_member [OF ids] by force
  also have "(\<Sum>i \<in> \<dots>. ?done i) = sum_list (map ?done (map wk_id (filter (\<lambda>w. wk_stage w = k) ws)))"
    using ids by (intro sum_list_distinct_conv_sum_set [symmetric] distinct_map_filter)
  finally show ?thesis by (simp add: completes_def comp_def)
qed

lemma remaining_backlog:
  assumes "\<forall>w \<in> set ws. 0 \<le> amount_of (su_completed effect) (wk_id w) \<and>
     amount_of (su_completed effect) (wk_id w) \<le> wk_remaining w"
  shows "backlog_at (remaining_work effect ws) k = backlog_at ws k - completes effect ws k"
  using assms
proof (induction ws)
  case (Cons w ws)
  then have IH: "backlog_at (remaining_work effect ws) k = backlog_at ws k - completes effect ws k"
    and w: "amount_of (su_completed effect) (wk_id w) \<le> wk_remaining w" by auto
  show ?case
  proof (cases "wk_remaining w > amount_of (su_completed effect) (wk_id w)")
    case True
    then show ?thesis using IH by (auto simp: remaining_work_def completes_def)
  next
    case False
    then show ?thesis using IH w by (auto simp: remaining_work_def completes_def)
  qed
qed (simp add: remaining_work_def completes_def)

lemma service_step_Inr:
  "service_step s effect used k (completed, offered) = Inr r \<longleftrightarrow>
     amount_of used k \<le> amount_of (su_offered effect) k \<and>
     (\<exists>cap. dict_get (gs_capacities s) k = Some cap \<and>
        amount_of (su_offered effect) k \<le> iv_lower cap * su_duration effect) \<and>
     r = (add_to completed k (amount_of used k), add_to offered k (amount_of (su_offered effect) k))"
  by (auto simp: service_step_def Let_def split: if_splits)

lemma service_steps_other:
  "fold_res (service_step s effect used) stages (completed, offered) = Inr (completed', offered') \<Longrightarrow>
   k \<notin> set stages \<Longrightarrow> amount_of completed' k = amount_of completed k \<and> amount_of offered' k = amount_of offered k"
proof (induction stages arbitrary: completed offered)
  case (Cons j stages)
  then have "fold_res (service_step s effect used) stages
      (add_to completed j (amount_of used j), add_to offered j (amount_of (su_offered effect) j)) = Inr (completed', offered')"
    by (auto simp: service_step_Inr)
  from Cons.IH [OF this] Cons.prems(2) show ?case by simp
qed simp

lemma service_steps:
  "fold_res (service_step s effect used) stages (completed, offered) = Inr (completed', offered') \<Longrightarrow>
   distinct stages \<Longrightarrow> k \<in> set stages \<Longrightarrow>
   amount_of completed' k = amount_of completed k + amount_of used k \<and>
   amount_of offered' k = amount_of offered k + amount_of (su_offered effect) k \<and>
   amount_of used k \<le> amount_of (su_offered effect) k \<and>
   amount_of (su_offered effect) k \<le> iv_lower (the (dict_get (gs_capacities s) k)) * su_duration effect"
proof (induction stages arbitrary: completed offered)
  case (Cons j stages)
  then have run: "fold_res (service_step s effect used) stages
      (add_to completed j (amount_of used j), add_to offered j (amount_of (su_offered effect) j)) = Inr (completed', offered')"
    and j: "amount_of used j \<le> amount_of (su_offered effect) j"
      "amount_of (su_offered effect) j \<le> iv_lower (the (dict_get (gs_capacities s) j)) * su_duration effect"
    by (auto simp: service_step_Inr)
  show ?case
  proof (cases "k = j")
    case True
    then show ?thesis using service_steps_other [OF run] Cons.prems(2) j by simp
  next
    case False
    then show ?thesis using Cons.IH [OF run] Cons.prems(2,3) by simp
  qed
qed simp

lemma settle_work_Inr:
  assumes "settle_work c s effect queues debts finish = Inr (completed, offered)"
  obtains used where "distinct (map wk_id (queues @ debts))"
    "set (dict_keys (su_completed effect)) \<subseteq> wk_id ` set (queues @ debts)"
    "fold_res (completion_step (index_by wk_id (queues @ debts)) finish) (su_completed effect) [] = Inr used"
    "fold_res (service_step s effect used) (dict_keys (gc_domains c)) (gs_completed s, gs_offered s) =
       Inr (completed, offered)"
  using assms length_index_by [of wk_id "queues @ debts"] unfolding settle_work_def Let_def
  by (simp del: set_append map_append) blast

text \<open>What a state owes at a stage: queued work and obligations.\<close>

definition owed :: "gstate \<Rightarrow> ident \<Rightarrow> rat" where
  "owed s k = backlog_at (gs_queue s) k + backlog_at (gs_obligations s) k"

lemma completes_append: "completes effect (xs @ ys) k = completes effect xs k + completes effect ys k"
  by (simp add: completes_def)

lemma ledger_owed:
  assumes run: "transition_ledger c s r effect objects a cap = Inr t"
    and dicts: "distinct (dict_keys (gc_domains c))" "distinct (dict_keys (su_completed effect))"
    and k: "k \<in> set (dict_keys (gc_domains c))"
  shows "owed t k = owed s k + backlog_at (su_arrivals effect) k + backlog_at (su_debt_added effect) k -
           (amount_of (gs_completed t) k - amount_of (gs_completed s) k) \<and>
    amount_of (gs_completed t) k - amount_of (gs_completed s) k \<le> amount_of (gs_offered t) k - amount_of (gs_offered s) k \<and>
    amount_of (gs_offered t) k - amount_of (gs_offered s) k \<le> iv_lower (the (dict_get (gs_capacities s) k)) * su_duration effect"
proof -
  let ?Q = "gs_queue s @ su_arrivals effect" and ?D = "gs_obligations s @ su_debt_added effect"
  from run obtain
    settle: "settle_work c s effect ?Q ?D (gs_elapsed t) = Inr (gs_completed t, gs_offered t)"
    and q: "gs_queue t = sort_key wk_id (remaining_work effect ?Q)"
    and d: "gs_obligations t = sort_key wk_id (remaining_work effect ?D)"
    and ok: "kept c (s\<lparr>gs_queue := ?Q, gs_obligations := ?D\<rparr>)"
    by (rule transition_ledger_Inr)
  from settle obtain used where ids: "distinct (map wk_id (?Q @ ?D))"
    and sub: "set (dict_keys (su_completed effect)) \<subseteq> wk_id ` set (?Q @ ?D)"
    and comp: "fold_res (completion_step (index_by wk_id (?Q @ ?D)) (gs_elapsed t)) (su_completed effect) [] = Inr used"
    and service: "fold_res (service_step s effect used) (dict_keys (gc_domains c)) (gs_completed s, gs_offered s) =
       Inr (gs_completed t, gs_offered t)"
    by (rule settle_work_Inr)
  have nonneg: "0 \<le> wk_remaining w" if "w \<in> set (?Q @ ?D)" for w
    using ok that by (auto simp: kept_def queue_kept_def)
  have within: "0 \<le> amount_of (su_completed effect) (wk_id w) \<and> amount_of (su_completed effect) (wk_id w) \<le> wk_remaining w"
    if w: "w \<in> set (?Q @ ?D)" for w
  proof (cases "wk_id w \<in> set (dict_keys (su_completed effect))")
    case True
    then have "(wk_id w, amount_of (su_completed effect) (wk_id w)) \<in> set (su_completed effect)"
      using dict_mem [OF dicts(2)] by blast
    from completion_steps_each [OF comp this] show ?thesis using index_by_member [OF ids w] by auto
  next
    case False
    then show ?thesis using nonneg [OF w] by (simp add: dict_get_default_notin)
  qed
  have left: "backlog_at (remaining_work effect ?Q) k = backlog_at ?Q k - completes effect ?Q k"
    "backlog_at (remaining_work effect ?D) k = backlog_at ?D k - completes effect ?D k"
    by (rule remaining_backlog, use within in force)+
  have "owed t k = backlog_at ?Q k + backlog_at ?D k - completes effect (?Q @ ?D) k"
    using left by (simp add: owed_def q d completes_append)
  then show ?thesis
    using used_completes [OF comp ids dicts(2) sub, of k] service_steps [OF service dicts(1) k]
    by (simp add: owed_def)
qed

section \<open>Runs\<close>

text \<open>
  A run of the game: transitions of declared actions, with the identifier of each action, whether it may
  be repeated, and the successor taken.
\<close>

type_synonym event = "ident \<times> bool \<times> successor"

inductive game_run ::
  "digests \<Rightarrow> contract \<Rightarrow> objects \<Rightarrow> frontier option \<Rightarrow> gstate \<Rightarrow> event list \<Rightarrow> gstate \<Rightarrow> bool"
  for dg c objects fr s where
  game_start: "game_run dg c objects fr s [] s"
| game_step: "game_run dg c objects fr s es t \<Longrightarrow> r \<in> set (gc_actions c) \<Longrightarrow>
    applicable dg c t r objects fr = Inr (a, cap) \<Longrightarrow> transition dg c t r effect objects fr = Inr u \<Longrightarrow>
    game_run dg c objects fr s (es @ [(ac_id a, cap_repeatable cap, effect)]) u"

inductive_cases game_run_Nil [elim!]: "game_run dg c objects fr s [] t"

lemma transition_accounts:
  assumes "transition dg c s r effect objects fr = Inr t"
  shows "accounts_move (charged effect) (gs_resources s, gs_spent s, gs_charges s)
           (gs_resources t, gs_spent t, gs_charges t)"
  using assms by (rule transition_Inr) (use ledger_accounts in auto)

lemma transition_kept:
  assumes "transition dg c s r effect objects fr = Inr t"
  shows "kept c t"
  using assms by (rule transition_Inr) auto

lemma transition_elapsed:
  assumes "transition dg c s r effect objects fr = Inr t"
  shows "gs_elapsed t = gs_elapsed s + su_duration effect" "gs_elapsed t \<le> re_expires r" "gs_elapsed t \<le> gc_deadline c"
proof -
  from assms obtain a cap u f where u: "transition_ledger c s r effect objects a cap = Inr u"
    "t = u\<lparr>gs_frontier := f\<rparr>" by (rule transition_Inr) blast
  from u(1) show "gs_elapsed t = gs_elapsed s + su_duration effect" "gs_elapsed t \<le> re_expires r" "gs_elapsed t \<le> gc_deadline c"
    by (rule transition_ledger_Inr; simp add: u(2))+
qed

lemma transition_at:
  assumes "transition dg c s r effect objects fr = Inr t" "applicable dg c s r objects fr = Inr (a, cap)"
  obtains u f where "transition_ledger c s r effect objects a cap = Inr u"
    "t = u\<lparr>gs_frontier := f\<rparr>" "effect \<in> set (successors s r)"
  by (rule transition_Inr [OF assms(1)]) (use assms(2) that in auto)

lemma transition_used:
  assumes "transition dg c s r effect objects fr = Inr t" "applicable dg c s r objects fr = Inr (a, cap)"
  shows "set (gs_used t) = set (gs_used s) \<union> (if cap_repeatable cap then {} else {ac_id a})"
    and "cap_repeatable cap \<or> ac_id a \<notin> set (gs_used s)"
proof -
  from assms obtain u f where u: "transition_ledger c s r effect objects a cap = Inr u"
    "t = u\<lparr>gs_frontier := f\<rparr>" by (rule transition_at)
  from u(1) show "set (gs_used t) = set (gs_used s) \<union> (if cap_repeatable cap then {} else {ac_id a})"
    by (rule transition_ledger_Inr) (simp add: u(2))
  show "cap_repeatable cap \<or> ac_id a \<notin> set (gs_used s)"
    using assms(2) by (auto simp: applicable_def)
qed

lemma transition_objects:
  assumes "transition dg c s r effect objects fr = Inr t" "applicable dg c s r objects fr = Inr (a, cap)"
  obtains branch where
    "first_of (\<lambda>b. br_outcome b = su_outcome effect) (cap_branches cap) = Inr branch"
    "set (gs_live t) = set (gs_live s) - (set (br_must_remove branch) \<union> set (br_may_remove branch))"
    "(set (br_must_remove branch) \<union> set (br_may_remove branch)) \<inter> set (ac_protected a) = {}"
    "set (gs_actual_evidence t) = set (gs_actual_evidence s)" "set (gs_models t) = set (gs_models s)"
    "effect \<in> set (successors s r)"
proof -
  from assms obtain u f where u: "transition_ledger c s r effect objects a cap = Inr u"
    "t = u\<lparr>gs_frontier := f\<rparr>" "effect \<in> set (successors s r)" by (rule transition_at)
  from u(1) obtain branch where b:
    "first_of (\<lambda>b. br_outcome b = su_outcome effect) (cap_branches cap) = Inr branch"
    "(set (br_must_remove branch) \<union> set (br_may_remove branch)) \<inter> set (ac_protected a) = {}"
    "gs_live u = sorted_set (sorted_set
       (filter (\<lambda>x. x \<notin> set (br_must_remove branch) \<union> set (br_may_remove branch)) (gs_live s)))"
    "gs_actual_evidence u = sorted_set (gs_actual_evidence s)" "gs_models u = sorted_set (gs_models s)"
    by (rule transition_ledger_Inr)
  have "set (gs_live t) = set (gs_live s) - (set (br_must_remove branch) \<union> set (br_may_remove branch))"
    by (auto simp: u(2) b(3))
  then show ?thesis using that [OF b(1) _ b(2)] b(4,5) u(2,3) by simp
qed

end
