(* ===== verification/Growth_Demo.thy ===== *)
theory Growth_Demo
  imports Growth_Kernel
begin

text \<open>
  A small growth game for the witnesses: three service domains, one resource, one action whose four
  outcomes work on one queued item, and the objects it binds.
\<close>

definition demo_domain :: domain where
  "demo_domain = \<lparr>gd_unit = ''u'', gd_target = 10, gd_service_floor = 1, gd_quality_floor = 0, gd_coverage_floor = 0\<rparr>"

definition demo_caps :: "(ident, interval) dict" where
  "demo_caps = [(''task'', \<lparr>iv_lower = 2, iv_upper = 3\<rparr>), (''research'', \<lparr>iv_lower = 2, iv_upper = 3\<rparr>),
     (''verification'', \<lparr>iv_lower = 2, iv_upper = 3\<rparr>)]"

definition demo_levels :: "(ident, rat) dict" where
  "demo_levels = [(''task'', 1), (''research'', 1), (''verification'', 1)]"

definition demo_queue :: "work list" where
  "demo_queue = [\<lparr>wk_id = ''w'', wk_stage = ''task'', wk_remaining = 3, wk_deadline = 50\<rparr>]"

definition demo_state :: gstate where
  "demo_state = \<lparr>gs_capacities = demo_caps, gs_quality = demo_levels, gs_coverage = demo_levels,
     gs_resources = [(''money'', 100)], gs_reservations = [], gs_queue = demo_queue, gs_obligations = [],
     gs_elapsed = 0, gs_checkpoints = [], gs_evidence = [], gs_pending = [], gs_used = [], gs_assumptions = [],
     gs_models = [''m''], gs_spent = [], gs_charges = [], gs_offered = [], gs_completed = [],
     gs_attribution = endogenous, gs_actual_evidence = [], gs_live = [''a'', ''b'', ''c'', ''pol''], gs_hazards = [], gs_frontier = None\<rparr>"

definition demo_effect :: "ident \<Rightarrow> outcome \<Rightarrow> successor" where
  "demo_effect i out = \<lparr>su_id = i, su_outcome = out, su_models = [''m''], su_duration = 1,
     su_capacity_delta = [(''task'', \<lparr>iv_lower = 2, iv_upper = 2\<rparr>)], su_quality = [], su_coverage = [],
     su_charges = [(''generation'', [(''money'', 5)])], su_reservations = [],
     su_arrivals = [\<lparr>wk_id = ''x'', wk_stage = ''task'', wk_remaining = 1, wk_deadline = 60\<rparr>], su_debt_added = [],
     su_offered = [(''task'', 2)], su_completed = [(''w'', 2)], su_evidence_added = [], su_evidence_removed = [],
     su_pending_added = [''p''], su_pending_resolved = [], su_assumptions_added = [], su_assumptions_removed = [],
     su_attribution = endogenous\<rparr>"

definition demo_recipe :: recipe where
  "demo_recipe = \<lparr>re_action_digest = ''a'', re_required_evidence = [], re_required_assumptions = [],
     re_minimum_capacities = [(''task'', 1)], re_interactions = [], re_earliest = 0, re_expires = 90,
     re_successors = [demo_effect ''e1'' success, demo_effect ''e2'' partial, demo_effect ''e3'' failure, demo_effect ''e4'' timeout]\<rparr>"

text \<open>A second action, which a frontier may keep latent.\<close>

definition demo_recipe2 :: recipe where
  "demo_recipe2 = demo_recipe\<lparr>re_action_digest := ''a2'', re_minimum_capacities := []\<rparr>"

definition demo_contract :: contract where
  "demo_contract = \<lparr>gc_snapshot = ''s'', gc_units = ''u'', gc_time_origin = 0,
     gc_domains = [(''task'', demo_domain), (''research'', demo_domain), (''verification'', demo_domain)],
     gc_resource_units = [(''money'', ''u'')], gc_resource_floors = [(''money'', 1)], gc_shared_resources = [(''desk'', 50)],
     gc_joint_coefficients = [(''desk'', [(''task'', 1), (''research'', 1)])], gc_joint_service_until = 100,
     gc_queue_limits = [(''task'', 10), (''research'', 10), (''verification'', 10)],
     gc_debt_limits = [(''task'', 10), (''research'', 10), (''verification'', 10)],
     gc_blocking_ids = [], gc_entry_evidence = [], gc_models = [''m''], gc_initial_state = demo_state,
     gc_windows = [\<lparr>win_start = 0, win_end = 1, win_task_factor = 2, win_research_factor = 2\<rparr>],
     gc_continuation_horizon = 10, gc_continuation_task_factor = 2, gc_continuation_research_factor = 2,
     gc_deadline = 100, gc_max_decisions = 4, gc_actions = [demo_recipe, demo_recipe2], gc_comparators = [], gc_comparison_margin = 1,
     gc_cost_order = [''money''], gc_monetary_resource = Some ''money'',
     gc_search_limits = \<lparr>li_max_witness_nodes = 100, li_max_states = 100, li_max_expansions = 100, li_max_policies = 100, li_max_depth = 4\<rparr>,
     gc_planning_charge = [(''money'', 1)], gc_planning_duration = 0, gc_planning_boundary = shared_budget\<rparr>"

definition demo_branch :: "outcome \<Rightarrow> branch_effect" where
  "demo_branch out = \<lparr>br_outcome = out, br_must_add = [''new''], br_may_add = [], br_must_remove = [''b''], br_may_remove = [],
     br_resource_lower = [(''money'', - 9)], br_resource_upper = [(''money'', 0)], br_evidence_routes = [],
     br_resolves_blockers = [], br_debt = [], br_rollback_obligations = [], br_hazards_added = [], br_hazards_removed = [],
     br_time_upper = 2, br_cost_upper = 1, br_quality_lower = 0, br_safety_lower = 0, br_verification_load_upper = 0,
     br_independence_erosion_upper = 0, br_correlation_concentration_upper = 0, br_cut_exposure_upper = 0\<rparr>"

definition demo_capability :: capability where
  "demo_capability = \<lparr>cap_id = ''cap'', cap_adapter = ''ad'', cap_verifier = ''ve'', cap_policy_digest = ''pol'',
     cap_image_digest = ''img'', cap_materials = [], cap_output_schema_name = ''out'', cap_output_schema_digest = ''out'',
     cap_repeatable = False, cap_progress_measure = None,
     cap_branches = [demo_branch success, demo_branch partial, demo_branch failure, demo_branch timeout]\<rparr>"

definition demo_action :: action_spec where
  "demo_action = \<lparr>ac_id = ''act'', ac_capability = ''c'', ac_required = [''a''], ac_prohibited_hazards = [''fire''], ac_protected = [''a'']\<rparr>"

definition demo_action2 :: action_spec where
  "demo_action2 = demo_action\<lparr>ac_id := ''act2''\<rparr>"

definition demo_units :: unit_registry where
  "demo_units = \<lparr>ur_units = [(''u'', \<lparr>un_dimensions = [], un_scale = 1\<rparr>), (''t'', \<lparr>un_dimensions = [(''time'', 1)], un_scale = 1\<rparr>)],
     ur_coordinate_units = [(''task'', ''u''), (''research'', ''u''), (''verification'', ''u''), (''money'', ''u'')], ur_time_unit = ''t''\<rparr>"

definition demo_objects :: objects where
  "demo_objects = [(''a'', ActionDoc demo_action), (''a2'', ActionDoc demo_action2), (''c'', CapabilityDoc demo_capability), (''pol'', PolicyDoc [''img'']),
     (''s'', SnapshotDoc \<lparr>sn_unit_registry = ''u'', sn_objects = [''a'', ''a2'', ''b'', ''c'', ''pol'']\<rparr>), (''u'', UnitsDoc demo_units), (''b'', OtherDoc None)]"

text \<open>Digest functions for the demo: distinct enough for its documents.\<close>

definition demo_digests :: digests where
  "demo_digests = \<lparr>dg_state = (\<lambda>s. show_nat (length (gs_used s))), dg_effect = su_id, dg_window = (\<lambda>w. ''w''),
     dg_checkpoint = (\<lambda>p. ''p''), dg_node = (\<lambda>n. ''n''),
     dg_document = (\<lambda>x. case x of ActionDoc a \<Rightarrow> (if ac_id a = ''act'' then ''a'' else ''a2'') | CapabilityDoc _ \<Rightarrow> ''c'' | PolicyDoc _ \<Rightarrow> ''pol''
        | SnapshotDoc _ \<Rightarrow> ''s'' | UnitsDoc _ \<Rightarrow> ''u'' | OtherDoc _ \<Rightarrow> ''b''),
     dg_contract = (\<lambda>c. ''k''), dg_frontier = (\<lambda>f. ''f''), dg_schema = (\<lambda>n. n),
     dg_input = (\<lambda>c os f. ''in''), dg_checked = (\<lambda>i p obj. ''ok'')\<rparr>"

text \<open>A frontier that enables the first action and lets its first successor enable the second.\<close>

definition demo_lifecycle :: lifecycle where
  "demo_lifecycle = \<lparr>lc_valid_from = 0, lc_valid_until = 1000000000, lc_withdrawn_at = None\<rparr>"

definition demo_binding :: "ident \<Rightarrow> digest \<Rightarrow> binding" where
  "demo_binding i d = \<lparr>bi_action_id = i, bi_action_digest = d, bi_capability_digest = ''c'',
     bi_output_schema_digest = ''out'', bi_policy_digest = ''pol'', bi_lifecycle = demo_lifecycle\<rparr>"

definition demo_rule :: rule where
  "demo_rule = \<lparr>ru_id = ''r'', ru_producer_id = ''act'', ru_successor_id = ''e1'', ru_activated = [''act2''],
     ru_capabilities = [''c''], ru_evidence = [], ru_models = [''m''], ru_minimum_capacities = [(''task'', 2)],
     ru_minimum_resources = [(''money'', 3)], ru_valid_from = 0, ru_expires = 100\<rparr>"

definition demo_frontier :: frontier where
  "demo_frontier = \<lparr>fr_contract_digest = ''k'', fr_initial = [''act''], fr_latent = [''act2''],
     fr_bindings = [demo_binding ''act'' ''a'', demo_binding ''act2'' ''a2''], fr_rules = [demo_rule],
     fr_max_depth = 2, fr_initial_lineage = []\<rparr>"

definition demo_seeded :: gstate where
  "demo_seeded = demo_state\<lparr>gs_live := [''a'', ''a2'', ''c'', ''pol''], gs_frontier := Some \<lparr>fp_digest = ''f'',
     fp_enabled = [''act''], fp_depth = 0, fp_lineage = []\<rparr>\<rparr>"

text \<open>A later plan: planning spent time before, and will spend money now.\<close>

definition demo_replan :: contract where
  "demo_replan = demo_contract\<lparr>gc_resource_units := [(''money'', ''u''), (''time'', ''u'')],
     gc_initial_state := demo_state\<lparr>gs_resources := [(''money'', 100), (''time'', 9)], gs_spent := [(''time'', 3)],
       gs_charges := [(''planner'', [(''time'', 3)])]\<rparr>\<rparr>"

lemma demo_activation:
  "case transition demo_digests demo_contract demo_seeded demo_recipe (demo_effect ''e1'' success) demo_objects
      (Some demo_frontier) of
     Inl e \<Rightarrow> False
   | Inr t \<Rightarrow> (case check_frontier_state demo_digests t demo_frontier of
        Inl e \<Rightarrow> False
      | Inr f \<Rightarrow> (fp_enabled f, fp_depth f, map av_action_id (fp_lineage f)) = ([''act'', ''act2''], 1, [''act2'']))"
  by code_simp

lemma demo_transition:
  "case transition demo_digests demo_contract demo_state demo_recipe (demo_effect ''e1'' success) demo_objects None of
     Inl e \<Rightarrow> False
   | Inr t \<Rightarrow> gs_resources t = [(''money'', 95)] \<and> gs_spent t = [(''money'', 5)] \<and> gs_elapsed t = 1 \<and>
       gs_used t = [''act''] \<and> gs_live t = [''a'', ''c'', ''pol''] \<and>
       map (\<lambda>w. (wk_id w, wk_remaining w)) (gs_queue t) = [(''w'', 1), (''x'', 1)]"
  by code_simp

lemma demo_step:
  obtains t where "transition demo_digests demo_contract demo_state demo_recipe (demo_effect ''e1'' success) demo_objects None = Inr t"
    "gs_resources t = [(''money'', 95)]" "gs_elapsed t = 1" "gs_live t = [''a'', ''c'', ''pol'']"
  using demo_transition by (auto split: sum.splits)

end
