(* ===== verification/Growth_Properties.thy ===== *)
theory Growth_Properties
  imports Growth_Steps Growth_Demo
begin

text \<open>
  Properties of the growth kernel: what \<open>check_state\<close> accepts, what one transition preserves, and what
  holds along every run of the game.
\<close>

section \<open>One transition\<close>

text \<open>
  C30: \<open>check_state\<close> accepts exactly the states that meet the declarative invariant: the declared domains
  and resources, capacity intervals in order and above their service floors, quality and coverage between
  floor and one, resources above their floors, each stage's backlog within its limit, unique and timely work,
  no shared resource booked beyond its amount, and checkpoints in the past at distinct times.
\<close>

theorem check_state_exact: "check_state c s = Inr () \<longleftrightarrow> kept c s"
  by (rule check_state_kept)

text \<open>
  C3: A transition moves resources only from what is left to what is spent: for every resource the sum of
  the two is unchanged, the charge book grows by exactly what was spent, which is what the successor
  charges, and the new state satisfies the whole state invariant, so no floor is crossed.
\<close>

theorem transition_conserves_resources:
  assumes "transition dg c s r effect objects fr = Inr t"
  shows "kept c t \<and> (\<forall>k.
    amount_of (gs_resources t) k + amount_of (gs_spent t) k = amount_of (gs_resources s) k + amount_of (gs_spent s) k \<and>
    amount_of (gs_spent t) k - amount_of (gs_spent s) k = charged effect k \<and>
    booked (gs_charges t) k - booked (gs_charges s) k = charged effect k)"
  using transition_kept [OF assms] transition_accounts [OF assms] by (simp add: accounts_move_def)

theorem transition_conserves_resources_witness:
  "\<exists>t. kept demo_contract t \<and> amount_of (gs_resources t) ''money'' + amount_of (gs_spent t) ''money'' = 100"
proof -
  obtain t where "transition demo_digests demo_contract demo_state demo_recipe (demo_effect ''e1'' success) demo_objects None = Inr t"
    by (rule demo_step)
  note law = transition_conserves_resources [OF this]
  have "kept demo_contract t" using law by (rule conjunct1)
  moreover have "amount_of (gs_resources t) ''money'' + amount_of (gs_spent t) ''money'' = 100"
    using law [THEN conjunct2, THEN spec, of "''money''"] by (simp add: demo_state_def dict_get_default_def)
  ultimately show ?thesis by blast
qed

text \<open>
  C16: The law of work: at every stage a transition leaves owed exactly what was owed, plus the work
  and the obligations that arrived, minus the work it completed; and completes no more than
  the service it offers, which is no more than the guaranteed capacity of the stage over its duration.
\<close>

theorem transition_work_law:
  assumes "transition dg c s r effect objects fr = Inr t"
    and "distinct (dict_keys (gc_domains c))" and "distinct (dict_keys (su_completed effect))"
    and "k \<in> set (dict_keys (gc_domains c))"
  shows "owed t k = owed s k + backlog_at (su_arrivals effect) k + backlog_at (su_debt_added effect) k -
           (amount_of (gs_completed t) k - amount_of (gs_completed s) k) \<and>
    amount_of (gs_completed t) k - amount_of (gs_completed s) k \<le> amount_of (gs_offered t) k - amount_of (gs_offered s) k \<and>
    amount_of (gs_offered t) k - amount_of (gs_offered s) k \<le> iv_lower (the (dict_get (gs_capacities s) k)) * su_duration effect"
proof -
  from assms(1) obtain a cap u f where "transition_ledger c s r effect objects a cap = Inr u" "t = u\<lparr>gs_frontier := f\<rparr>"
    by (rule transition_Inr) blast
  with ledger_owed [OF this(1) assms(2-4)] show ?thesis by (simp add: owed_def)
qed

theorem transition_work_law_witness:
  "\<exists>t. owed t ''task'' = 4 - amount_of (gs_completed t) ''task'' \<and> amount_of (gs_offered t) ''task'' \<le> 2"
proof -
  obtain t where t: "transition demo_digests demo_contract demo_state demo_recipe (demo_effect ''e1'' success) demo_objects None = Inr t"
    by (rule demo_step)
  have "distinct (dict_keys (gc_domains demo_contract))" "distinct (dict_keys (su_completed (demo_effect ''e1'' success)))"
    "''task'' \<in> set (dict_keys (gc_domains demo_contract))"
    by (simp_all add: demo_contract_def demo_effect_def dict_keys_def)
  from transition_work_law [OF t this] show ?thesis
    by (intro exI [of _ t])
      (simp add: demo_state_def demo_queue_def demo_caps_def demo_effect_def owed_def dict_get_default_def dict_get_def)
qed

text \<open>
  C32: A transition never removes an object that its action protects, removes live objects only when the
  declared branch of its capability allows it, adds none, and adds no actual evidence: predicted results
  stay pending.
\<close>

theorem transition_keeps_protected:
  assumes "transition dg c s r effect objects fr = Inr t"
    and "applicable dg c s r objects fr = Inr (a, cap)"
  shows "set (ac_required a) \<subseteq> set (gs_live s) \<and>
    set (ac_protected a) \<inter> set (gs_live s) \<subseteq> set (gs_live t) \<and>
    (\<exists>branch \<in> set (cap_branches cap). br_outcome branch = su_outcome effect \<and>
       set (gs_live t) = set (gs_live s) - (set (br_must_remove branch) \<union> set (br_may_remove branch))) \<and>
    set (gs_actual_evidence t) = set (gs_actual_evidence s) \<and>
    effect \<in> set (re_successors r)"
proof -
  from assms obtain branch where b:
    "first_of (\<lambda>b. br_outcome b = su_outcome effect) (cap_branches cap) = Inr branch"
    "set (gs_live t) = set (gs_live s) - (set (br_must_remove branch) \<union> set (br_may_remove branch))"
    "(set (br_must_remove branch) \<union> set (br_may_remove branch)) \<inter> set (ac_protected a) = {}"
    "set (gs_actual_evidence t) = set (gs_actual_evidence s)" "effect \<in> set (successors s r)"
    by (rule transition_objects)
  have "set (ac_required a) \<subseteq> set (gs_live s)"
    using assms(2) unfolding applicable_def res_bind_Inr require_Inr by auto
  then show ?thesis using b first_of_Inr [OF b(1)] by (auto simp: set_successors)
qed

theorem transition_keeps_protected_witness:
  "\<exists>t :: gstate. ''a'' \<in> set (gs_live t) \<and> set (gs_actual_evidence t) = {}"
proof -
  obtain t where t: "transition demo_digests demo_contract demo_state demo_recipe (demo_effect ''e1'' success) demo_objects None = Inr t"
    "gs_live t = [''a'', ''c'', ''pol'']" by (rule demo_step)
  have "applicable demo_digests demo_contract demo_state demo_recipe demo_objects None = Inr (demo_action, demo_capability)"
    by code_simp
  note law = transition_keeps_protected [OF t(1) this]
  from law have "''a'' \<in> set (gs_live t)" by (simp add: demo_action_def demo_state_def)
  moreover from law have "set (gs_actual_evidence t) = {}" by (simp add: demo_state_def)
  ultimately show ?thesis by (intro exI [of _ t] conjI)
qed

section \<open>Runs\<close>

lemma run_kept: "game_run dg c objects fr s es t \<Longrightarrow> kept c s \<Longrightarrow> kept c t"
  by (induction rule: game_run.induct) (auto intro: transition_kept)

lemma run_accounts:
  "game_run dg c objects fr s es t \<Longrightarrow>
   accounts_move (\<lambda>k. \<Sum>(i, rep, effect) \<leftarrow> es. charged effect k)
     (gs_resources s, gs_spent s, gs_charges s) (gs_resources t, gs_spent t, gs_charges t)"
proof (induction rule: game_run.induct)
  case (game_step es t r a cap effect u)
  from accounts_move_trans [OF game_step.IH transition_accounts [OF game_step(4)]]
  show ?case by (simp add: accounts_move_def)
qed (simp add: accounts_move_def)

text \<open>
  C20: Along every run of the game from a valid state, the state stays valid, what is spent of each
  resource is exactly the sum of the charges of the steps, and resources and spending keep their total.
\<close>

theorem run_conserves_resources:
  assumes "game_run dg c objects fr s es t" and "kept c s"
  shows "kept c t \<and> (\<forall>k.
    amount_of (gs_spent t) k = amount_of (gs_spent s) k + (\<Sum>(i, rep, effect) \<leftarrow> es. charged effect k) \<and>
    amount_of (gs_resources t) k + amount_of (gs_spent t) k = amount_of (gs_resources s) k + amount_of (gs_spent s) k)"
  using run_kept [OF assms] run_accounts [OF assms(1)] by (simp add: accounts_move_def)

lemma demo_applicable:
  "applicable demo_digests demo_contract demo_state demo_recipe demo_objects None = Inr (demo_action, demo_capability)"
  by code_simp

lemma demo_kept: "kept demo_contract demo_state"
proof -
  have "check_state demo_contract demo_state = Inr ()" by code_simp
  then show ?thesis by (simp add: check_state_kept)
qed

lemma demo_game:
  obtains t where "game_run demo_digests demo_contract demo_objects None demo_state
      [(''act'', False, demo_effect ''e1'' success)] t" "gs_elapsed t = 1"
proof -
  obtain t where t: "transition demo_digests demo_contract demo_state demo_recipe (demo_effect ''e1'' success) demo_objects None = Inr t"
    "gs_elapsed t = 1" by (rule demo_step)
  have "demo_recipe \<in> set (gc_actions demo_contract)" by (simp add: demo_contract_def)
  from game_step [OF game_start this demo_applicable t(1)] show ?thesis
    using that [OF _ t(2)] by (simp add: demo_action_def demo_capability_def)
qed

theorem run_conserves_resources_witness:
  "\<exists>t. kept demo_contract t \<and> amount_of (gs_spent t) ''money'' = 5"
proof -
  obtain t where "game_run demo_digests demo_contract demo_objects None demo_state
      [(''act'', False, demo_effect ''e1'' success)] t" by (rule demo_game)
  from run_conserves_resources [OF this demo_kept] show ?thesis
    by (intro exI [of _ t]) (simp add: demo_state_def demo_effect_def charged_def entries_of_def)
qed

lemma run_used:
  "game_run dg c objects fr s es t \<Longrightarrow>
   set (gs_used t) = set (gs_used s) \<union> set (map fst (filter (\<lambda>(i, rep, e). \<not> rep) es)) \<and>
   distinct (map fst (filter (\<lambda>(i, rep, e). \<not> rep) es)) \<and>
   set (map fst (filter (\<lambda>(i, rep, e). \<not> rep) es)) \<inter> set (gs_used s) = {}"
proof (induction rule: game_run.induct)
  case (game_step es t r a cap effect u)
  show ?case using transition_used [OF game_step(4,3)] game_step.IH by auto
qed simp

lemma run_elapsed:
  "game_run dg c objects fr s es t \<Longrightarrow> gs_elapsed t = gs_elapsed s + (\<Sum>(i, rep, effect) \<leftarrow> es. su_duration effect)"
  by (induction rule: game_run.induct) (auto dest: transition_elapsed(1))

lemma run_declared:
  "game_run dg c objects fr s es t \<Longrightarrow> (i, rep, effect) \<in> set es \<Longrightarrow>
   \<exists>r \<in> set (gc_actions c). effect \<in> set (re_successors r)"
proof (induction rule: game_run.induct)
  case (game_step es t r a cap eff u)
  from game_step(4) have "eff \<in> set (successors t r)" by (rule transition_Inr)
  then show ?case using game_step set_successors by auto
qed simp

text \<open>
  C33: In every run an action that may not be repeated is taken at most once, and never when it was
  already used before the run.
\<close>

theorem run_nonrepeatable_once:
  assumes "game_run dg c objects fr s es t"
  shows "distinct (map fst (filter (\<lambda>(i, rep, e). \<not> rep) es)) \<and>
    set (map fst (filter (\<lambda>(i, rep, e). \<not> rep) es)) \<inter> set (gs_used s) = {} \<and>
    set (gs_used s) \<subseteq> set (gs_used t)"
  using run_used [OF assms] by blast

theorem run_nonrepeatable_once_witness:
  "distinct (map fst (filter (\<lambda>(i, rep, e). \<not> rep) [(''act'', False, demo_effect ''e1'' success)]))"
proof -
  obtain t where "game_run demo_digests demo_contract demo_objects None demo_state
      [(''act'', False, demo_effect ''e1'' success)] t" by (rule demo_game)
  from run_nonrepeatable_once [OF this] show ?thesis by (rule conjunct1)
qed

text \<open>
  C21: The game ends: when every declared successor takes at least \<open>d > 0\<close> time, which contract
  validation ensures for some \<open>d\<close>, no run from a valid state makes more than \<open>deadline / d\<close> steps.
\<close>

theorem run_length_bounded:
  assumes "game_run dg c objects fr s es t" and "kept c s" and "0 < d"
    and "\<forall>r \<in> set (gc_actions c). \<forall>effect \<in> set (re_successors r). d \<le> su_duration effect"
  shows "of_nat (length es) * d \<le> gc_deadline c"
proof -
  have "of_nat (length es) * d \<le> (\<Sum>(i, rep, effect) \<leftarrow> es. su_duration effect)"
    using run_declared [OF assms(1)] assms(4)
  proof (induction es)
    case (Cons e es)
    obtain i rep effect where [simp]: "e = (i, rep, effect)" by (cases e) auto
    have "d \<le> su_duration effect" using Cons.prems by fastforce
    moreover have "of_nat (length es) * d \<le> (\<Sum>(i, rep, effect) \<leftarrow> es. su_duration effect)"
      using Cons.IH Cons.prems by (meson list.set_intros(2))
    ultimately show ?case by (simp add: algebra_simps)
  qed simp
  then show ?thesis
    using run_elapsed [OF assms(1)] run_kept [OF assms(1,2)] assms(2) by (simp add: kept_def)
qed

theorem run_length_bounded_witness: "of_nat (length [(''act'', False, demo_effect ''e1'' success)]) * 1 \<le> (100 :: rat)"
proof -
  obtain t where run: "game_run demo_digests demo_contract demo_objects None demo_state
      [(''act'', False, demo_effect ''e1'' success)] t" by (rule demo_game)
  have "\<forall>r \<in> set (gc_actions demo_contract). \<forall>effect \<in> set (re_successors r). 1 \<le> su_duration effect"
    by (simp add: demo_contract_def demo_recipe_def demo_recipe2_def demo_effect_def)
  from run_length_bounded [OF run demo_kept _ this] show ?thesis by (simp add: demo_contract_def)
qed

section \<open>The charged initial state\<close>

lemma pay_step_Inr:
  "pay_step (k, v) (resources, spent) = Inr r \<longleftrightarrow>
     (\<exists>q. dict_get resources k = Some q \<and> r = (dict_set resources k (q - v), add_to spent k v))"
  by (auto simp: pay_step_def)

lemma pay_steps_move:
  "fold_res pay_step charge (resources, spent) = Inr (resources', spent') \<Longrightarrow>
   amount_of resources' k = amount_of resources k - entries_of k charge \<and>
   amount_of spent' k = amount_of spent k + entries_of k charge"
proof (induction charge arbitrary: resources spent)
  case (Cons kv charge)
  obtain j v where kv: "kv = (j, v)" by (cases kv)
  obtain q where q: "dict_get resources j = Some q"
    "fold_res pay_step charge (dict_set resources j (q - v), add_to spent j v) = Inr (resources', spent')"
    using Cons.prems unfolding kv fold_res.simps res_bind_Inr pay_step_Inr by blast
  show ?case using Cons.IH [OF q(2)] q(1) by (auto simp: kv entries_of_def dict_get_default_Some)
qed (simp add: entries_of_def)

lemma entries_of_dict: "distinct (dict_keys d) \<Longrightarrow> entries_of k d = amount_of d k"
proof -
  assume d: "distinct (dict_keys d)"
  have "entries_of k d = (\<Sum>j \<in> {j \<in> set (dict_keys d). j = k}. amount_of d j)"
    unfolding entries_of_def by (rule sum_over_entries [OF d])
  also have "{j \<in> set (dict_keys d). j = k} = (if k \<in> set (dict_keys d) then {k} else {})" by auto
  finally show ?thesis by (simp add: dict_get_default_notin split: if_splits)
qed

lemma charge_planning_amount:
  "amount_of (charge_planning c bucket) k =
     (if k \<in> set (dict_keys (gc_planning_charge c)) then amount_of bucket k + amount_of (gc_planning_charge c) k else 0)"
proof -
  have "map_of (map (\<lambda>(k, v). (k, f k + v)) d) k = map_option (\<lambda>v. f k + v) (map_of d k)" for f :: "ident \<Rightarrow> rat" and d
    by (induction d) auto
  then have get: "dict_get (charge_planning c bucket) k = map_option (\<lambda>v. amount_of bucket k + v) (dict_get (gc_planning_charge c) k)"
    by (simp add: charge_planning_def dict_get_def)
  show ?thesis
  proof (cases "dict_get (gc_planning_charge c) k")
    case None
    then show ?thesis using get dict_get_None [of "gc_planning_charge c" k]
      by (simp add: dict_get_default_def dict_get_def)
  next
    case (Some v)
    then have "k \<in> set (dict_keys (gc_planning_charge c))" using dict_get_None [of "gc_planning_charge c" k] by simp
    then show ?thesis using get Some by (simp add: dict_get_default_Some)
  qed
qed

lemma initial_state_Inr:
  assumes "initial_state dg c fr = Inr t"
  obtains u f where "t = u\<lparr>gs_frontier := f\<rparr>" "kept c u"
    "gs_elapsed u = gs_elapsed (gc_initial_state c) + gc_planning_duration c"
    "(if gc_planning_boundary c = shared_budget
      then fold_res pay_step (gc_planning_charge c) (gs_resources (gc_initial_state c), gs_spent (gc_initial_state c))
      else Inr (gs_resources (gc_initial_state c), gs_spent (gc_initial_state c))) = Inr (gs_resources u, gs_spent u)"
    "gs_charges u = (let category = if gc_planning_boundary c = shared_budget then ''planner'' else ''external-planner''
       in dict_set (gs_charges (gc_initial_state c)) category
            (charge_planning c (dict_get_default (gs_charges (gc_initial_state c)) category [])))"
proof -
  let ?s = "gc_initial_state c"
  obtain resources spent checkpoints u where u:
    "(if gc_planning_boundary c = shared_budget then fold_res pay_step (gc_planning_charge c) (gs_resources ?s, gs_spent ?s)
      else Inr (gs_resources ?s, gs_spent ?s)) = Inr (resources, spent)"
    "u = normal_form (?s\<lparr>gs_resources := resources, gs_spent := spent,
       gs_charges := (let category = if gc_planning_boundary c = shared_budget then ''planner'' else ''external-planner''
         in dict_set (gs_charges ?s) category (charge_planning c (dict_get_default (gs_charges ?s) category []))),
       gs_elapsed := gs_elapsed ?s + gc_planning_duration c, gs_checkpoints := checkpoints\<rparr>)"
    "kept c u" "(case fr of None \<Rightarrow> Inr u | Some f \<Rightarrow> seed dg u f) = Inr t"
    using assms unfolding initial_state_def Let_def res_bind_Inr normalize_Inr check_state_kept split_paired_Ex prod.case
    by blast
  have "\<exists>f. t = u\<lparr>gs_frontier := f\<rparr>"
  proof (cases fr)
    case None
    then have "t = u\<lparr>gs_frontier := gs_frontier u\<rparr>" using u(4) by simp
    then show ?thesis by blast
  next
    case (Some f)
    then have "seed dg u f = Inr t" using u(4) by simp
    then show ?thesis unfolding seed_def using with_frontier_Inr by blast
  qed
  then obtain f where f: "t = u\<lparr>gs_frontier := f\<rparr>" by blast
  have fields: "gs_elapsed u = gs_elapsed ?s + gc_planning_duration c" "gs_resources u = resources" "gs_spent u = spent"
    "gs_charges u = (let category = if gc_planning_boundary c = shared_budget then ''planner'' else ''external-planner''
       in dict_set (gs_charges ?s) category (charge_planning c (dict_get_default (gs_charges ?s) category [])))"
    by (simp_all add: u(2) normal_form_def)
  show ?thesis by (rule that [OF f u(3) fields(1) _ fields(4)]) (simp only: u(1) fields(2,3))
qed

text \<open>
  The initial state of a plan is valid, starts after the planning time, and pays for planning: with a
  shared budget each resource falls and spending rises by the planning charge, with an external planner
  both stay; and when the planner's bucket held nothing but resources of the planning charge, the charge
  book grows by exactly the planning charge.
\<close>

theorem initial_state_pays:
  assumes "initial_state dg c fr = Inr t" and "distinct (dict_keys (gc_planning_charge c))"
  shows "kept c t \<and> gs_elapsed t = gs_elapsed (gc_initial_state c) + gc_planning_duration c \<and>
    (\<forall>k. let s = gc_initial_state c; charge = amount_of (gc_planning_charge c) k;
           paid = (if gc_planning_boundary c = shared_budget then charge else 0);
           category = (if gc_planning_boundary c = shared_budget then ''planner'' else ''external-planner'')
      in amount_of (gs_resources t) k = amount_of (gs_resources s) k - paid \<and>
         amount_of (gs_spent t) k = amount_of (gs_spent s) k + paid \<and>
         (set (dict_keys (dict_get_default (gs_charges s) category [])) \<subseteq> set (dict_keys (gc_planning_charge c)) \<longrightarrow>
          booked (gs_charges t) k = booked (gs_charges s) k + charge))"
proof -
  let ?s = "gc_initial_state c" and ?cat = "if gc_planning_boundary c = shared_budget then ''planner'' else ''external-planner''"
  from assms(1) obtain u f where t: "t = u\<lparr>gs_frontier := f\<rparr>" "kept c u"
    "gs_elapsed u = gs_elapsed ?s + gc_planning_duration c"
    and pay: "(if gc_planning_boundary c = shared_budget
      then fold_res pay_step (gc_planning_charge c) (gs_resources ?s, gs_spent ?s)
      else Inr (gs_resources ?s, gs_spent ?s)) = Inr (gs_resources u, gs_spent u)"
    and book: "gs_charges u = (let category = ?cat in dict_set (gs_charges ?s) category
            (charge_planning c (dict_get_default (gs_charges ?s) category [])))"
    by (rule initial_state_Inr)
  have "amount_of (gs_resources u) k = amount_of (gs_resources ?s) k - (if gc_planning_boundary c = shared_budget then amount_of (gc_planning_charge c) k else 0) \<and>
    amount_of (gs_spent u) k = amount_of (gs_spent ?s) k + (if gc_planning_boundary c = shared_budget then amount_of (gc_planning_charge c) k else 0)" for k
    using pay pay_steps_move entries_of_dict [OF assms(2)] by (auto split: if_splits)
  moreover have "booked (gs_charges u) k = booked (gs_charges ?s) k + amount_of (gc_planning_charge c) k"
    if sub: "set (dict_keys (dict_get_default (gs_charges ?s) ?cat [])) \<subseteq> set (dict_keys (gc_planning_charge c))" for k
  proof (cases "k \<in> set (dict_keys (gc_planning_charge c))")
    case True
    then show ?thesis unfolding book Let_def booked_set charge_planning_amount by simp
  next
    case False
    then have "k \<notin> set (dict_keys (dict_get_default (gs_charges ?s) ?cat []))" using sub by blast
    then have z: "amount_of (dict_get_default (gs_charges ?s) ?cat []) k = 0" by (rule dict_get_default_notin)
    from False have z': "amount_of (gc_planning_charge c) k = 0" by (rule dict_get_default_notin)
    show ?thesis unfolding book Let_def booked_set charge_planning_amount z z' using False by simp
  qed
  ultimately show ?thesis using t by (simp add: Let_def)
qed

theorem initial_state_pays_witness:
  "\<exists>t. kept demo_contract t \<and> amount_of (gs_resources t) ''money'' = 99"
proof -
  have "case initial_state demo_digests demo_contract None of Inr t \<Rightarrow> True | Inl e \<Rightarrow> False" by code_simp
  then obtain t where t: "initial_state demo_digests demo_contract None = Inr t" by (auto split: sum.splits)
  have "distinct (dict_keys (gc_planning_charge demo_contract))" by (simp add: demo_contract_def dict_keys_def)
  note law = initial_state_pays [OF t this]
  from law have "kept demo_contract t" by (rule conjunct1)
  moreover have "amount_of (gs_resources t) ''money'' = 99"
    using law [THEN conjunct2, THEN conjunct2, THEN spec, of "''money''"]
    by (simp add: Let_def demo_contract_def demo_state_def dict_get_default_def)
  ultimately show ?thesis by blast
qed


end
