(* ===== verification/Growth_Activation.thy ===== *)
theory Growth_Activation
  imports Growth_Steps
begin

text \<open>
  The capability frontier: what \<open>check_frontier_state\<close> guarantees of a lineage, why the loop of
  \<open>check_use\<close> ends, and that an activation leaves a frontier that passes the check again.
\<close>

section \<open>Checked frontiers\<close>

abbreviation lineage_of :: "frontier_part \<Rightarrow> (ident, activation) dict" where
  "lineage_of f \<equiv> index_by av_action_id (fp_lineage f)"

abbreviation rules_of :: "frontier \<Rightarrow> (ident, rule) dict" where
  "rules_of fr \<equiv> index_by ru_id (fr_rules fr)"

definition carried_of :: "frontier \<Rightarrow> (ident, activation) dict" where
  "carried_of fr = index_by av_action_id (fr_initial_lineage fr)"

definition first_enabled :: "frontier \<Rightarrow> ident set" where
  "first_enabled fr = set (fr_initial fr) - set (dict_keys (carried_of fr))"

definition frontier_ok :: "digests \<Rightarrow> frontier \<Rightarrow> gstate \<Rightarrow> frontier_part \<Rightarrow> bool" where
  "frontier_ok dg fr s f \<longleftrightarrow>
     fp_digest f = dg_frontier dg fr \<and>
     distinct (map av_action_id (fp_lineage f)) \<and>
     (\<forall>(k, v) \<in> set (carried_of fr). dict_get (lineage_of f) k = Some v) \<and>
     first_enabled fr \<inter> av_action_id ` set (fp_lineage f) = {} \<and>
     set (fp_enabled f) = first_enabled fr \<union> av_action_id ` set (fp_lineage f) \<and>
     distinct (fp_enabled f) \<and>
     (\<forall>e \<in> set (fp_lineage f). lineage_ok fr s (lineage_of f) (rules_of fr) (first_enabled fr) e) \<and>
     fp_depth f = max_default (map av_depth (dict_values (lineage_of f))) \<and>
     fp_depth f \<le> fr_max_depth fr"

lemma check_frontier_state_Inr:
  "check_frontier_state dg s fr = Inr f \<longleftrightarrow> gs_frontier s = Some f \<and> frontier_ok dg fr s f"
proof -
  have d: "length xs = card (set xs) \<longleftrightarrow> distinct xs" for xs :: "ident list"
    by (metis card_distinct distinct_card)
  show ?thesis
    unfolding check_frontier_state_def Let_def frontier_ok_def first_enabled_def carried_of_def
    by (auto simp: d length_index_by split: option.splits)
qed

lemma max_default_le: "xs \<noteq> [] \<Longrightarrow> max_default xs \<le> n \<longleftrightarrow> (\<forall>x \<in> set xs. x \<le> n)"
proof -
  have "fold max ys y \<le> n \<longleftrightarrow> y \<le> n \<and> (\<forall>x \<in> set ys. x \<le> n)" for y and ys :: "int list"
    by (induction ys arbitrary: y) auto
  then show "xs \<noteq> [] \<Longrightarrow> ?thesis" by (cases xs) (auto simp: max_default_def)
qed

lemma values_index_by:
  assumes "distinct (map key xs)"
  shows "set (dict_values (index_by key xs)) = set xs"
proof -
  have "v \<in> set xs" if "(k, v) \<in> set (index_by key xs)" for k v
    using index_by_Some dict_get_in [OF distinct_index_by that] by metis
  moreover have "(key x, x) \<in> set (index_by key xs)" if "x \<in> set xs" for x
    using index_by_member [OF assms that] by (rule dict_get_SomeD)
  ultimately show ?thesis unfolding dict_values_def by force
qed

lemma frontier_depth:
  assumes "frontier_ok dg fr s f" "e \<in> set (fp_lineage f)"
  shows "av_depth e \<le> fr_max_depth fr"
proof -
  have v: "set (dict_values (lineage_of f)) = set (fp_lineage f)"
    using assms(1) by (intro values_index_by) (simp add: frontier_ok_def)
  then have "map av_depth (dict_values (lineage_of f)) \<noteq> []" using assms(2) by force
  moreover have "max_default (map av_depth (dict_values (lineage_of f))) \<le> fr_max_depth fr"
    using assms(1) by (simp add: frontier_ok_def)
  ultimately show ?thesis using v assms(2) by (simp add: max_default_le)
qed

text \<open>The event that activated an action, and its place in the lineage.\<close>

lemma lineage_event:
  assumes "frontier_ok dg fr s f" and "dict_get (lineage_of f) a = Some e"
  shows "e \<in> set (fp_lineage f)" "av_action_id e = a"
    "lineage_ok fr s (lineage_of f) (rules_of fr) (first_enabled fr) e"
  using assms index_by_Some [OF assms(2)] by (simp_all add: frontier_ok_def)

lemma lineage_parent:
  assumes "frontier_ok dg fr s f" and "dict_get (lineage_of f) a = Some e"
  shows "(case dict_get (lineage_of f) (av_producer_id e) of
      None \<Rightarrow> av_producer_id e \<in> first_enabled fr \<and> av_depth e = 1
    | Some p \<Rightarrow> av_depth e = av_depth p + 1 \<and> av_time p < av_time e)"
    "av_time e \<le> gs_elapsed s"
    "\<exists>rule. dict_get (rules_of fr) (av_rule_id e) = Some rule \<and> a \<in> set (ru_activated rule) \<and>
       av_producer_id e = ru_producer_id rule \<and> av_successor_id e = ru_successor_id rule"
  using lineage_event [OF assms]
  by (auto simp: lineage_ok_def Let_def split: option.splits)

section \<open>The walk along the lineage ends\<close>

lemma first_of_Inl [simp]: "first_of P xs = Inl e \<Longrightarrow> e = StopIteration"
  by (auto simp: first_of_def split: option.splits)

lemma all_in_Inl: "all_in f xs = Inl e \<Longrightarrow> \<exists>x \<in> set xs. f x = Inl e"
  by (induction xs) (auto simp: res_bind_Inl split: if_splits)

lemma each_Inl: "each f xs = Inl e \<Longrightarrow> \<exists>x \<in> set xs. f x = Inl e"
  by (induction xs) (auto simp: res_bind_Inl)

lemma time_scale_returns: "time_scale c objects \<noteq> Inl Diverges"
  by (auto simp: time_scale_def res_bind_Inl units_at_def split: document.splits)

lemma check_lifecycle_returns: "check_lifecycle c objects l start finish \<noteq> Inl Diverges"
  using time_scale_returns by (auto simp: check_lifecycle_def res_bind_Inl)

lemma binding_live_returns: "binding_live c objects fr s a finish \<noteq> Inl Diverges"
  using check_lifecycle_returns
  by (auto simp: binding_live_def Let_def res_bind_Inl action_at_def
      dest!: first_of_Inl each_Inl split: document.splits option.splits if_splits)

lemma conditions_returns: "conditions rule s finish \<noteq> Inl Diverges"
  by (auto simp: conditions_def all_with_def res_bind_Inl dest!: all_in_Inl split: if_splits)

lemma check_link_returns: "check_link c objects fr s rules finish p \<noteq> Inl Diverges"
  using binding_live_returns conditions_returns
  by (auto simp: check_link_def res_require_def res_bind_Inl dest!: each_Inl split: if_splits)

text \<open>Induction along the parents of an activated action: depths decrease in a finite lineage.\<close>

lemma lineage_induct [consumes 2, case_names event]:
  assumes "frontier_ok dg fr s f" and "dict_get (lineage_of f) a = Some e"
    and step: "\<And>a e. dict_get (lineage_of f) a = Some e \<Longrightarrow>
      (\<And>p. dict_get (lineage_of f) (av_producer_id e) = Some p \<Longrightarrow> P (av_producer_id e) p) \<Longrightarrow> P a e"
  shows "P a e"
  using assms(2)
proof (induction "card {q \<in> set (fp_lineage f). av_depth q < av_depth e}" arbitrary: a e rule: less_induct)
  case less
  show ?case
  proof (rule step [OF less.prems])
    fix p
    assume p: "dict_get (lineage_of f) (av_producer_id e) = Some p"
    have "p \<in> set (fp_lineage f)" "av_depth p < av_depth e"
      using lineage_event(1) [OF assms(1) p] lineage_parent(1) [OF assms(1) less.prems] p by auto
    then have "{x \<in> set (fp_lineage f). av_depth x < av_depth p} \<subset> {x \<in> set (fp_lineage f). av_depth x < av_depth e}"
      by auto
    then show "P (av_producer_id e) p" using p by (intro less.hyps psubset_card_mono) auto
  qed
qed

lemma use_loop_None [simp]: "use_loop c objects fr s lineage rules finish None = Some (Inr ())"
  by (subst use_loop.simps) simp

lemma use_loop_returns:
  assumes "frontier_ok dg fr s f" and "dict_get (lineage_of f) a = Some p"
  shows "\<exists>r. use_loop c objects fr s (lineage_of f) rules finish (Some p) = Some r \<and> r \<noteq> Inl Diverges"
  using assms
proof (induction rule: lineage_induct)
  case (event a p)
  have "\<exists>r. use_loop c objects fr s (lineage_of f) rules finish (dict_get (lineage_of f) (av_producer_id p)) = Some r \<and>
      r \<noteq> Inl Diverges"
    using event(2) by (cases "dict_get (lineage_of f) (av_producer_id p)") auto
  then show ?case using check_link_returns by (subst use_loop.simps) (auto split: sum.splits)
qed

lemma check_frontier_state_returns: "check_frontier_state dg s fr \<noteq> Inl Diverges"
proof -
  have "each (\<lambda>event. require (P event) (GrowthError e) (Inr ())) xs \<noteq> Inl Diverges" for P e and xs :: "activation list"
    by (auto dest!: each_Inl split: if_splits)
  then show ?thesis
    by (auto simp: check_frontier_state_def Let_def res_bind_Inl split: option.splits)
qed

lemma check_use_no_divergence:
  "check_use dg c objects fr s a finish \<noteq> Inl Diverges"
proof
  assume div: "check_use dg c objects fr s a finish = Inl Diverges"
  then obtain f where f: "check_frontier_state dg s fr = Inr f"
    and loop: "(case use_loop c objects fr s (lineage_of f) (rules_of fr) finish (dict_get (lineage_of f) a) of
        None \<Rightarrow> Inl Diverges | Some r \<Rightarrow> r) = Inl Diverges"
    using check_frontier_state_returns binding_live_returns
    by (auto simp: check_use_def Let_def res_bind_Inl split: if_splits)
  have ok: "frontier_ok dg fr s f" using f by (simp add: check_frontier_state_Inr)
  show False
  proof (cases "dict_get (lineage_of f) a")
    case (Some p)
    obtain r where "use_loop c objects fr s (lineage_of f) (rules_of fr) finish (Some p) = Some r" "r \<noteq> Inl Diverges"
      using use_loop_returns [OF ok Some] by blast
    then show False using loop Some by simp
  qed (use loop in simp)
qed

section \<open>Activation keeps the frontier\<close>

text \<open>The events one transition appends to the lineage.\<close>

definition news_ok ::
  "frontier \<Rightarrow> frontier_part \<Rightarrow> gstate \<Rightarrow> ident \<Rightarrow> successor \<Rightarrow> int \<Rightarrow> activation list \<Rightarrow> bool" where
  "news_ok fr f after producer effect depth news \<longleftrightarrow>
     distinct (map av_action_id news) \<and>
     av_action_id ` set news \<inter> set (fp_enabled f) = {} \<and>
     (\<forall>e \<in> set news. (\<exists>rule \<in> set (fr_rules fr). ru_id rule = av_rule_id e \<and> av_action_id e \<in> set (ru_activated rule) \<and>
          ru_producer_id rule = producer \<and> ru_successor_id rule = su_id effect) \<and>
        av_producer_id e = producer \<and> av_successor_id e = su_id effect \<and> av_depth e = depth \<and>
        depth \<le> fr_max_depth fr \<and> av_time e = gs_elapsed after)"

definition grows ::
  "frontier \<Rightarrow> frontier_part \<Rightarrow> gstate \<Rightarrow> ident \<Rightarrow> successor \<Rightarrow> int \<Rightarrow> ident list \<times> activation list \<Rightarrow> bool" where
  "grows fr f after producer effect depth acc \<longleftrightarrow>
     (\<exists>news. snd acc = fp_lineage f @ news \<and> news_ok fr f after producer effect depth news \<and>
        fst acc = fp_enabled f @ map av_action_id news)"

lemma activate_target_Inr:
  assumes "activate_target dg c objects fr before after producer effect depth rule target (enabled, lineage) = Inr acc'"
  shows "\<exists>parent. acc' = (enabled @ [target],
      lineage @ [\<lparr>av_action_id = target, av_rule_id = ru_id rule, av_producer_id = producer,
                  av_successor_id = su_id effect, av_depth = depth, av_time = gs_elapsed after, av_parent = parent\<rparr>]) \<and>
      depth \<le> fr_max_depth fr"
  using assms by (auto simp: activate_target_def)

lemma activate_targets_grow:
  assumes rule: "rule \<in> set (fr_rules fr)" "ru_producer_id rule = producer" "ru_successor_id rule = su_id effect"
  shows "fold_res (activate_target dg c objects fr before after producer effect depth rule) targets acc = Inr acc' \<Longrightarrow>
    grows fr f after producer effect depth acc \<Longrightarrow> distinct targets \<Longrightarrow> set targets \<subseteq> set (ru_activated rule) \<Longrightarrow>
    set targets \<inter> set (fst acc) = {} \<Longrightarrow> grows fr f after producer effect depth acc'"
proof (induction targets arbitrary: acc)
  case (Cons target targets)
  obtain enabled lineage where acc: "acc = (enabled, lineage)" by (cases acc)
  obtain m where m: "activate_target dg c objects fr before after producer effect depth rule target (enabled, lineage) = Inr m"
    "fold_res (activate_target dg c objects fr before after producer effect depth rule) targets m = Inr acc'"
    using Cons.prems(1) acc by auto
  obtain parent where parent: "m = (enabled @ [target],
      lineage @ [\<lparr>av_action_id = target, av_rule_id = ru_id rule, av_producer_id = producer,
                  av_successor_id = su_id effect, av_depth = depth, av_time = gs_elapsed after, av_parent = parent\<rparr>])"
    "depth \<le> fr_max_depth fr"
    using activate_target_Inr [OF m(1)] by blast
  obtain news where news: "lineage = fp_lineage f @ news" "news_ok fr f after producer effect depth news"
    "enabled = fp_enabled f @ map av_action_id news"
    using Cons.prems(2) by (auto simp: grows_def acc)
  have "grows fr f after producer effect depth m"
    unfolding grows_def
  proof (intro exI conjI)
    show "snd m = fp_lineage f @ (news @ [\<lparr>av_action_id = target, av_rule_id = ru_id rule, av_producer_id = producer,
        av_successor_id = su_id effect, av_depth = depth, av_time = gs_elapsed after, av_parent = parent\<rparr>])"
      by (simp add: parent(1) news(1))
    show "fst m = fp_enabled f @ map av_action_id (news @ [\<lparr>av_action_id = target, av_rule_id = ru_id rule,
        av_producer_id = producer, av_successor_id = su_id effect, av_depth = depth, av_time = gs_elapsed after,
        av_parent = parent\<rparr>])"
      by (simp add: parent(1) news(3))
    show "news_ok fr f after producer effect depth (news @ [\<lparr>av_action_id = target, av_rule_id = ru_id rule,
        av_producer_id = producer, av_successor_id = su_id effect, av_depth = depth, av_time = gs_elapsed after,
        av_parent = parent\<rparr>])"
      using news(2) parent(2) rule Cons.prems(4,5) by (auto simp: news_ok_def acc news(3))
  qed
  from Cons.IH [OF m(2) this] Cons.prems(3,4,5) show ?case by (auto simp: acc parent(1))
qed simp

lemma activate_rule_grows:
  assumes "rule \<in> set (fr_rules fr)"
    and "activate_rule dg c objects fr before after producer effect depth rule acc = Inr acc'"
    and "grows fr f after producer effect depth acc"
  shows "grows fr f after producer effect depth acc'"
proof (cases "ru_producer_id rule \<noteq> producer \<or> ru_successor_id rule \<noteq> su_id effect")
  case True
  then show ?thesis using assms(2,3) by (simp add: activate_rule_def)
next
  case False
  let ?targets = "sorted_set (filter (\<lambda>t. t \<notin> set (fst acc)) (ru_activated rule))"
  obtain ok where ok: "conditions rule after (gs_elapsed after) = Inr ok"
    "(if \<not> ok then Inr acc else fold_res (activate_target dg c objects fr before after producer effect depth rule)
       ?targets acc) = Inr acc'"
    using assms(2) False by (auto simp: activate_rule_def)
  show ?thesis
  proof (cases ok)
    case True
    then have run: "fold_res (activate_target dg c objects fr before after producer effect depth rule) ?targets acc = Inr acc'"
      using ok(2) by simp
    show ?thesis using False by (intro activate_targets_grow [OF assms(1) _ _ run assms(3)]) auto
  qed (use ok assms(3) in simp)
qed

lemma activate_rules_grow:
  "fold_res (activate_rule dg c objects fr before after producer effect depth) rules acc = Inr acc' \<Longrightarrow>
   set rules \<subseteq> set (fr_rules fr) \<Longrightarrow> grows fr f after producer effect depth acc \<Longrightarrow>
   grows fr f after producer effect depth acc'"
proof (induction rules arbitrary: acc)
  case (Cons rule rules)
  then obtain m where m: "activate_rule dg c objects fr before after producer effect depth rule acc = Inr m"
    "fold_res (activate_rule dg c objects fr before after producer effect depth) rules m = Inr acc'"
    by auto
  have "grows fr f after producer effect depth m"
    using activate_rule_grows [OF _ m(1) Cons.prems(3)] Cons.prems(2) by simp
  then show ?case using Cons.IH [OF m(2)] Cons.prems(2) by simp
qed simp

lemma find_event:
  assumes "distinct (map av_action_id xs)"
  shows "List.find (\<lambda>x. av_action_id x = a) xs = dict_get (index_by av_action_id xs) a"
proof (cases "dict_get (index_by av_action_id xs) a")
  case None
  then have "a \<notin> av_action_id ` set xs" using dict_get_None [of "index_by av_action_id xs" a] by simp
  then show ?thesis using None by (auto simp: find_None_iff)
next
  case (Some e)
  then have e: "e \<in> set xs" "av_action_id e = a" using index_by_Some by metis+
  then have "List.find (\<lambda>x. av_action_id x = a) xs \<noteq> None" by (auto simp: find_None_iff)
  then obtain y where y: "List.find (\<lambda>x. av_action_id x = a) xs = Some y" by auto
  then have "y \<in> set xs" "av_action_id y = a" by (auto simp: find_Some_iff)
  then have "y = e" using e assms by (metis distinct_map inj_on_def)
  then show ?thesis using y Some by simp
qed

text \<open>What a successful activation did.\<close>

lemma activate_Inr:
  assumes "activate dg c objects fr before after r effect = Inr t"
  obtains f a news depth where "check_frontier_state dg before fr = Inr f"
    "action_at objects (re_action_digest r) = Inr a" "ac_id a \<in> set (fp_enabled f)"
    "depth = (case dict_get (lineage_of f) (ac_id a) of Some p \<Rightarrow> av_depth p + 1 | None \<Rightarrow> 1)"
    "news_ok fr f after (ac_id a) effect depth news"
    "t = after\<lparr>gs_frontier := Some \<lparr>fp_digest = fp_digest f,
       fp_enabled = sort (fp_enabled f @ map av_action_id news),
       fp_depth = max_default (map av_depth (fp_lineage f @ news)),
       fp_lineage = sort_key av_action_id (fp_lineage f @ news)\<rparr>\<rparr>"
proof -
  obtain f a acc where run: "check_frontier_state dg before fr = Inr f" "action_at objects (re_action_digest r) = Inr a"
    "check_use dg c objects fr before (ac_id a) (gs_elapsed after) = Inr ()"
    "fold_res (activate_rule dg c objects fr before after (ac_id a) effect
        (case List.find (\<lambda>x. av_action_id x = ac_id a) (fp_lineage f) of Some p \<Rightarrow> av_depth p + 1 | None \<Rightarrow> 1))
       (sort_key ru_id (fr_rules fr)) (fp_enabled f, fp_lineage f) = Inr acc"
    "with_frontier after \<lparr>fp_digest = fp_digest f, fp_enabled = sort (fst acc),
       fp_depth = max_default (map av_depth (snd acc)), fp_lineage = sort_key av_action_id (snd acc)\<rparr> = Inr t"
    using assms by (auto simp: activate_def Let_def simp del: action_at_Inr)
  have enabled: "ac_id a \<in> set (fp_enabled f)" using run(1,3) by (auto simp: check_use_def)
  have depth: "List.find (\<lambda>x. av_action_id x = ac_id a) (fp_lineage f) = dict_get (lineage_of f) (ac_id a)"
    using run(1) by (intro find_event) (simp add: check_frontier_state_Inr frontier_ok_def)
  have "grows fr f after (ac_id a) effect (case dict_get (lineage_of f) (ac_id a) of Some p \<Rightarrow> av_depth p + 1 | None \<Rightarrow> 1) acc"
    by (rule activate_rules_grow [OF run(4) [unfolded depth]]) (auto simp: grows_def news_ok_def)
  then obtain news where "snd acc = fp_lineage f @ news" "fst acc = fp_enabled f @ map av_action_id news"
    "news_ok fr f after (ac_id a) effect (case dict_get (lineage_of f) (ac_id a) of Some p \<Rightarrow> av_depth p + 1 | None \<Rightarrow> 1) news"
    unfolding grows_def by blast
  then show ?thesis using that [OF run(1,2) enabled refl _] with_frontier_Inr [OF run(5)] by simp
qed

lemma max_default_set: "set xs = set ys \<Longrightarrow> max_default xs = max_default ys"
proof (cases "xs = []")
  case False
  assume s: "set xs = set ys"
  then have "ys \<noteq> []" using False by auto
  then show ?thesis using max_default_le [OF False] max_default_le [of ys] s
    by (metis order_antisym order_refl)
qed simp

text \<open>The next frontier of an activation: the lineage with its news.\<close>

definition next_frontier :: "frontier_part \<Rightarrow> activation list \<Rightarrow> frontier_part" where
  "next_frontier f news = \<lparr>fp_digest = fp_digest f,
     fp_enabled = sort (fp_enabled f @ map av_action_id news),
     fp_depth = max_default (map av_depth (fp_lineage f @ news)),
     fp_lineage = sort_key av_action_id (fp_lineage f @ news)\<rparr>"

lemma news_apart:
  assumes "frontier_ok dg fr s f" "news_ok fr f t producer effect depth news"
  shows "distinct (map av_action_id (fp_lineage f @ news))"
    and "distinct (map av_action_id (sort_key av_action_id (fp_lineage f @ news)))"
proof -
  show d: "distinct (map av_action_id (fp_lineage f @ news))"
    using assms unfolding frontier_ok_def news_ok_def by auto
  have "mset (map av_action_id (sort_key av_action_id (fp_lineage f @ news))) = mset (map av_action_id (fp_lineage f @ news))"
    by simp
  then show "distinct (map av_action_id (sort_key av_action_id (fp_lineage f @ news)))"
    using d mset_eq_imp_distinct_iff by blast
qed

lemma lookup_news:
  assumes ok: "frontier_ok dg fr s f" "news_ok fr f t producer effect depth news"
    and k: "k \<in> set (fp_enabled f)"
  shows "dict_get (lineage_of (next_frontier f news)) k = dict_get (lineage_of f) k"
proof -
  have d: "distinct (map av_action_id (fp_lineage f))" using ok(1) by (simp add: frontier_ok_def)
  have n: "k \<notin> av_action_id ` set news" using ok(2) k by (auto simp: news_ok_def)
  have "dict_get (lineage_of (next_frontier f news)) k = Some e \<longleftrightarrow> dict_get (lineage_of f) k = Some e" for e
    using n index_by_iff [OF d] index_by_iff [OF news_apart(2) [OF ok]] by (auto simp: next_frontier_def)
  then show ?thesis by (metis not_None_eq)
qed

lemma old_event_ok:
  assumes ok: "frontier_ok dg fr s f" "news_ok fr f t producer effect depth news"
    and e: "e \<in> set (fp_lineage f)" and time: "gs_elapsed s \<le> gs_elapsed t"
  shows "lineage_ok fr t (lineage_of (next_frontier f news)) (rules_of fr) (first_enabled fr) e"
proof -
  have old: "lineage_ok fr s (lineage_of f) (rules_of fr) (first_enabled fr) e"
    using ok(1) e by (simp add: frontier_ok_def)
  then have "av_producer_id e \<in> first_enabled fr \<or> dict_get (lineage_of f) (av_producer_id e) \<noteq> None"
    by (auto simp: lineage_ok_def Let_def split: option.splits)
  then have "av_producer_id e \<in> set (fp_enabled f)"
    using ok(1) unfolding index_by_None frontier_ok_def by auto
  from lookup_news [OF ok this] show ?thesis
    using old time unfolding lineage_ok_def by (auto simp: Let_def split: option.splits)
qed

lemma new_event_ok:
  assumes ok: "frontier_ok dg fr s f" "news_ok fr f t producer effect depth news"
    and e: "e \<in> set news" and time: "gs_elapsed s < gs_elapsed t" and rules: "distinct (map ru_id (fr_rules fr))"
    and producer: "producer \<in> set (fp_enabled f)"
    and depth: "depth = (case dict_get (lineage_of f) producer of Some p \<Rightarrow> av_depth p + 1 | None \<Rightarrow> 1)"
  shows "lineage_ok fr t (lineage_of (next_frontier f news)) (rules_of fr) (first_enabled fr) e"
proof -
  obtain rule where rule: "rule \<in> set (fr_rules fr)" "ru_id rule = av_rule_id e" "av_action_id e \<in> set (ru_activated rule)"
    "ru_producer_id rule = producer" "ru_successor_id rule = su_id effect"
    and ev: "av_producer_id e = producer" "av_successor_id e = su_id effect" "av_depth e = depth" "av_time e = gs_elapsed t"
    using ok(2) e unfolding news_ok_def by blast
  have look: "dict_get (rules_of fr) (av_rule_id e) = Some rule" using index_by_member [OF rules rule(1)] rule(2) by simp
  have "producer \<in> first_enabled fr \<or> dict_get (lineage_of f) producer \<noteq> None"
    using producer ok(1) unfolding index_by_None frontier_ok_def by auto
  moreover have "av_time p < gs_elapsed t" if "dict_get (lineage_of f) producer = Some p" for p
    using lineage_parent(2) [OF ok(1) that] time by simp
  ultimately show ?thesis
    unfolding lineage_ok_def look ev lookup_news [OF ok producer]
    using rule depth by (auto split: option.splits)
qed

lemma next_frontier_depth:
  assumes ok: "frontier_ok dg fr s f" "news_ok fr f t producer effect depth news"
  shows "max_default (map av_depth (fp_lineage f @ news)) \<le> fr_max_depth fr"
proof (cases "fp_lineage f @ news = []")
  case True
  have "fp_depth f = max_default (map av_depth (dict_values (lineage_of f)))" "fp_depth f \<le> fr_max_depth fr"
    using ok(1) by (simp_all add: frontier_ok_def)
  then show ?thesis using True by (simp add: index_by_def dict_values_def)
next
  case False
  then have "map av_depth (fp_lineage f @ news) \<noteq> []" by simp
  moreover have "av_depth e \<le> fr_max_depth fr" if "e \<in> set (fp_lineage f @ news)" for e
    using that frontier_depth [OF ok(1)] ok(2) by (auto simp: news_ok_def)
  ultimately show ?thesis by (auto simp: max_default_le simp del: map_append)
qed

lemma next_frontier_ok:
  assumes ok: "frontier_ok dg fr s f" "news_ok fr f t producer effect depth news"
    and time: "gs_elapsed s < gs_elapsed t" and rules: "distinct (map ru_id (fr_rules fr))"
    and producer: "producer \<in> set (fp_enabled f)"
    and depth: "depth = (case dict_get (lineage_of f) producer of Some p \<Rightarrow> av_depth p + 1 | None \<Rightarrow> 1)"
  shows "frontier_ok dg fr t (next_frontier f news)"
proof -
  let ?f = "next_frontier f news"
  have ids: "set (fp_lineage ?f) = set (fp_lineage f) \<union> set news" "set (fp_enabled ?f) = set (fp_enabled f) \<union> av_action_id ` set news"
    by (auto simp: next_frontier_def)
  have apart: "first_enabled fr \<inter> av_action_id ` set (fp_lineage f) = {}" "av_action_id ` set news \<inter> set (fp_enabled f) = {}"
    "set (fp_enabled f) = first_enabled fr \<union> av_action_id ` set (fp_lineage f)"
    using ok by (simp_all add: frontier_ok_def news_ok_def)
  then have first: "first_enabled fr \<subseteq> set (fp_enabled f)" by simp
  have carried: "dict_get (lineage_of ?f) k = Some v" if "(k, v) \<in> set (carried_of fr)" for k v
  proof -
    have k: "dict_get (lineage_of f) k = Some v" using ok(1) that by (auto simp: frontier_ok_def)
    then have "k \<in> set (fp_enabled f)" using lineage_event(1,2) [OF ok(1) k] ok(1) by (auto simp: frontier_ok_def)
    from lookup_news [OF ok this] k show ?thesis by simp
  qed
  have depths: "fp_depth ?f = max_default (map av_depth (dict_values (lineage_of ?f)))"
    unfolding next_frontier_def frontier_part.simps
    by (rule max_default_set) (use values_index_by [OF news_apart(2) [OF ok]] in \<open>simp add: image_Un\<close>)
  have "lineage_ok fr t (lineage_of ?f) (rules_of fr) (first_enabled fr) e" if "e \<in> set (fp_lineage ?f)" for e
  proof (cases "e \<in> set (fp_lineage f)")
    case True
    then show ?thesis by (rule old_event_ok [OF ok _ less_imp_le [OF time]])
  next
    case False
    then have "e \<in> set news" using that ids(1) by blast
    then show ?thesis by (rule new_event_ok [OF ok _ time rules producer depth])
  qed
  moreover have "first_enabled fr \<inter> av_action_id ` set (fp_lineage ?f) = {}"
    using apart first unfolding ids image_Un by blast
  moreover have "set (fp_enabled ?f) = first_enabled fr \<union> av_action_id ` set (fp_lineage ?f)"
    unfolding ids image_Un apart(3) Un_assoc by (rule refl)
  moreover have "distinct (fp_enabled ?f)"
    using ok unfolding frontier_ok_def news_ok_def next_frontier_def by auto
  moreover have "fp_depth ?f \<le> fr_max_depth fr" using next_frontier_depth [OF ok] by (simp add: next_frontier_def)
  moreover have "fp_digest ?f = dg_frontier dg fr" using ok(1) by (simp add: frontier_ok_def next_frontier_def)
  moreover have "distinct (map av_action_id (fp_lineage ?f))" using news_apart(2) [OF ok] by (simp add: next_frontier_def)
  ultimately show ?thesis using carried depths unfolding frontier_ok_def by blast
qed

end
