(* ===== verification/Frontier_Properties.thy ===== *)
theory Frontier_Properties
  imports Growth_Activation Growth_Demo
begin

text \<open>
  Properties of the capability frontier: the use check always returns, every enabled action has a
  derivation from the initially enabled ones, and transitions keep both.
\<close>

section \<open>Derivations\<close>

text \<open>
  \<open>derives fr es a\<close>: the events \<open>es\<close>, latest first, lead from an initially enabled action to \<open>a\<close>, each
  licensed by a rule of the frontier, at strictly increasing times.
\<close>

fun derives :: "frontier \<Rightarrow> activation list \<Rightarrow> ident \<Rightarrow> bool" where
  "derives fr [] a \<longleftrightarrow> a \<in> first_enabled fr"
| "derives fr (e # es) a \<longleftrightarrow> av_action_id e = a \<and>
     (\<exists>rule \<in> set (fr_rules fr). ru_id rule = av_rule_id e \<and> a \<in> set (ru_activated rule) \<and>
        ru_producer_id rule = av_producer_id e \<and> ru_successor_id rule = av_successor_id e) \<and>
     (case es of [] \<Rightarrow> True | p # _ \<Rightarrow> av_time p < av_time e) \<and>
     derives fr es (av_producer_id e)"

lemma event_derivation:
  assumes "frontier_ok dg fr s f" "dict_get (lineage_of f) a = Some e"
  shows "\<exists>es. derives fr (e # es) a \<and> set (e # es) \<subseteq> set (fp_lineage f) \<and> int (length (e # es)) = av_depth e"
  using assms
proof (induction rule: lineage_induct)
  case (event a e)
  note e = lineage_event [OF assms(1) event(1)] and parent = lineage_parent [OF assms(1) event(1)]
  obtain rule where rule: "dict_get (rules_of fr) (av_rule_id e) = Some rule" "a \<in> set (ru_activated rule)"
    "av_producer_id e = ru_producer_id rule" "av_successor_id e = ru_successor_id rule"
    using parent(3) by blast
  then have licensed: "\<exists>rule \<in> set (fr_rules fr). ru_id rule = av_rule_id e \<and> a \<in> set (ru_activated rule) \<and>
      ru_producer_id rule = av_producer_id e \<and> ru_successor_id rule = av_successor_id e"
    using index_by_Some [OF rule(1)] by metis
  show ?case
  proof (cases "dict_get (lineage_of f) (av_producer_id e)")
    case None
    then show ?thesis using e licensed parent(1) by (intro exI [of _ "[]"]) simp
  next
    case (Some p)
    obtain es where "derives fr (p # es) (av_producer_id e)" "set (p # es) \<subseteq> set (fp_lineage f)"
      "int (length (p # es)) = av_depth p"
      using event(2) [OF Some] by blast
    then show ?thesis using e licensed parent(1) Some by (intro exI [of _ "p # es"]) auto
  qed
qed

section \<open>Claims\<close>

text \<open>
  C22: In a state that passes the frontier check every enabled action is either enabled from the start or
  has a derivation: a chain of recorded activations that starts at an initially enabled action, each
  licensed by a declared rule, at strictly increasing times and no longer than the declared maximum depth.
\<close>

theorem enabled_actions_derived:
  assumes "check_frontier_state dg s fr = Inr f" and "a \<in> set (fp_enabled f)"
  shows "a \<in> first_enabled fr \<or> (\<exists>es. es \<noteq> [] \<and> derives fr es a \<and> set es \<subseteq> set (fp_lineage f) \<and>
    int (length es) \<le> fr_max_depth fr \<and> (\<exists>e \<in> set es. av_action_id e = a \<and> av_time e \<le> gs_elapsed s))"
proof (rule disjCI)
  assume latent: "\<not> (\<exists>es. es \<noteq> [] \<and> derives fr es a \<and> set es \<subseteq> set (fp_lineage f) \<and>
    int (length es) \<le> fr_max_depth fr \<and> (\<exists>e \<in> set es. av_action_id e = a \<and> av_time e \<le> gs_elapsed s))"
  have ok: "frontier_ok dg fr s f" using assms(1) by (simp add: check_frontier_state_Inr)
  show "a \<in> first_enabled fr"
  proof (rule ccontr)
    assume "a \<notin> first_enabled fr"
    then obtain e where e: "dict_get (lineage_of f) a = Some e"
      using assms(2) ok index_by_None [of av_action_id "fp_lineage f" a] by (auto simp: frontier_ok_def)
    obtain es where es: "derives fr (e # es) a" "set (e # es) \<subseteq> set (fp_lineage f)" "int (length (e # es)) = av_depth e"
      using event_derivation [OF ok e] by blast
    have "int (length (e # es)) \<le> fr_max_depth fr" using es(3) frontier_depth [OF ok lineage_event(1) [OF ok e]] by simp
    then show False using latent es lineage_parent(2) [OF ok e] lineage_event(2) [OF ok e]
      by (metis list.discI list.set_intros(1))
  qed
qed

text \<open>The state after the demo transition passes the check, with the second action enabled.\<close>

definition demo_after :: gstate where
  "demo_after = (case transition demo_digests demo_contract demo_seeded demo_recipe (demo_effect ''e1'' success) demo_objects
      (Some demo_frontier) of Inr t \<Rightarrow> t | Inl e \<Rightarrow> demo_seeded)"

lemma demo_after_step:
  "transition demo_digests demo_contract demo_seeded demo_recipe (demo_effect ''e1'' success) demo_objects
      (Some demo_frontier) = Inr demo_after"
  using demo_activation by (auto simp: demo_after_def split: sum.splits)

lemma demo_frontier_checked:
  "case check_frontier_state demo_digests demo_after demo_frontier of Inl e \<Rightarrow> False
   | Inr f \<Rightarrow> ''act2'' \<in> set (fp_enabled f)"
  using demo_activation unfolding demo_after_step by (auto split: sum.splits)

theorem enabled_actions_derived_witness:
  "''act2'' \<in> first_enabled demo_frontier \<or> (\<exists>es. es \<noteq> [] \<and> derives demo_frontier es ''act2'')"
proof -
  obtain f where "check_frontier_state demo_digests demo_after demo_frontier = Inr f" "''act2'' \<in> set (fp_enabled f)"
    using demo_frontier_checked by (auto split: sum.splits)
  from enabled_actions_derived [OF this] show ?thesis by blast
qed

text \<open>
  C10: A transition with a frontier starts from a checked frontier, uses an enabled action and leaves a
  frontier that passes the check again: nothing enabled is lost, no recorded activation is changed, and a
  new action is enabled only by a rule whose producer is the action taken and whose successor is the one
  that happened.
\<close>

theorem transition_keeps_frontier:
  assumes run: "transition dg c s r effect objects (Some fr) = Inr t"
    and rules: "distinct (map ru_id (fr_rules fr))" and time: "0 < su_duration effect"
  shows "\<exists>f f' a. check_frontier_state dg s fr = Inr f \<and> check_frontier_state dg t fr = Inr f' \<and>
    action_at objects (re_action_digest r) = Inr a \<and> ac_id a \<in> set (fp_enabled f) \<and>
    set (fp_enabled f) \<subseteq> set (fp_enabled f') \<and> set (fp_lineage f) \<subseteq> set (fp_lineage f') \<and>
    (\<forall>b \<in> set (fp_enabled f') - set (fp_enabled f). \<exists>rule \<in> set (fr_rules fr). b \<in> set (ru_activated rule) \<and>
       ru_producer_id rule = ac_id a \<and> ru_successor_id rule = su_id effect)"
proof -
  from run obtain a0 cap u where u: "transition_ledger c s r effect objects a0 cap = Inr u"
    "activate dg c objects fr s u r effect = Inr t" by (rule transition_Inr) auto
  from u(1) have elapsed: "gs_elapsed u = gs_elapsed s + su_duration effect" by (rule transition_ledger_Inr)
  from u(2) obtain f a news depth where a: "check_frontier_state dg s fr = Inr f"
    "action_at objects (re_action_digest r) = Inr a" "ac_id a \<in> set (fp_enabled f)"
    "depth = (case dict_get (lineage_of f) (ac_id a) of Some p \<Rightarrow> av_depth p + 1 | None \<Rightarrow> 1)"
    "news_ok fr f u (ac_id a) effect depth news"
    "t = u\<lparr>gs_frontier := Some \<lparr>fp_digest = fp_digest f,
       fp_enabled = sort (fp_enabled f @ map av_action_id news),
       fp_depth = max_default (map av_depth (fp_lineage f @ news)),
       fp_lineage = sort_key av_action_id (fp_lineage f @ news)\<rparr>\<rparr>"
    by (rule activate_Inr)
  have ok: "frontier_ok dg fr s f" using a(1) by (simp add: check_frontier_state_Inr)
  have "news_ok fr f t (ac_id a) effect depth news" using a(5) by (simp add: a(6) news_ok_def)
  from next_frontier_ok [OF ok this _ rules a(3,4)]
  have "check_frontier_state dg t fr = Inr (next_frontier f news)"
    using elapsed time by (simp add: check_frontier_state_Inr a(6) next_frontier_def)
  moreover have "set (fp_enabled (next_frontier f news)) = set (fp_enabled f) \<union> av_action_id ` set news"
    "set (fp_lineage f) \<subseteq> set (fp_lineage (next_frontier f news))" by (auto simp: next_frontier_def)
  moreover have "\<exists>rule \<in> set (fr_rules fr). b \<in> set (ru_activated rule) \<and> ru_producer_id rule = ac_id a \<and>
      ru_successor_id rule = su_id effect" if "b \<in> av_action_id ` set news" for b
    using a(5) that unfolding news_ok_def by blast
  ultimately show ?thesis using a(1,2,3) by (intro exI conjI) auto
qed

theorem transition_keeps_frontier_witness:
  "\<exists>f'. check_frontier_state demo_digests demo_after demo_frontier = Inr f' \<and> ''act'' \<in> set (fp_enabled f')"
proof -
  have "distinct (map ru_id (fr_rules demo_frontier))" "0 < su_duration (demo_effect ''e1'' success)"
    by (simp_all add: demo_frontier_def demo_effect_def)
  from transition_keeps_frontier [OF demo_after_step this]
  obtain f f' a where "check_frontier_state demo_digests demo_seeded demo_frontier = Inr f"
    "check_frontier_state demo_digests demo_after demo_frontier = Inr f'"
    "action_at demo_objects (re_action_digest demo_recipe) = Inr a" "ac_id a \<in> set (fp_enabled f)"
    "set (fp_enabled f) \<subseteq> set (fp_enabled f')" by blast
  then show ?thesis
    by (auto simp: demo_objects_def demo_recipe_def demo_action_def dict_get_def split: if_splits)
qed

end
