(* ===== verification/Growth_Search.thy ===== *)
theory Growth_Search
  imports Growth_Kernel
begin

text \<open>
  The finite search of the growth planner (\<open>v6/growth.py\<close>): \<open>Budget\<close>, \<open>Search\<close> with its memo tables,
  \<open>scalar\<close>, \<open>enumerate\<close> and what they ask of a state. A search method is a computation over the mutable
  fields of the \<open>Search\<close> object that may raise; what it wrote stays when it raises. Recursion goes one
  decision deeper each time and stops at \<open>max_decisions\<close>: the methods take a fuel that is enough for
  that, and running out of it would be \<open>Diverges\<close>.
\<close>

record report =
  rp_complete :: bool
  rp_states :: nat
  rp_expansions :: nat
  rp_policies :: nat
  rp_depth :: nat
  rp_limits :: search_limits

datatype comparison_status = Supported | Excluded | Undetermined | Inconsistent

record comparison =
  cm_id :: ident
  cm_endpoint :: rat
  cm_status :: comparison_status
  cm_lower :: "rat option"
  cm_upper :: "rat option"
  cm_search :: report
  cm_basis :: digest
  cm_policy :: "digest option"

record candidate =
  ca_node :: policy_node
  ca_terminals :: "gstate list"
  ca_entries :: "rat list"
  ca_count :: nat

record solution =
  so_lower :: rat
  so_upper :: rat
  so_candidate :: candidate

text \<open>The fields a \<open>Search\<close> never assigns.\<close>

record search_env =
  en_digests :: digests
  en_contract :: contract
  en_objects :: objects
  en_excluded :: "ident list"
  en_endpoint :: "rat option"
  en_comparisons :: "comparison list"
  en_frontier :: "frontier option"

text \<open>The fields it assigns, with those of its \<open>Budget\<close>.\<close>

record search =
  sr_complete :: bool
  sr_states :: nat
  sr_expansions :: nat
  sr_policies :: nat
  sr_depth :: nat
  sr_scalar_memo :: "(digest \<times> nat, solution option) dict"
  sr_memo :: "(digest \<times> nat \<times> digest option, candidate list) dict"
  sr_codes :: "string list"

definition fresh_search :: search where
  "fresh_search = \<lparr>sr_complete = True, sr_states = 0, sr_expansions = 0, sr_policies = 0, sr_depth = 0,
     sr_scalar_memo = [], sr_memo = [], sr_codes = []\<rparr>"

definition limits_of :: "search_env \<Rightarrow> search_limits" where
  "limits_of e = gc_search_limits (en_contract e)"

section \<open>Computations of a search\<close>

text \<open>A method of an object whose fields it assigns are \<open>'s\<close>.\<close>

type_synonym ('s, 'a) stateful = "'s \<Rightarrow> (growth_error + 'a) \<times> 's"

type_synonym 'a run = "(search, 'a) stateful"

definition returns :: "'a \<Rightarrow> ('s, 'a) stateful" where
  "returns x = (\<lambda>st. (Inr x, st))"

definition lift :: "growth_error + 'a \<Rightarrow> ('s, 'a) stateful" where
  "lift r = (\<lambda>st. (r, st))"

definition bind_run :: "('s, 'a) stateful \<Rightarrow> ('a \<Rightarrow> ('s, 'b) stateful) \<Rightarrow> ('s, 'b) stateful" where
  "bind_run m f = (\<lambda>st. case m st of (Inl e, st') \<Rightarrow> (Inl e, st') | (Inr x, st') \<Rightarrow> f x st')"

definition get_run :: "('s \<Rightarrow> 'a) \<Rightarrow> ('s, 'a) stateful" where
  "get_run f = (\<lambda>st. (Inr (f st), st))"

definition modify :: "('s \<Rightarrow> 's) \<Rightarrow> ('s, unit) stateful" where
  "modify f = (\<lambda>st. (Inr (), f st))"

text \<open>\<open>try: ... except GrowthError as error\<close>: the code of a caught error is on the left.\<close>

definition catching :: "('s, 'a) stateful \<Rightarrow> ('s, string + 'a) stateful" where
  "catching m = (\<lambda>st. case m st of
       (Inl (GrowthError code), st') \<Rightarrow> (Inr (Inl code), st')
     | (Inl e, st') \<Rightarrow> (Inl e, st')
     | (Inr x, st') \<Rightarrow> (Inr (Inr x), st'))"

datatype counter = States | Expansions | Policies

fun count_of :: "counter \<Rightarrow> search \<Rightarrow> nat" where
  "count_of States st = sr_states st"
| "count_of Expansions st = sr_expansions st"
| "count_of Policies st = sr_policies st"

fun bump :: "counter \<Rightarrow> search \<Rightarrow> search" where
  "bump States st = st\<lparr>sr_states := sr_states st + 1\<rparr>"
| "bump Expansions st = st\<lparr>sr_expansions := sr_expansions st + 1\<rparr>"
| "bump Policies st = st\<lparr>sr_policies := sr_policies st + 1\<rparr>"

fun maximum_of :: "search_limits \<Rightarrow> counter \<Rightarrow> nat" where
  "maximum_of l States = li_max_states l"
| "maximum_of l Expansions = li_max_expansions l"
| "maximum_of l Policies = li_max_policies l"

definition give_up :: "search \<Rightarrow> search" where
  "give_up st = st\<lparr>sr_complete := False\<rparr>"

definition take_run :: "counter \<Rightarrow> nat \<Rightarrow> bool run" where
  "take_run name maximum = (\<lambda>st.
     if count_of name st \<ge> maximum then (Inr False, give_up st) else (Inr True, bump name st))"

definition take_counter :: "search_env \<Rightarrow> counter \<Rightarrow> bool run" where
  "take_counter e name = take_run name (maximum_of (limits_of e) name)"

definition note_code :: "string \<Rightarrow> search \<Rightarrow> search" where
  "note_code code st = st\<lparr>sr_codes := code # sr_codes st\<rparr>"

definition note_depth :: "nat \<Rightarrow> search \<Rightarrow> search" where
  "note_depth depth st = st\<lparr>sr_depth := max depth (sr_depth st)\<rparr>"

definition report_of :: "search_limits \<Rightarrow> search \<Rightarrow> report" where
  "report_of l st = \<lparr>rp_complete = sr_complete st, rp_states = sr_states st, rp_expansions = sr_expansions st,
     rp_policies = sr_policies st, rp_depth = sr_depth st, rp_limits = l\<rparr>"

section \<open>Entries and terminals\<close>

fun any_in :: "('a \<Rightarrow> 'e + bool) \<Rightarrow> 'a list \<Rightarrow> 'e + bool" where
  "any_in f [] = Inr False"
| "any_in f (x # xs) = res_bind (f x) (\<lambda>ok. if ok then Inr True else any_in f xs)"

definition and_then :: "'e + bool \<Rightarrow> 'e + bool \<Rightarrow> 'e + bool" where
  "and_then a b = res_bind a (\<lambda>ok. if ok then b else Inr False)"

definition comparison_beaten :: "search_env \<Rightarrow> gstate \<Rightarrow> comparison \<Rightarrow> growth_error + bool" where
  "comparison_beaten e s x =
     (if rp_complete (cm_search x)
      then case cm_upper x of None \<Rightarrow> Inr False
           | Some u \<Rightarrow> res_bind (attainment iv_lower (en_contract e) s)
                         (\<lambda>a. Inr (a > u + gc_comparison_margin (en_contract e)))
      else Inr False)"

definition entry_allowed :: "search_env \<Rightarrow> gstate \<Rightarrow> growth_error + bool" where
  "entry_allowed e s =
     (let c = en_contract e;
          comparisons = filter (\<lambda>x. cm_endpoint x = gs_elapsed s) (en_comparisons e) in
      and_then (res_bind (attainment iv_lower c s) (\<lambda>a. Inr (a \<ge> 1)))
      (and_then (any_in (block_supported s) (gc_windows c))
      (and_then (Inr ((\<forall>k \<in> set (gc_entry_evidence c). case dict_get (gs_evidence s) k of None \<Rightarrow> False
                         | Some v \<Rightarrow> v \<ge> gs_elapsed s) \<and>
                      gs_pending s = [] \<and>
                      wk_id ` set (gs_queue s @ gs_obligations s) \<inter> set (gc_blocking_ids c) = {} \<and>
                      length comparisons = length (gc_comparators c)))
        (all_in (comparison_beaten e s) comparisons))))"

definition terminal :: "search_env \<Rightarrow> gstate \<Rightarrow> checkpoint option \<Rightarrow> growth_error + bool" where
  "terminal e s entry =
     (case en_endpoint e of Some t \<Rightarrow> Inr (gs_elapsed s = t)
      | None \<Rightarrow>
          case entry of None \<Rightarrow> Inr False
          | Some p \<Rightarrow>
              let c = en_contract e in
              if gs_elapsed s = cp_time p + gc_continuation_horizon c
              then all_in (grown s (cp_capacities p))
                     [(''task'', gc_continuation_task_factor c), (''research'', gc_continuation_research_factor c)]
              else Inr False)"

definition sorted_recipes :: "search_env \<Rightarrow> growth_error + recipe list" where
  "sorted_recipes e =
     res_bind (map_res (\<lambda>r. res_bind (action_at (en_objects e) (re_action_digest r)) (\<lambda>a. Inr (ac_id a, r)))
                (gc_actions (en_contract e)))
       (\<lambda>keyed. Inr (map snd (sort_key fst keyed)))"

definition by_successor :: "(successor \<times> 'a) list \<Rightarrow> (ident, 'a) dict" where
  "by_successor ps = fold (\<lambda>(effect, x) d. dict_set d (su_id effect) x) ps []"

definition leaf :: "digest \<Rightarrow> policy_node" where
  "leaf d = PolicyNode d None False [] []"

text \<open>The node that takes an action and goes on with one child for each successor.\<close>

definition branch_node ::
  "digests \<Rightarrow> digest \<Rightarrow> ident \<Rightarrow> bool \<Rightarrow> successor list \<Rightarrow> candidate list \<Rightarrow> policy_node" where
  "branch_node dg d action entry effects children =
     PolicyNode d (Some action) entry
       (by_successor (zip effects (map ca_node children)))
       (by_successor (map (\<lambda>x. (x, dg_effect dg x)) effects))"

section \<open>One scalar by backward induction\<close>

text \<open>\<open>min\<close> with a key: the first element of least key.\<close>

definition min_by :: "('a \<Rightarrow> 'k::linorder) \<Rightarrow> 'a list \<Rightarrow> 'a option" where
  "min_by key xs = (case xs of [] \<Rightarrow> None
     | y # ys \<Rightarrow> Some (fold (\<lambda>x best. if key x < key best then x else best) ys y))"

datatype 'a verdict = Skip | Stop | Chosen 'a

fun children_of ::
  "(gstate \<Rightarrow> nat \<Rightarrow> solution option run) \<Rightarrow> search_env \<Rightarrow> gstate \<Rightarrow> nat \<Rightarrow> recipe \<Rightarrow> successor list \<Rightarrow>
   solution list \<Rightarrow> solution list run" where
  "children_of recur e s depth r [] found = returns found"
| "children_of recur e s depth r (effect # effects) found =
     bind_run (take_counter e Expansions) (\<lambda>ok.
       if \<not> ok then returns found
       else bind_run (lift (transition (en_digests e) (en_contract e) s r effect (en_objects e) (en_frontier e))) (\<lambda>t.
            bind_run (recur t (depth + 1)) (\<lambda>child.
              case child of None \<Rightarrow> returns found
              | Some ch \<Rightarrow> children_of recur e s depth r effects (found @ [ch]))))"

text \<open>The choice that the children of one recipe make, if none is missing.\<close>

definition scalar_pick ::
  "search_env \<Rightarrow> digest \<Rightarrow> ident \<Rightarrow> successor list \<Rightarrow> solution list \<Rightarrow> solution verdict run" where
  "scalar_pick e d action effects children =
     (if length children \<noteq> length effects then returns Skip
      else let count = 1 + sum_list (map (\<lambda>ch. ca_count (so_candidate ch)) children) in
        if count > li_max_witness_nodes (limits_of e)
        then bind_run (modify (note_code ''growth_witness_limit'' \<circ> give_up)) (\<lambda>_. returns Skip)
        else bind_run (take_counter e Policies) (\<lambda>ok.
          if \<not> ok then returns Stop
          else returns (Chosen \<lparr>so_lower = Min (set (map so_lower children)),
                 so_upper = Min (set (map so_upper children)),
                 so_candidate = \<lparr>
                   ca_node = branch_node (en_digests e) d action False effects (map so_candidate children),
                   ca_terminals = concat (map (\<lambda>ch. ca_terminals (so_candidate ch)) children),
                   ca_entries = [], ca_count = count\<rparr>\<rparr>)))"

text \<open>The body of the \<open>for recipe\<close> loop inside its \<open>try\<close>.\<close>

definition scalar_choice ::
  "(gstate \<Rightarrow> nat \<Rightarrow> solution option run) \<Rightarrow> search_env \<Rightarrow> digest \<Rightarrow> gstate \<Rightarrow> nat \<Rightarrow> recipe \<Rightarrow>
   solution verdict run" where
  "scalar_choice recur e d s depth r =
     bind_run (lift (applicable (en_digests e) (en_contract e) s r (en_objects e) (en_frontier e))) (\<lambda>(a, _).
     let effects = successors s r in
     if effects = [] then lift (Inl (GrowthError ''growth_successor_incomplete''))
     else bind_run (children_of recur e s depth r effects []) (scalar_pick e d (ac_id a) effects))"

fun scalar_choices ::
  "(gstate \<Rightarrow> nat \<Rightarrow> solution option run) \<Rightarrow> search_env \<Rightarrow> digest \<Rightarrow> gstate \<Rightarrow> nat \<Rightarrow> recipe list \<Rightarrow>
   solution list \<Rightarrow> solution list run" where
  "scalar_choices recur e d s depth [] choices = returns choices"
| "scalar_choices recur e d s depth (r # rs) choices =
     (if set (en_excluded e) \<inter> set (re_interactions r) \<noteq> {} then scalar_choices recur e d s depth rs choices
      else bind_run (catching (scalar_choice recur e d s depth r)) (\<lambda>out.
        case out of
          Inl code \<Rightarrow> bind_run (modify (note_code code)) (\<lambda>_. scalar_choices recur e d s depth rs choices)
        | Inr Skip \<Rightarrow> scalar_choices recur e d s depth rs choices
        | Inr Stop \<Rightarrow> returns choices
        | Inr (Chosen c) \<Rightarrow> scalar_choices recur e d s depth rs (choices @ [c])))"

definition best_choice :: "digests \<Rightarrow> solution list \<Rightarrow> solution option" where
  "best_choice dg choices =
     map_option (\<lambda>best. best\<lparr>so_upper := Max (set (map so_upper choices))\<rparr>)
       (min_by (\<lambda>p. let node = ca_node (so_candidate p)
                    in (- so_lower p, case pn_action node of None \<Rightarrow> '''' | Some a \<Rightarrow> a, dg_node dg node)) choices)"

text \<open>A state at the endpoint, and a state in which the search decides.\<close>

definition scalar_end :: "search_env \<Rightarrow> digest \<Rightarrow> gstate \<Rightarrow> solution option run" where
  "scalar_end e d s =
     bind_run (lift (attainment iv_lower (en_contract e) s)) (\<lambda>lower.
     bind_run (lift (attainment iv_upper (en_contract e) s)) (\<lambda>upper.
     returns (Some \<lparr>so_lower = lower, so_upper = upper,
       so_candidate = \<lparr>ca_node = leaf d, ca_terminals = [s], ca_entries = [], ca_count = 1\<rparr>\<rparr>)))"

definition scalar_best ::
  "(gstate \<Rightarrow> nat \<Rightarrow> solution option run) \<Rightarrow> search_env \<Rightarrow> digest \<Rightarrow> gstate \<Rightarrow> nat \<Rightarrow> solution option run" where
  "scalar_best recur e d s depth =
     bind_run (lift (sorted_recipes e)) (\<lambda>recipes.
     bind_run (scalar_choices recur e d s depth recipes []) (\<lambda>choices.
     let best = best_choice (en_digests e) choices in
     bind_run (modify (\<lambda>st. if sr_complete st
         then st\<lparr>sr_scalar_memo := dict_set (sr_scalar_memo st) (d, depth) best\<rparr> else st))
       (\<lambda>_. returns best)))"

definition scalar_body ::
  "(gstate \<Rightarrow> nat \<Rightarrow> solution option run) \<Rightarrow> search_env \<Rightarrow> gstate \<Rightarrow> nat \<Rightarrow> solution option run" where
  "scalar_body recur e s depth =
     bind_run (lift (state_digest (en_digests e) s)) (\<lambda>d.
     bind_run (get_run (\<lambda>st. dict_get (sr_scalar_memo st) (d, depth))) (\<lambda>known.
     case known of Some v \<Rightarrow> returns v
     | None \<Rightarrow>
       bind_run (take_counter e States) (\<lambda>ok.
       if \<not> ok then returns None
       else bind_run (modify (note_depth depth)) (\<lambda>_.
            bind_run (lift (terminal e s None)) (\<lambda>ended.
            if ended then scalar_end e d s
            else case en_endpoint e of None \<Rightarrow> lift (Inl (GrowthError ''growth_scalar_endpoint_required''))
            | Some stop \<Rightarrow>
              if gs_elapsed s \<ge> stop \<or> depth \<ge> gc_max_decisions (en_contract e) then returns None
              else if depth \<ge> li_max_depth (limits_of e) then bind_run (modify give_up) (\<lambda>_. returns None)
              else scalar_best recur e d s depth)))))"

fun scalar_from :: "nat \<Rightarrow> search_env \<Rightarrow> gstate \<Rightarrow> nat \<Rightarrow> solution option run" where
  "scalar_from 0 e s depth = lift (Inl Diverges)"
| "scalar_from (Suc n) e s depth = scalar_body (scalar_from n e) e s depth"

definition scalar :: "search_env \<Rightarrow> gstate \<Rightarrow> solution option run" where
  "scalar e s = scalar_from (Suc (gc_max_decisions (en_contract e))) e s 0"

section \<open>All policies\<close>

text \<open>A loop body either goes on or returns from the method.\<close>

datatype 'a flow = Onward 'a | Return 'a

definition stop_time :: "search_env \<Rightarrow> checkpoint option \<Rightarrow> rat" where
  "stop_time e entry =
     (case en_endpoint e of Some t \<Rightarrow> t
      | None \<Rightarrow> (case entry of Some p \<Rightarrow> cp_time p + gc_continuation_horizon (en_contract e)
                | None \<Rightarrow> gc_deadline (en_contract e)))"

type_synonym enumerator = "gstate \<Rightarrow> nat \<Rightarrow> checkpoint option \<Rightarrow> candidate list run"

fun option_children ::
  "enumerator \<Rightarrow> search_env \<Rightarrow> gstate \<Rightarrow> nat \<Rightarrow> checkpoint option \<Rightarrow> rat \<Rightarrow> recipe \<Rightarrow> successor list \<Rightarrow>
   candidate list list \<Rightarrow> candidate list list flow run" where
  "option_children recur e s depth selected stop r [] found = returns (Onward found)"
| "option_children recur e s depth selected stop r (effect # effects) found =
     bind_run (take_counter e Expansions) (\<lambda>ok.
       if \<not> ok then returns (Return [])
       else bind_run (lift (transition (en_digests e) (en_contract e) s r effect (en_objects e) (en_frontier e))) (\<lambda>t.
            let next_stop = (case selected of
                Some p \<Rightarrow> cp_time p + gc_continuation_horizon (en_contract e) | None \<Rightarrow> stop) in
            bind_run (if gs_elapsed t > next_stop then returns [] else recur t (depth + 1) selected) (\<lambda>options.
              if options = [] then returns (Onward (found @ [[]]))
              else option_children recur e s depth selected stop r effects (found @ [options]))))"

fun add_products ::
  "search_env \<Rightarrow> digest \<Rightarrow> ident \<Rightarrow> bool \<Rightarrow> successor list \<Rightarrow> candidate list list \<Rightarrow> candidate list \<Rightarrow>
   candidate list flow run" where
  "add_products e d action entry effects [] options = returns (Onward options)"
| "add_products e d action entry effects (children # products) options =
     bind_run (take_counter e Policies) (\<lambda>ok.
       if \<not> ok then returns (Return options)
       else let count = 1 + sum_list (map ca_count children) in
         if count > li_max_witness_nodes (limits_of e)
         then bind_run (modify (note_code ''growth_witness_limit'' \<circ> give_up))
                (\<lambda>_. add_products e d action entry effects products options)
         else add_products e d action entry effects products
                (options @ [\<lparr>ca_node = branch_node (en_digests e) d action entry effects children,
                             ca_terminals = concat (map ca_terminals children),
                             ca_entries = concat (map ca_entries children), ca_count = count\<rparr>]))"

definition enumerate_choice ::
  "enumerator \<Rightarrow> search_env \<Rightarrow> digest \<Rightarrow> gstate \<Rightarrow> nat \<Rightarrow> checkpoint option \<Rightarrow> checkpoint option \<Rightarrow> recipe \<Rightarrow>
   candidate list \<Rightarrow> candidate list flow run" where
  "enumerate_choice recur e d s depth entry selected r options =
     bind_run (lift (applicable (en_digests e) (en_contract e) s r (en_objects e) (en_frontier e))) (\<lambda>(a, _).
     let effects = successors s r in
     if effects = [] then lift (Inl (GrowthError ''growth_successor_incomplete''))
     else bind_run (option_children recur e s depth selected (stop_time e entry) r effects []) (\<lambda>out.
       case out of Return _ \<Rightarrow> returns (Return options)
       | Onward children \<Rightarrow>
           add_products e d (ac_id a) (entry = None \<and> selected \<noteq> None) effects (product_lists children) options))"

fun enumerate_recipes ::
  "enumerator \<Rightarrow> search_env \<Rightarrow> digest \<Rightarrow> gstate \<Rightarrow> nat \<Rightarrow> checkpoint option \<Rightarrow> checkpoint option \<Rightarrow> recipe list \<Rightarrow>
   candidate list \<Rightarrow> candidate list flow run" where
  "enumerate_recipes recur e d s depth entry selected [] options = returns (Onward options)"
| "enumerate_recipes recur e d s depth entry selected (r # rs) options =
     (if set (en_excluded e) \<inter> set (re_interactions r) \<noteq> {}
      then enumerate_recipes recur e d s depth entry selected rs options
      else bind_run (catching (enumerate_choice recur e d s depth entry selected r options)) (\<lambda>out.
        case out of
          Inl code \<Rightarrow> bind_run (modify (note_code code))
                        (\<lambda>_. enumerate_recipes recur e d s depth entry selected rs options)
        | Inr (Return options) \<Rightarrow> returns (Return options)
        | Inr (Onward options) \<Rightarrow> enumerate_recipes recur e d s depth entry selected rs options))"

fun enumerate_entries ::
  "enumerator \<Rightarrow> search_env \<Rightarrow> digest \<Rightarrow> gstate \<Rightarrow> nat \<Rightarrow> checkpoint option \<Rightarrow> checkpoint option list \<Rightarrow>
   candidate list \<Rightarrow> candidate list flow run" where
  "enumerate_entries recur e d s depth entry [] options = returns (Onward options)"
| "enumerate_entries recur e d s depth entry (selected # entries) options =
     bind_run (lift (sorted_recipes e)) (\<lambda>recipes.
     bind_run (enumerate_recipes recur e d s depth entry selected recipes options) (\<lambda>out.
       case out of Return options \<Rightarrow> returns (Return options)
       | Onward options \<Rightarrow> enumerate_entries recur e d s depth entry entries options))"

definition new_entries :: "search_env \<Rightarrow> gstate \<Rightarrow> checkpoint option \<Rightarrow> growth_error + checkpoint option list" where
  "new_entries e s entry =
     (if entry = None \<and> en_endpoint e = None
      then res_bind (entry_allowed e s) (\<lambda>ok.
             if ok then res_bind (make_checkpoint (gs_elapsed s) (gs_capacities s)) (\<lambda>p. Inr [entry, Some p])
             else Inr [entry])
      else Inr [entry])"

definition enumerate_body :: "enumerator \<Rightarrow> search_env \<Rightarrow> gstate \<Rightarrow> nat \<Rightarrow> checkpoint option \<Rightarrow> candidate list run" where
  "enumerate_body recur e s depth entry =
     bind_run (lift (state_digest (en_digests e) s)) (\<lambda>d.
     let key = (d, depth, map_option (dg_checkpoint (en_digests e)) entry) in
     bind_run (get_run (\<lambda>st. dict_get (sr_memo st) key)) (\<lambda>known.
     case known of Some v \<Rightarrow> returns v
     | None \<Rightarrow>
       bind_run (take_counter e States) (\<lambda>ok.
       if \<not> ok then returns []
       else bind_run (modify (note_depth depth)) (\<lambda>_.
            bind_run (lift (terminal e s entry)) (\<lambda>ended.
            if ended then
              returns [\<lparr>ca_node = leaf d, ca_terminals = [s],
                        ca_entries = (case entry of None \<Rightarrow> [] | Some p \<Rightarrow> [cp_time p]), ca_count = 1\<rparr>]
            else if gs_elapsed s \<ge> stop_time e entry \<or> depth \<ge> gc_max_decisions (en_contract e) then returns []
            else if depth \<ge> li_max_depth (limits_of e) then bind_run (modify give_up) (\<lambda>_. returns [])
            else bind_run (lift (new_entries e s entry)) (\<lambda>entries.
                 bind_run (enumerate_entries recur e d s depth entry entries []) (\<lambda>out.
                 case out of Return options \<Rightarrow> returns options
                 | Onward options \<Rightarrow>
                     bind_run (modify (\<lambda>st. if sr_complete st
                       then st\<lparr>sr_memo := dict_set (sr_memo st) key options\<rparr> else st))
                     (\<lambda>_. returns options))))))))"

fun enumerate_from :: "nat \<Rightarrow> search_env \<Rightarrow> enumerator" where
  "enumerate_from 0 e s depth entry = lift (Inl Diverges)"
| "enumerate_from (Suc n) e s depth entry = enumerate_body (enumerate_from n e) e s depth entry"

definition enumerate_policies :: "search_env \<Rightarrow> gstate \<Rightarrow> candidate list run" where
  "enumerate_policies e s = enumerate_from (Suc (gc_max_decisions (en_contract e))) e s 0 None"

end
