(* ===== verification/Growth_Contract.thy ===== *)
theory Growth_Contract
  imports Growth_Frontier
begin

text \<open>
  Validation of a contract and of a capability frontier: \<open>validate_contract\<close> of \<open>v6/growth.py\<close> and
  \<open>validate_frontier\<close> of \<open>v6/growth_frontier.py\<close>. Checks in a row are \<open>all_pass\<close>: the first that fails
  raises. The time origin is an instant, so the check that it has a UTC offset is the type.
\<close>

definition check :: "bool \<Rightarrow> string \<Rightarrow> growth_error + unit" where
  "check P code = require P (GrowthError code) (Inr ())"

lemma check_Inr [simp]: "check P code = Inr u \<longleftrightarrow> P"
  by (simp add: check_def)

definition all_pass :: "(growth_error + unit) list \<Rightarrow> growth_error + unit" where
  "all_pass ms = each (\<lambda>m. m) ms"

lemma all_pass_Inr [simp]: "all_pass ms = Inr u \<longleftrightarrow> (\<forall>m \<in> set ms. m = Inr ())"
  by (simp add: all_pass_def)

definition CAPACITIES :: "ident list" where
  "CAPACITIES = [''task'', ''research'', ''verification'']"

definition CHARGE_CATEGORIES :: "ident list" where
  "CHARGE_CATEGORIES = [''generation'', ''verification'', ''repair'', ''calibration'', ''communication'',
     ''comparison'', ''evidence'', ''joint-activity'', ''investment'', ''planner'']"

abbreviation keys_of :: "('k, 'v) dict \<Rightarrow> 'k set" where
  "keys_of d \<equiv> set (dict_keys d)"

section \<open>Contracts\<close>

definition snapshot_of :: "objects \<Rightarrow> digest \<Rightarrow> snapshot option" where
  "snapshot_of objects d = (case dict_get objects d of Some (SnapshotDoc s) \<Rightarrow> Some s | _ \<Rightarrow> None)"

definition units_of :: "objects \<Rightarrow> digest \<Rightarrow> unit_registry option" where
  "units_of objects d = (case dict_get objects d of Some (UnitsDoc u) \<Rightarrow> Some u | _ \<Rightarrow> None)"

definition action_of :: "objects \<Rightarrow> digest \<Rightarrow> action_spec option" where
  "action_of objects d = (case dict_get objects d of Some (ActionDoc a) \<Rightarrow> Some a | _ \<Rightarrow> None)"

definition capability_of :: "objects \<Rightarrow> digest \<Rightarrow> capability option" where
  "capability_of objects d = (case dict_get objects d of Some (CapabilityDoc a) \<Rightarrow> Some a | _ \<Rightarrow> None)"

definition require_some :: "'a option \<Rightarrow> string \<Rightarrow> growth_error + 'a" where
  "require_some x code = (case x of None \<Rightarrow> Inl (GrowthError code) | Some y \<Rightarrow> Inr y)"

lemma require_some_Inr [simp]: "require_some x code = Inr y \<longleftrightarrow> x = Some y"
  by (simp add: require_some_def split: option.splits)

definition check_domains :: "contract \<Rightarrow> growth_error + unit" where
  "check_domains c =
     (let s = gc_initial_state c; domains = keys_of (gc_domains c) in all_pass [
        check (set CAPACITIES \<subseteq> domains) ''growth_domains_missing'',
        check (domains = keys_of (gs_capacities s) \<and> domains = keys_of (gs_quality s) \<and>
               domains = keys_of (gs_coverage s)) ''growth_domains_mismatch'',
        check (keys_of (gc_resource_units c) = keys_of (gs_resources s) \<and>
               keys_of (gs_resources s) = set (gc_cost_order c) \<and> distinct (gc_cost_order c))
          ''growth_resource_domain'',
        check (keys_of (gc_resource_floors c) \<subseteq> keys_of (gc_resource_units c)) ''growth_resource_domain'',
        check (keys_of (gc_planning_charge c) \<subseteq> keys_of (gc_resource_units c)) ''growth_resource_domain'',
        check (keys_of (gc_shared_resources c) = keys_of (gc_joint_coefficients c))
          ''growth_reservation_domain'',
        check (keys_of (gc_queue_limits c) = domains \<and> keys_of (gc_debt_limits c) = domains)
          ''growth_queue_domain''])"

definition check_units :: "contract \<Rightarrow> unit_registry \<Rightarrow> growth_error + unit" where
  "check_units c u = all_pass [
     each (\<lambda>(k, d). all_pass [
       check (gd_target d > 0 \<and> gd_service_floor d > 0 \<and> 0 \<le> gd_quality_floor d \<and> gd_quality_floor d \<le> 1 \<and>
              0 \<le> gd_coverage_floor d \<and> gd_coverage_floor d \<le> 1) ''growth_domain_invalid'',
       check (dict_get (ur_coordinate_units u) k = Some (gd_unit d)) ''growth_units_mismatch'']) (gc_domains c),
     each (\<lambda>(k, unit). check (dict_get (ur_coordinate_units u) k = Some unit) ''growth_units_mismatch'')
       (gc_resource_units c),
     each (\<lambda>d. check (un_scale d > 0) ''growth_units_mismatch'') (dict_values (ur_units u)),
     check (case dict_get (ur_units u) (ur_time_unit u) of None \<Rightarrow> False
            | Some d \<Rightarrow> set (un_dimensions d) = {(''time'', 1)}) ''growth_units_mismatch'',
     check (\<forall>unit \<in> set (map gd_unit (dict_values (gc_domains c)) @ dict_values (gc_resource_units c)).
              unit \<in> keys_of (ur_units u)) ''growth_units_mismatch'']"

definition check_times :: "digests \<Rightarrow> contract \<Rightarrow> growth_error + unit" where
  "check_times dg c = all_pass [
     check (gc_deadline c > 0 \<and> gc_continuation_horizon c > 0 \<and> gc_joint_service_until c \<ge> gc_deadline c \<and>
            gc_planning_duration c \<ge> 0) ''growth_time_invalid'',
     check (gc_continuation_task_factor c > 1 \<and> gc_continuation_research_factor c > 1 \<and>
            gc_comparison_margin c > 0) ''growth_factor_invalid'',
     check (distinct (gc_models c) \<and> set (gs_models (gc_initial_state c)) \<subseteq> set (gc_models c))
       ''growth_model_domain'',
     check (distinct (map (dg_window dg) (gc_windows c))) ''growth_window_invalid'',
     each (\<lambda>w. check (0 \<le> win_start w \<and> win_start w < win_end w \<and> win_end w \<le> gc_deadline c \<and>
                      win_task_factor w > 1 \<and> win_research_factor w > 1) ''growth_window_invalid'')
       (gc_windows c),
     each (\<lambda>values. check (\<forall>v \<in> set (dict_values values). v \<ge> 0) ''growth_negative_quantity'')
       [gc_shared_resources c, gc_resource_floors c, gc_queue_limits c, gc_debt_limits c, gc_planning_charge c],
     each (\<lambda>coefficients. all_pass [
       check (keys_of coefficients \<subseteq> keys_of (gc_domains c)) ''growth_reservation_domain'',
       check_nonnegative coefficients]) (dict_values (gc_joint_coefficients c))]"

text \<open>One successor of a declared action, against the branch of its capability with that outcome.\<close>

definition charge_total ::
  "contract \<Rightarrow> (ident, rat) dict \<Rightarrow> (ident, rat) dict \<Rightarrow> growth_error + (ident, rat) dict" where
  "charge_total c charge totals =
     then_do (check (keys_of charge \<subseteq> keys_of (gc_resource_units c)) ''growth_resource_domain'')
     (then_do (check_nonnegative charge)
       (Inr (fold (\<lambda>(k, v) d. add_to d k v) charge totals)))"

definition check_successor :: "contract \<Rightarrow> capability \<Rightarrow> successor \<Rightarrow> growth_error + unit" where
  "check_successor c cap e =
     then_do (check (set (su_models e) \<subseteq> set (gc_models c)) ''growth_model_domain'')
     (res_bind (first_of (\<lambda>b. br_outcome b = su_outcome e) (cap_branches cap)) (\<lambda>branch.
      then_do (all_pass [
        check (0 < su_duration e \<and> su_duration e \<le> br_time_upper branch) ''growth_duration_invalid'',
        check (keys_of (su_capacity_delta e) \<subseteq> keys_of (gc_domains c) \<and>
               keys_of (su_quality e) \<subseteq> keys_of (gc_domains c) \<and>
               keys_of (su_coverage e) \<subseteq> keys_of (gc_domains c)) ''growth_domains_mismatch'',
        check_intervals (su_capacity_delta e) False,
        check (keys_of (su_charges e) \<subseteq> set CHARGE_CATEGORIES) ''growth_charge_category''])
     (res_bind (fold_res (charge_total c) (dict_values (su_charges e)) []) (\<lambda>totals.
      all_pass [
        check (keys_of (br_resource_lower branch) \<subseteq> keys_of (gc_resource_units c)) ''growth_resource_domain'',
        each (\<lambda>k. check (dict_get_default (br_resource_lower branch) k 0 \<le> - dict_get_default totals k 0 \<and>
                         - dict_get_default totals k 0 \<le> dict_get_default (br_resource_upper branch) k 0)
                    ''growth_capability_effect'') (dict_keys totals @ dict_keys (br_resource_lower branch)),
        check (case gc_monetary_resource c of None \<Rightarrow> True | Some m \<Rightarrow> m \<in> keys_of (gc_resource_units c))
          ''growth_resource_domain'',
        check (br_cost_upper branch \<le> (case gc_monetary_resource c of None \<Rightarrow> dict_get_default totals '''' 0
               | Some m \<Rightarrow> dict_get_default totals m 0)) ''growth_unfunded_monetary_cost'',
        check (set (br_debt branch) \<union> set (br_rollback_obligations branch) \<subseteq> wk_id ` set (su_debt_added e))
          ''growth_unaccounted_obligation'',
        check (br_verification_load_upper branch \<ge>
               sum_list (map wk_remaining (filter (\<lambda>w. wk_stage w = ''verification'') (su_arrivals e))))
          ''growth_capability_effect'']))))"

definition check_recipe ::
  "digests \<Rightarrow> contract \<Rightarrow> objects \<Rightarrow> recipe \<Rightarrow> ident list \<Rightarrow> growth_error + ident list" where
  "check_recipe dg c objects r ids =
     res_bind (require_some (action_of objects (re_action_digest r)) ''growth_action_missing'') (\<lambda>a.
     res_bind (require_some (capability_of objects (ac_capability a)) ''growth_capability_missing'') (\<lambda>cap.
     then_do (all_pass [
       check (cap_output_schema_digest cap = dg_schema dg (cap_output_schema_name cap)) ''growth_capability_schema'',
       check (ac_id a \<notin> set ids) ''growth_action_duplicate'',
       check (0 \<le> re_earliest r \<and> re_earliest r < re_expires r) ''growth_time_invalid'',
       check (keys_of (re_minimum_capacities r) \<subseteq> keys_of (gc_domains c)) ''growth_domains_mismatch'',
       check_nonnegative (re_minimum_capacities r),
       check (su_outcome ` set (re_successors r) = {success, partial, failure, timeout})
         ''growth_successor_incomplete'',
       check (distinct (map su_id (re_successors r))) ''growth_successor_duplicate'',
       check (set (gc_models c) \<subseteq> set (concat (map su_models (re_successors r)))) ''growth_successor_incomplete'',
       each (check_successor c cap) (re_successors r)])
     (Inr (ac_id a # ids))))"

definition validate_contract :: "digests \<Rightarrow> contract \<Rightarrow> objects \<Rightarrow> growth_error + unit" where
  "validate_contract dg c objects =
     then_do (check (\<forall>(k, v) \<in> set objects. k = dg_document dg v) ''growth_object_digest'')
     (res_bind (require_some (snapshot_of objects (gc_snapshot c)) ''growth_snapshot_missing'') (\<lambda>snapshot.
      res_bind (require_some (units_of objects (gc_units c)) ''growth_units_missing'') (\<lambda>units.
      then_do (all_pass [
        check (sn_unit_registry snapshot = gc_units c) ''growth_units_mismatch'',
        check_domains c, check_units c units, check_times dg c])
      (res_bind (fold_res (check_recipe dg c objects) (gc_actions c) []) (\<lambda>_.
       then_do (check (distinct (map co_id (gc_comparators c))) ''growth_comparator_duplicate'')
         (check_state c (gc_initial_state c)))))))"

section \<open>Frontiers\<close>

definition catalogue_step ::
  "objects \<Rightarrow> recipe \<Rightarrow> (ident, recipe) dict \<Rightarrow> growth_error + (ident, recipe) dict" where
  "catalogue_step objects r actions =
     res_bind (action_at objects (re_action_digest r)) (\<lambda>a. Inr (dict_set actions (ac_id a) r))"

definition check_binding :: "objects \<Rightarrow> (ident, recipe) dict \<Rightarrow> binding \<Rightarrow> growth_error + unit" where
  "check_binding objects actions b =
     (case (action_of objects (bi_action_digest b), capability_of objects (bi_capability_digest b),
            dict_get objects (bi_policy_digest b)) of
        (Some a, Some cap, Some (PolicyDoc images)) \<Rightarrow>
          res_bind (item actions (bi_action_id b)) (\<lambda>r.
          check (re_action_digest r = bi_action_digest b \<and> ac_id a = bi_action_id b \<and>
                 ac_capability a = bi_capability_digest b \<and>
                 cap_output_schema_digest cap = bi_output_schema_digest b \<and>
                 cap_policy_digest cap = bi_policy_digest b \<and> cap_image_digest cap \<in> set images)
            ''growth_frontier_binding_mismatch'')
      | _ \<Rightarrow> Inl (GrowthError ''growth_frontier_object_missing''))"

definition check_rule :: "contract \<Rightarrow> objects \<Rightarrow> (ident, recipe) dict \<Rightarrow> rule \<Rightarrow> growth_error + unit" where
  "check_rule c objects actions r = all_pass [
     check (case dict_get actions (ru_producer_id r) of None \<Rightarrow> False
            | Some p \<Rightarrow> ru_successor_id r \<in> su_id ` set (re_successors p)) ''growth_frontier_producer_mismatch'',
     check (set (ru_activated r) \<subseteq> keys_of actions \<and> distinct (ru_activated r)) ''growth_frontier_target_undeclared'',
     check (\<forall>d \<in> set (ru_capabilities r). capability_of objects d \<noteq> None) ''growth_frontier_capability_missing'',
     check (set (ru_models r) \<subseteq> set (gc_models c) \<and>
            keys_of (ru_minimum_capacities r) \<subseteq> keys_of (gc_domains c) \<and>
            keys_of (ru_minimum_resources r) \<subseteq> keys_of (gc_resource_units c) \<and>
            (\<forall>v \<in> set (dict_values (ru_minimum_capacities r) @ dict_values (ru_minimum_resources r)). v \<ge> 0) \<and>
            0 \<le> ru_valid_from r \<and> ru_valid_from r < ru_expires r \<and> ru_expires r \<le> gc_deadline c)
       ''growth_frontier_condition_invalid'']"

definition validate_frontier :: "digests \<Rightarrow> contract \<Rightarrow> objects \<Rightarrow> frontier \<Rightarrow> growth_error + unit" where
  "validate_frontier dg c objects f =
     then_do (check (fr_contract_digest f = dg_contract dg c) ''growth_frontier_contract_mismatch'')
     (res_bind (fold_res (catalogue_step objects) (gc_actions c) []) (\<lambda>actions.
      then_do (all_pass [
        check (distinct (fr_initial f) \<and> distinct (fr_latent f) \<and> set (fr_initial f) \<inter> set (fr_latent f) = {} \<and>
               set (fr_initial f) \<union> set (fr_latent f) = keys_of actions) ''growth_frontier_partition_invalid'',
        check (distinct (map bi_action_id (fr_bindings f)) \<and> bi_action_id ` set (fr_bindings f) = keys_of actions)
          ''growth_frontier_binding_missing'',
        check (fr_max_depth f \<le> int (gc_max_decisions c)) ''growth_frontier_depth_overflow'',
        each (check_binding objects actions) (fr_bindings f),
        check (distinct (map ru_id (fr_rules f))) ''growth_frontier_rule_duplicate'',
        each (check_rule c objects actions) (fr_rules f),
        check (distinct (map av_action_id (fr_initial_lineage f)) \<and>
               av_action_id ` set (fr_initial_lineage f) \<subseteq> set (fr_initial f)) ''growth_frontier_lineage_invalid''])
      (res_bind (seed dg (gc_initial_state c) f) (\<lambda>s.
       res_bind (check_frontier_state dg s f) (\<lambda>_. Inr ())))))"

end
