(* ===== verification/Growth_Plan.thy ===== *)
theory Growth_Plan
  imports Growth_Search Growth_Contract
begin

text \<open>
  Plans (\<open>v6/growth.py\<close>): objectives and their order, the comparators, the checker of a policy tree,
  \<open>plan_growth\<close> and \<open>check_plan\<close>; and the \<open>diagnostics\<close> of a plan with a frontier
  (\<open>v6/growth_frontier.py\<close>). The fields of a plan that are the same for every plan are left out.
\<close>

section \<open>Objectives\<close>

text \<open>\<open>max\<close> and \<open>min\<close> of a generator raise on nothing.\<close>

definition max_of :: "'a::linorder list \<Rightarrow> growth_error + 'a" where
  "max_of xs = (case xs of [] \<Rightarrow> Inl EmptyError | y # ys \<Rightarrow> Inr (fold max ys y))"

definition min_of :: "'a::linorder list \<Rightarrow> growth_error + 'a" where
  "min_of xs = (case xs of [] \<Rightarrow> Inl EmptyError | y # ys \<Rightarrow> Inr (fold min ys y))"

definition dict_of :: "('k \<times> 'v) list \<Rightarrow> ('k, 'v) dict" where
  "dict_of kvs = dict_update [] kvs"

definition stage_debt :: "gstate \<Rightarrow> ident \<Rightarrow> rat" where
  "stage_debt s k = sum_list (map wk_remaining (filter (\<lambda>w. wk_stage w = k) (gs_obligations s)))"

definition objective_of :: "contract \<Rightarrow> candidate \<Rightarrow> growth_error + objective" where
  "objective_of c cand =
     res_bind (max_of (ca_entries cand)) (\<lambda>entry.
     res_bind (res_bind (map_res (attainment iv_lower c) (ca_terminals cand)) min_of) (\<lambda>attained.
     res_bind (map_res (\<lambda>k. res_bind (max_of (map (\<lambda>s. dict_get_default (gs_spent s) k 0) (ca_terminals cand)))
                 (\<lambda>v. Inr (k, v))) (gc_cost_order c)) (\<lambda>costs.
     res_bind (map_res (\<lambda>k. res_bind (max_of (map (\<lambda>s. stage_debt s k) (ca_terminals cand)))
                 (\<lambda>v. Inr (k, v))) (sort (dict_keys (gc_domains c)))) (\<lambda>debts.
     res_bind (max_of (map gs_elapsed (ca_terminals cand))) (\<lambda>duration.
     require (\<forall>q \<in> set (entry # attained # duration # map snd (costs @ debts)). fits q) ValidationError
     (require (at_most 32 (dict_of costs) \<and> at_most 32 (dict_of debts)) ValidationError
       (Inr \<lparr>ob_entry = entry, ob_attainment = attained, ob_cost = dict_of costs, ob_debt = dict_of debts,
             ob_duration = duration\<rparr>)))))))"

type_synonym objective_rank = "rat list \<times> ident \<times> digest"

definition objective_key :: "digests \<Rightarrow> contract \<Rightarrow> candidate \<Rightarrow> growth_error + objective_rank" where
  "objective_key dg c cand =
     res_bind (objective_of c cand) (\<lambda>obj.
     res_bind (map_res (item (ob_cost obj)) (gc_cost_order c)) (\<lambda>costs.
     res_bind (map_res (item (ob_debt obj)) (sort (dict_keys (gc_domains c)))) (\<lambda>debts.
     Inr ([ob_entry obj, - ob_attainment obj] @ costs @ debts @ [ob_duration obj],
          (case pn_action (ca_node cand) of None \<Rightarrow> '''' | Some a \<Rightarrow> a), dg_node dg (ca_node cand)))))"

section \<open>Comparators\<close>

definition env_of ::
  "digests \<Rightarrow> contract \<Rightarrow> objects \<Rightarrow> frontier option \<Rightarrow> ident list \<Rightarrow> rat option \<Rightarrow> comparison list \<Rightarrow> search_env" where
  "env_of dg c objects fr excluded endpoint comparisons =
     \<lparr>en_digests = dg, en_contract = c, en_objects = objects, en_excluded = excluded, en_endpoint = endpoint,
      en_comparisons = comparisons, en_frontier = fr\<rparr>"

definition input_digest :: "digests \<Rightarrow> contract \<Rightarrow> objects \<Rightarrow> frontier option \<Rightarrow> digest" where
  "input_digest dg c objects fr =
     dg_input dg (dg_contract dg c) (sort (map (dg_document dg) (dict_values objects)))
       (map_option (dg_frontier dg) fr)"

definition compare_one ::
  "digests \<Rightarrow> contract \<Rightarrow> objects \<Rightarrow> frontier option \<Rightarrow> gstate \<Rightarrow> comparator \<Rightarrow> rat \<Rightarrow> growth_error + comparison" where
  "compare_one dg c objects fr start x endpoint =
     (let e = env_of dg c objects fr (co_excluded x) (Some endpoint) [];
          consistent = (gs_models start \<noteq> []);
          (found, st) = (if consistent then scalar e start fresh_search else (Inr None, fresh_search))
      in res_bind found (\<lambda>solution.
         let lower = map_option so_lower solution;
             upper = (if sr_complete st then map_option so_upper solution else None)
         in require (\<forall>q \<in> set_option lower \<union> set_option upper. fits q) ValidationError
            (Inr \<lparr>cm_id = co_id x, cm_endpoint = endpoint,
                  cm_status = (if \<not> consistent then Inconsistent
                               else if upper \<noteq> None then Supported else Undetermined),
                  cm_lower = lower, cm_upper = upper, cm_search = report_of (gc_search_limits c) st,
                  cm_basis = input_digest dg c objects fr,
                  cm_policy = map_option (\<lambda>sol. dg_node dg (ca_node (so_candidate sol))) solution\<rparr>)))"

definition compare_all ::
  "digests \<Rightarrow> contract \<Rightarrow> objects \<Rightarrow> frontier option \<Rightarrow> growth_error + comparison list" where
  "compare_all dg c objects fr =
     then_do (validate_contract dg c objects)
     (then_do (case fr of None \<Rightarrow> Inr () | Some f \<Rightarrow> validate_frontier dg c objects f)
     (res_bind (initial_state dg c fr) (\<lambda>start.
      map_res (\<lambda>(x, endpoint). compare_one dg c objects fr start x endpoint)
        (List.product (sort_key co_id (gc_comparators c)) (sorted_set (map win_end (gc_windows c)))))))"

section \<open>The checker of a policy tree\<close>

text \<open>The walk counts nodes and collects the terminals and the entry times it passes.\<close>

type_synonym walked = "nat \<times> gstate list \<times> rat list"

definition walk_here ::
  "search_env \<Rightarrow> policy_node \<Rightarrow> gstate \<Rightarrow> nat \<Rightarrow> checkpoint option \<Rightarrow> nat \<Rightarrow> growth_error + checkpoint option" where
  "walk_here e node s depth entry count =
     (let c = en_contract e in
      then_do (check (count \<le> li_max_witness_nodes (gc_search_limits c) \<and> depth \<le> gc_max_decisions c)
        ''growth_checker_budget'')
      (then_do (check_state c s)
      (then_do (check (gs_models s \<noteq> []) ''growth_inconsistent_models'')
      (res_bind (state_digest (en_digests e) s) (\<lambda>d.
       then_do (check (pn_state node = d) ''growth_plan_state_mismatch'')
       (if pn_entry node
        then res_bind (if entry = None then entry_allowed e s else Inr False) (\<lambda>ok.
             then_do (check ok ''growth_plan_entry_invalid'')
             (res_bind (make_checkpoint (gs_elapsed s) (gs_capacities s)) (\<lambda>p. Inr (Some p))))
        else Inr entry))))))"

definition walk_recipe :: "search_env \<Rightarrow> ident \<Rightarrow> growth_error + recipe" where
  "walk_recipe e a =
     res_bind (map_res (\<lambda>r. res_bind (action_at (en_objects e) (re_action_digest r)) (\<lambda>x. Inr (ac_id x, r)))
                 (gc_actions (en_contract e))) (\<lambda>keyed.
       case filter (\<lambda>kr. fst kr = a) keyed of
         [kr] \<Rightarrow> Inr (snd kr)
       | _ \<Rightarrow> Inl (GrowthError ''growth_plan_action_invalid''))"

lemma policy_child_size: "dict_get (pn_branches node) k = Some child \<Longrightarrow> size child < size node"
proof -
  assume "dict_get (pn_branches node) k = Some child"
  then have "(k, child) \<in> set (pn_branches node)" by (rule dict_get_SomeD)
  then show ?thesis
    by (cases node) (use size_list_estimation [where y = "size child" and f = "size_prod (\<lambda>x. 0) size"] in fastforce)
qed

function walk ::
  "search_env \<Rightarrow> policy_node \<Rightarrow> gstate \<Rightarrow> nat \<Rightarrow> checkpoint option \<Rightarrow> walked \<Rightarrow> growth_error + walked" where
  "walk e node s depth entry acc =
     res_bind (walk_here e node s depth entry (fst acc + 1)) (\<lambda>entry.
       let (count, terminals, entries) = acc in
       case pn_action node of
         None \<Rightarrow>
           res_bind (if pn_branches node = [] \<and> pn_effects node = [] then terminal e s entry else Inr False) (\<lambda>ok.
           then_do (check ok ''growth_plan_continuation_invalid'')
             (Inr (count + 1, terminals @ [s],
                   entries @ (case entry of None \<Rightarrow> [] | Some p \<Rightarrow> [cp_time p]))))
       | Some a \<Rightarrow>
           res_bind (walk_recipe e a) (\<lambda>r.
           let effects = successors s r in
           then_do (check (set (dict_keys (pn_branches node)) = set (map su_id effects) \<and>
                           set (dict_keys (pn_effects node)) = set (dict_keys (pn_branches node)) \<and> effects \<noteq> [])
             ''growth_plan_branches_invalid'')
           (fold_res (\<lambda>effect acc.
              res_bind (item (pn_effects node) (su_id effect)) (\<lambda>d.
              then_do (check (d = dg_effect (en_digests e) effect) ''growth_plan_effect_mismatch'')
              (res_bind (transition (en_digests e) (en_contract e) s r effect (en_objects e) (en_frontier e)) (\<lambda>t.
               res_bind (item (pn_branches node) (su_id effect)) (\<lambda>child.
               walk e child t (depth + 1) entry acc)))))
             effects (count + 1, terminals, entries))))"
  by pat_completeness auto
termination
  by (relation "measure (\<lambda>(e, node, _). size node)") (auto intro: policy_child_size)

declare walk.simps [simp del]

definition check_tree ::
  "search_env \<Rightarrow> policy_node \<Rightarrow> gstate \<Rightarrow> checkpoint option \<Rightarrow> growth_error + candidate" where
  "check_tree e tree start entry =
     res_bind (walk e tree start 0 entry (0, [], [])) (\<lambda>(count, terminals, entries).
       Inr \<lparr>ca_node = tree, ca_terminals = terminals, ca_entries = entries, ca_count = count\<rparr>)"

section \<open>Diagnostics of a frontier\<close>

record activation_witness =
  wi_activation :: activation
  wi_carried :: bool
  wi_first :: "digest option"
  wi_path :: "ident list"
  wi_continuation :: bool
  wi_verification :: bool

record diagnostics =
  di_enabled :: "ident list"
  di_used :: "ident list"
  di_depth :: int
  di_frontier_used :: bool
  di_continuation :: bool
  di_recursive :: bool
  di_verification :: bool
  di_witnesses :: "activation_witness list"

definition new_witness :: "bool \<Rightarrow> activation \<Rightarrow> activation_witness" where
  "new_witness carried x = \<lparr>wi_activation = x, wi_carried = carried, wi_first = None, wi_path = [],
     wi_continuation = False, wi_verification = False\<rparr>"

type_synonym traced = "activation_witness list \<times> ident list \<times> ident list"

fun first_recipe :: "objects \<Rightarrow> ident \<Rightarrow> recipe list \<Rightarrow> growth_error + recipe" where
  "first_recipe objects a [] = Inl StopIteration"
| "first_recipe objects a (r # rs) =
     res_bind (action_at objects (re_action_digest r)) (\<lambda>x. if ac_id x = a then Inr r else first_recipe objects a rs)"

definition verification_gain :: "successor \<Rightarrow> bool" where
  "verification_gain effect =
     (case dict_get (su_capacity_delta effect) ''verification'' of None \<Rightarrow> False | Some i \<Rightarrow> iv_lower i > 0)"

definition use_witness ::
  "digest \<Rightarrow> ident list \<Rightarrow> bool \<Rightarrow> bool \<Rightarrow> activation_witness \<Rightarrow> activation_witness" where
  "use_witness d path continuation contributes w = w\<lparr>
     wi_first := (case wi_first w of None \<Rightarrow> Some d | Some x \<Rightarrow> Some x),
     wi_path := (case wi_first w of None \<Rightarrow> path | Some _ \<Rightarrow> wi_path w),
     wi_continuation := wi_continuation w \<or> continuation,
     wi_verification := wi_verification w \<or> contributes\<rparr>"

definition mark_used ::
  "digests \<Rightarrow> policy_node \<Rightarrow> gstate \<Rightarrow> recipe \<Rightarrow> ident \<Rightarrow> ident list \<Rightarrow> bool \<Rightarrow> (ident, nat) dict \<Rightarrow> traced \<Rightarrow> traced" where
  "mark_used dg node s r a path continuation indices tr =
     (let (witnesses, enabled, used) = tr in
      case dict_get indices a of None \<Rightarrow> tr
      | Some i \<Rightarrow>
          (witnesses[i := use_witness (dg_node dg node) path continuation
             (\<exists>effect \<in> set (successors s r). verification_gain effect) (witnesses ! i)],
           enabled, a # used))"

definition new_event ::
  "activation \<Rightarrow> (ident, nat) dict \<times> traced \<Rightarrow> (ident, nat) dict \<times> traced" where
  "new_event event acc =
     (let (indices, witnesses, enabled, used) = acc in
      if av_action_id event \<in> set (dict_keys indices) then acc
      else (dict_set indices (av_action_id event) (length witnesses),
            witnesses @ [new_witness False event], av_action_id event # enabled, used))"

definition lineage_at :: "gstate \<Rightarrow> growth_error + activation list" where
  "lineage_at s = (case gs_frontier s of None \<Rightarrow> Inl AttributeError | Some f \<Rightarrow> Inr (fp_lineage f))"

function trace ::
  "digests \<Rightarrow> contract \<Rightarrow> objects \<Rightarrow> frontier \<Rightarrow> policy_node \<Rightarrow> gstate \<Rightarrow> ident list \<Rightarrow> bool \<Rightarrow> (ident, nat) dict \<Rightarrow>
   traced \<Rightarrow> growth_error + traced" where
  "trace dg c objects fr node s path continuation indices tr =
     (let continuation = continuation \<or> pn_entry node in
      case pn_action node of None \<Rightarrow> Inr tr
      | Some a \<Rightarrow>
          res_bind (first_recipe objects a (gc_actions c)) (\<lambda>r.
          fold_res (\<lambda>effect tr.
             res_bind (transition dg c s r effect objects (Some fr)) (\<lambda>t.
             res_bind (lineage_at t) (\<lambda>events.
             let (child_indices, tr) = fold new_event events (indices, tr) in
             res_bind (item (pn_branches node) (su_id effect)) (\<lambda>child.
             trace dg c objects fr child t (path @ [su_id effect]) continuation child_indices tr))))
            (successors s r) (mark_used dg node s r a path continuation indices tr)))"
  by pat_completeness auto
termination
  by (relation "measure (\<lambda>(dg, c, objects, fr, node, _). size node)") (auto intro: policy_child_size)

declare trace.simps [simp del]

definition diagnostics_of ::
  "digests \<Rightarrow> contract \<Rightarrow> objects \<Rightarrow> frontier \<Rightarrow> policy_node option \<Rightarrow> growth_error + diagnostics" where
  "diagnostics_of dg c objects fr tree =
     (let carried = map (new_witness True) (sort_key av_action_id (fr_initial_lineage fr));
          indices = fold (\<lambda>(i, w) d. dict_set d (av_action_id (wi_activation w)) i) (List.enumerate 0 carried) []
      in res_bind (case tree of None \<Rightarrow> Inr (carried, [], [])
                   | Some node \<Rightarrow> res_bind (initial_state dg c (Some fr)) (\<lambda>s.
                       trace dg c objects fr node s [] False indices (carried, [], []))) (\<lambda>(witnesses, enabled, used).
         let depth = max_default (map (\<lambda>w. av_depth (wi_activation w)) witnesses) in
         require (at_most 16 (sorted_set enabled) \<and> at_most 16 (sorted_set used) \<and> 0 \<le> depth \<and> depth \<le> 16 \<and>
                  at_most 65536 witnesses) ValidationError
         (Inr \<lparr>di_enabled = sorted_set enabled, di_used = sorted_set used, di_depth = depth,
               di_frontier_used = (used \<noteq> []), di_continuation = (\<exists>w \<in> set witnesses. wi_continuation w),
               di_recursive = (\<exists>w \<in> set witnesses. av_producer_id (wi_activation w) \<in> set used),
               di_verification = (\<exists>w \<in> set witnesses. wi_verification w), di_witnesses = witnesses\<rparr>)))"

section \<open>Plans\<close>

record frontier_plan =
  fpl_digest :: digest
  fpl_declared :: frontier
  fpl_initial :: gstate
  fpl_terminals :: "gstate list"
  fpl_diagnostics :: diagnostics

record growth_plan =
  gp_contract :: digest
  gp_input :: digest
  gp_initial :: digest
  gp_code :: string
  gp_solution :: string
  gp_entry :: comparison_status
  gp_policy :: "policy_node option"
  gp_policy_digest :: "digest option"
  gp_objective :: "objective option"
  gp_fallback :: "policy_node option"
  gp_search :: report
  gp_fallback_search :: "report option"
  gp_comparisons :: "comparison list"
  gp_alternatives :: "ident list"
  gp_counterexamples :: "string list"
  gp_terminals :: "gstate list"
  gp_next_evidence :: "ident list"
  gp_expires :: rat
  gp_checker :: "digest option"
  gp_frontier :: "frontier_plan option"

section \<open>Equality of documents\<close>

text \<open>
  Two documents are equal when their fields are, and two dicts when they have the same items: the order of the
  members does not count. So documents are compared with their dicts sorted by key.
\<close>

definition plain :: "('k::linorder, 'v) dict \<Rightarrow> ('k, 'v) dict" where
  "plain d = sort_key fst d"

definition plain_objective :: "objective \<Rightarrow> objective" where
  "plain_objective x = x\<lparr>ob_cost := plain (ob_cost x), ob_debt := plain (ob_debt x)\<rparr>"

definition plain_state :: "gstate \<Rightarrow> gstate" where
  "plain_state s = s\<lparr>gs_capacities := plain (gs_capacities s), gs_quality := plain (gs_quality s),
     gs_coverage := plain (gs_coverage s), gs_resources := plain (gs_resources s), gs_evidence := plain (gs_evidence s),
     gs_assumptions := plain (gs_assumptions s), gs_spent := plain (gs_spent s),
     gs_charges := plain (map (\<lambda>(k, v). (k, plain v)) (gs_charges s)), gs_offered := plain (gs_offered s),
     gs_completed := plain (gs_completed s),
     gs_checkpoints := map (\<lambda>p. p\<lparr>cp_capacities := plain (cp_capacities p)\<rparr>) (gs_checkpoints s)\<rparr>"

definition plain_frontier :: "frontier \<Rightarrow> frontier" where
  "plain_frontier f = f\<lparr>fr_rules := map (\<lambda>r. r\<lparr>ru_minimum_capacities := plain (ru_minimum_capacities r),
     ru_minimum_resources := plain (ru_minimum_resources r)\<rparr>) (fr_rules f)\<rparr>"

definition check_plan ::
  "digests \<Rightarrow> contract \<Rightarrow> objects \<Rightarrow> growth_plan \<Rightarrow> frontier option \<Rightarrow> growth_error + digest" where
  "check_plan dg c objects plan fr =
     then_do (validate_contract dg c objects)
     (then_do (check ((gp_frontier plan \<noteq> None) = (fr \<noteq> None)) ''growth_frontier_document_required'')
     (then_do (case fr of None \<Rightarrow> Inr ()
               | Some f \<Rightarrow> then_do (validate_frontier dg c objects f)
                   (check (fpl_digest (the (gp_frontier plan)) = dg_frontier dg f \<and>
                           plain_frontier (fpl_declared (the (gp_frontier plan))) = plain_frontier f)
                     ''growth_frontier_digest_mismatch''))
     (then_do (check (gp_contract plan = dg_contract dg c \<and> gp_input plan = input_digest dg c objects fr)
        ''growth_plan_input_mismatch'')
     (res_bind (initial_state dg c fr) (\<lambda>start.
      res_bind (state_digest dg start) (\<lambda>d.
      then_do (check (gp_initial plan = d) ''growth_plan_state_mismatch'')
     (res_bind (require_some (gp_policy plan) ''growth_plan_policy_missing'') (\<lambda>tree.
      then_do (check (gp_policy_digest plan = Some (dg_node dg tree)) ''growth_plan_digest_mismatch'')
     (res_bind (compare_all dg c objects fr) (\<lambda>comparisons.
      then_do (check (comparisons = gp_comparisons plan) ''growth_plan_comparison_mismatch'')
     (res_bind (check_tree (env_of dg c objects fr [] None comparisons) tree start None) (\<lambda>cand.
      res_bind (objective_of c cand) (\<lambda>obj.
      then_do (check (map_option plain_objective (gp_objective plan) = Some (plain_objective obj))
         ''growth_plan_objective_mismatch'')
     (res_bind (map_res base_state (ca_terminals cand)) (\<lambda>terminals.
      then_do (check (map plain_state (gp_terminals plan) = map plain_state terminals) ''growth_plan_terminal_mismatch'')
     (then_do (case gp_frontier plan of None \<Rightarrow> Inr ()
               | Some fp \<Rightarrow>
                   then_do (check (plain_state (fpl_initial fp) = plain_state start \<and>
                       map plain_state (fpl_terminals fp) = map plain_state (ca_terminals cand))
                     ''growth_frontier_state_mismatch'')
                   (res_bind (diagnostics_of dg c objects (the fr) (Some tree)) (\<lambda>di.
                    check (fpl_diagnostics fp = di) ''growth_frontier_witness_mismatch'')))
      (Inr (dg_checked dg (gp_input plan) (gp_policy_digest plan) obj))))))))))))))))))"

definition rank_candidates :: "digests \<Rightarrow> contract \<Rightarrow> candidate list \<Rightarrow> growth_error + candidate list" where
  "rank_candidates dg c cands =
     res_bind (map_res (\<lambda>cand. res_bind (objective_key dg c cand) (\<lambda>k. Inr (k, cand))) cands) (\<lambda>keyed.
     Inr (map snd (sort_key fst keyed)))"

definition plan_code :: "bool \<Rightarrow> bool \<Rightarrow> candidate option \<Rightarrow> string" where
  "plan_code consistent exact best =
     (if \<not> consistent then ''growth_inconsistent_models''
      else if \<not> exact then ''growth_unknown_due_to_budget''
      else if best \<noteq> None then ''growth_model_policy_found''
      else ''growth_no_guaranteed_entry'')"

definition alternatives_of :: "candidate option \<Rightarrow> candidate list \<Rightarrow> ident list" where
  "alternatives_of best cands =
     sorted_set (filter (\<lambda>a. a \<noteq> [] \<and> Some a \<noteq> (case best of None \<Rightarrow> None | Some b \<Rightarrow> pn_action (ca_node b)))
       (List.map_filter (\<lambda>p. pn_action (ca_node p)) cands))"

definition frontier_plan_of ::
  "digests \<Rightarrow> contract \<Rightarrow> objects \<Rightarrow> frontier option \<Rightarrow> gstate \<Rightarrow> candidate option \<Rightarrow> growth_error + frontier_plan option"
where
  "frontier_plan_of dg c objects fr start best =
     (case fr of None \<Rightarrow> Inr None
      | Some f \<Rightarrow>
          res_bind (diagnostics_of dg c objects f (map_option ca_node best)) (\<lambda>di.
          Inr (Some \<lparr>fpl_digest = dg_frontier dg f, fpl_declared = f, fpl_initial = start,
                     fpl_terminals = (case best of None \<Rightarrow> [] | Some b \<Rightarrow> ca_terminals b), fpl_diagnostics = di\<rparr>)))"

text \<open>The independent checks at the end of \<open>plan_growth\<close>: the plan found, or the fallback.\<close>

definition checked_plan ::
  "digests \<Rightarrow> contract \<Rightarrow> objects \<Rightarrow> frontier option \<Rightarrow> search_env \<Rightarrow> gstate \<Rightarrow> growth_plan \<Rightarrow> growth_error + growth_plan"
where
  "checked_plan dg c objects fr fallback_env start plan =
     (case (gp_policy plan, gp_fallback plan) of
        (Some _, _) \<Rightarrow> res_bind (check_plan dg c objects plan fr) (\<lambda>d. Inr (plan\<lparr>gp_checker := Some d\<rparr>))
      | (None, Some tree) \<Rightarrow> res_bind (check_tree fallback_env tree start None) (\<lambda>_. Inr plan)
      | (None, None) \<Rightarrow> Inr plan)"

definition plan_growth ::
  "digests \<Rightarrow> contract \<Rightarrow> objects \<Rightarrow> frontier option \<Rightarrow> growth_error + growth_plan" where
  "plan_growth dg c objects fr =
     then_do (validate_contract dg c objects)
     (res_bind (initial_state dg c fr) (\<lambda>start.
      res_bind (compare_all dg c objects fr) (\<lambda>comparisons.
      let consistent = (gs_models start \<noteq> []);
          (found, st) = (if consistent then enumerate_policies (env_of dg c objects fr [] None comparisons) start fresh_search
                         else (Inr [], fresh_search))
      in res_bind found (\<lambda>cands.
      res_bind (rank_candidates dg c cands) (\<lambda>cands.
      let best = (case cands of [] \<Rightarrow> None | b # _ \<Rightarrow> Some b);
          exact = (sr_complete st \<and> (\<forall>x \<in> set comparisons. rp_complete (cm_search x)));
          fallback_env = env_of dg c objects fr [] (Some (gc_deadline c)) [];
          (safe, fst_search) = (if best = None \<and> consistent then scalar fallback_env start fresh_search
                                else (Inr None, fresh_search))
      in res_bind safe (\<lambda>safe.
      res_bind (state_digest dg start) (\<lambda>initial.
      res_bind (case best of None \<Rightarrow> Inr None
                | Some b \<Rightarrow> res_bind (objective_of c b) (\<lambda>obj. Inr (Some obj))) (\<lambda>obj.
      res_bind (case best of None \<Rightarrow> Inr [] | Some b \<Rightarrow> map_res base_state (ca_terminals b)) (\<lambda>terminals.
      let alternatives = alternatives_of best cands; codes = sorted_set (sr_codes st) in
      require (at_most 4096 terminals \<and> at_most 128 comparisons \<and> at_most 16 alternatives \<and> at_most 256 codes)
        ValidationError
     (res_bind (frontier_plan_of dg c objects fr start best) (\<lambda>fplan.
      res_bind (checked_plan dg c objects fr fallback_env start
          \<lparr>gp_contract = dg_contract dg c, gp_input = input_digest dg c objects fr, gp_initial = initial,
            gp_code = plan_code consistent exact best,
            gp_solution = (if exact then ''exact'' else ''incomplete''),
            gp_entry = (if \<not> consistent then Inconsistent else if best \<noteq> None then Supported else Undetermined),
            gp_policy = map_option ca_node best, gp_policy_digest = map_option (\<lambda>b. dg_node dg (ca_node b)) best,
            gp_objective = obj, gp_fallback = map_option (\<lambda>sol. ca_node (so_candidate sol)) safe,
            gp_search = report_of (gc_search_limits c) st,
            gp_fallback_search = None, gp_comparisons = comparisons, gp_alternatives = alternatives,
            gp_counterexamples = codes, gp_terminals = terminals, gp_next_evidence = gc_entry_evidence c,
            gp_expires = gc_deadline c, gp_checker = None, gp_frontier = fplan\<rparr>) (\<lambda>plan.
      Inr (if best = None \<and> consistent
           then plan\<lparr>gp_fallback_search := Some (report_of (gc_search_limits c) fst_search)\<rparr> else plan)))))))))))))"

end
