(* ===== verification/Search_Facts.thy ===== *)
theory Search_Facts
  imports Growth_Search Growth_Activation
begin

text \<open>
  The scalar search against the game: an abstract account of what a complete policy is and what it
  guarantees, the normal form of states, and the rules by which the computations of the search are read.
\<close>

section \<open>Normal forms\<close>

definition normal :: "gstate \<Rightarrow> bool" where
  "normal s \<longleftrightarrow> normal_form s = s \<and> valid_fields s"

lemma sorted_set_sorted_set [simp]: "sorted_set (sorted_set xs) = sorted_set xs"
  by (simp add: sorted_set_def remdups_id_iff_distinct sorted_sort_id distinct_remdups)

lemma sort_key_twice [simp]: "sort_key f (sort_key f xs) = sort_key f xs"
  by (simp add: sort_key_id_if_sorted)

lemma normal_form_idem: "normal_form (normal_form s) = normal_form s"
  by (cases "gs_frontier s") (simp_all add: normal_form_def)

lemma normalize_normal: "normalize s = Inr t \<Longrightarrow> normal t"
  by (auto simp: normalize_Inr normal_def normal_form_idem)

lemma normal_digest: "normal s \<Longrightarrow> state_digest dg s = Inr (dg_state dg s)"
  by (simp add: state_digest_def normalize_def normal_def)

lemma with_frontier_valid: "with_frontier s f = Inr t \<Longrightarrow> valid_fields t"
  by (auto simp: with_frontier_def Let_def)

lemma frontier_normal:
  assumes "normal_form u = u" "t = u\<lparr>gs_frontier := Some f\<rparr>"
    and "sort (fp_enabled f) = fp_enabled f" "sort_key av_action_id (fp_lineage f) = fp_lineage f"
  shows "normal_form t = t"
proof -
  have "f\<lparr>fp_enabled := fp_enabled f, fp_lineage := fp_lineage f\<rparr> = f" by simp
  moreover have "normal_form t = (normal_form u)\<lparr>gs_frontier := Some (f\<lparr>fp_enabled := sort (fp_enabled f),
      fp_lineage := sort_key av_action_id (fp_lineage f)\<rparr>)\<rparr>"
    by (simp add: assms(2) normal_form_def)
  ultimately show ?thesis using assms by simp
qed

lemma activate_sorted:
  assumes "activate dg c objects f s u r effect = Inr t"
  obtains g where "with_frontier u g = Inr t" "sort (fp_enabled g) = fp_enabled g"
    "sort_key av_action_id (fp_lineage g) = fp_lineage g"
proof -
  obtain p enabled lineage depth where "with_frontier u \<lparr>fp_digest = p, fp_enabled = sort enabled, fp_depth = depth,
      fp_lineage = sort_key av_action_id lineage\<rparr> = Inr t"
    using assms unfolding activate_def Let_def res_bind_Inr split_paired_Ex prod.case by blast
  then show thesis by (rule that) simp_all
qed

lemma transition_normal:
  assumes "transition dg c s r effect objects fr = Inr t"
  shows "normal t"
  using assms
proof (rule transition_Inr)
  fix a cap u
  assume ledger: "transition_ledger c s r effect objects a cap = Inr u"
    and fr: "case fr of None \<Rightarrow> t = u | Some f \<Rightarrow> activate dg c objects f s u r effect = Inr t"
  have u: "normal u"
    using ledger unfolding transition_ledger_def Let_def res_bind_Inr require_Inr res_require_Inr split_paired_Ex prod.case
    by (elim exE conjE) (erule normalize_normal)
  show "normal t"
  proof (cases fr)
    case None
    with fr u show ?thesis by simp
  next
    case (Some f)
    then have "activate dg c objects f s u r effect = Inr t" using fr by simp
    then obtain g where g: "with_frontier u g = Inr t" "sort (fp_enabled g) = fp_enabled g"
      "sort_key av_action_id (fp_lineage g) = fp_lineage g"
      by (rule activate_sorted)
    have "t = u\<lparr>gs_frontier := Some g\<rparr>" using g(1) by (rule with_frontier_Inr)
    from frontier_normal [OF _ this g(2,3)] u have "normal_form t = t" by (simp add: normal_def)
    then show ?thesis using with_frontier_valid [OF g(1)] by (simp add: normal_def)
  qed
qed

section \<open>What a policy guarantees\<close>

text \<open>
  A complete policy up to the endpoint: in every state before it one allowed recipe, with a policy for each
  of its successors. \<open>guarantees\<close> lists the states it may end in.
\<close>

inductive guarantees :: "search_env \<Rightarrow> gstate \<Rightarrow> nat \<Rightarrow> policy_node \<Rightarrow> gstate list \<Rightarrow> bool" for e where
  ended: "terminal e s None = Inr True \<Longrightarrow> state_digest (en_digests e) s = Inr d \<Longrightarrow> guarantees e s depth (leaf d) [s]"
| decide: "\<lbrakk>terminal e s None = Inr False; state_digest (en_digests e) s = Inr d; en_endpoint e = Some stop;
    gs_elapsed s < stop; depth < gc_max_decisions (en_contract e); r \<in> set (gc_actions (en_contract e));
    set (en_excluded e) \<inter> set (re_interactions r) = {};
    applicable (en_digests e) (en_contract e) s r (en_objects e) (en_frontier e) = Inr (a, cap); successors s r \<noteq> [];
    list_all2 (\<lambda>effect cand. \<exists>t. transition (en_digests e) (en_contract e) s r effect (en_objects e) (en_frontier e) = Inr t \<and>
      guarantees e t (Suc depth) (ca_node cand) (ca_terminals cand)) (successors s r) cands\<rbrakk> \<Longrightarrow>
    guarantees e s depth (branch_node (en_digests e) d (ac_id a) False (successors s r) cands)
      (concat (map ca_terminals cands))"

text \<open>The least attainment over the states a policy may end in.\<close>

definition value_at :: "(interval \<Rightarrow> rat) \<Rightarrow> contract \<Rightarrow> gstate \<Rightarrow> rat" where
  "value_at bound c s = (case attainment bound c s of Inr v \<Rightarrow> v | Inl _ \<Rightarrow> 0)"

definition worst :: "(interval \<Rightarrow> rat) \<Rightarrow> contract \<Rightarrow> gstate list \<Rightarrow> rat" where
  "worst bound c ts = Min (value_at bound c ` set ts)"

lemma worst_single [simp]: "worst bound c [s] = value_at bound c s"
  by (simp add: worst_def)

lemma worst_concat:
  assumes "tss \<noteq> []" "\<And>ts. ts \<in> set tss \<Longrightarrow> ts \<noteq> []"
  shows "worst bound c (concat tss) = Min (worst bound c ` set tss)"
proof (rule antisym)
  have ne: "concat tss \<noteq> []" using assms by (cases tss) auto
  show "worst bound c (concat tss) \<le> Min (worst bound c ` set tss)"
  proof (rule Min.boundedI)
    fix w assume "w \<in> worst bound c ` set tss"
    then obtain ts where "ts \<in> set tss" "w = worst bound c ts" by auto
    then show "worst bound c (concat tss) \<le> w"
      using assms(2) [of ts] by (simp only: worst_def) (rule Min_antimono; auto)
  qed (use assms(1) in auto)
  show "Min (worst bound c ` set tss) \<le> worst bound c (concat tss)"
  proof -
    have "Min (worst bound c ` set tss) \<le> value_at bound c t" if "ts \<in> set tss" "t \<in> set ts" for t ts
    proof -
      have "Min (worst bound c ` set tss) \<le> worst bound c ts" using that(1) by simp
      also have "\<dots> \<le> value_at bound c t" using that(2) by (simp add: worst_def)
      finally show ?thesis .
    qed
    then show ?thesis using ne unfolding worst_def [of bound c "concat tss"] by (intro Min.boundedI) auto
  qed
qed

lemma guarantees_nonempty: "guarantees e s depth node ts \<Longrightarrow> ts \<noteq> []"
proof (induction rule: guarantees.induct)
  case (decide s d stop depth r a cap cands)
  then obtain effect es cand cs where "successors s r = effect # es" "cands = cand # cs"
    by (cases "successors s r"; cases cands) auto
  then show ?case using decide.IH by auto
qed simp

section \<open>Reading computations\<close>

text \<open>
  \<open>ensures I E m S Opt\<close>: the computation keeps \<open>I\<close> and never makes an incomplete search complete; an
  error satisfies \<open>E\<close>, a result \<open>S\<close>, and \<open>Opt\<close> as well if the search is still complete after it.
\<close>

definition ensures ::
  "(search \<Rightarrow> bool) \<Rightarrow> (growth_error \<Rightarrow> bool) \<Rightarrow> 'a run \<Rightarrow> ('a \<Rightarrow> bool) \<Rightarrow> ('a \<Rightarrow> bool) \<Rightarrow> bool" where
  "ensures I E m S Opt \<longleftrightarrow> (\<forall>st. I st \<longrightarrow> I (snd (m st)) \<and> (sr_complete (snd (m st)) \<longrightarrow> sr_complete st) \<and>
     (case fst (m st) of Inl er \<Rightarrow> E er | Inr x \<Rightarrow> S x \<and> (sr_complete (snd (m st)) \<longrightarrow> Opt x)))"

named_theorems run_rules

lemma ensures_returns [run_rules]: "S x \<Longrightarrow> Opt x \<Longrightarrow> ensures I E (returns x) S Opt"
  by (simp add: ensures_def returns_def)

lemma ensures_lift: "(\<And>er. m = Inl er \<Longrightarrow> E er) \<Longrightarrow> (\<And>x. m = Inr x \<Longrightarrow> S x \<and> Opt x) \<Longrightarrow> ensures I E (lift m) S Opt"
  by (auto simp: ensures_def lift_def split: sum.splits)

lemma ensures_bind:
  assumes "ensures I E m S1 Opt1"
    and "\<And>x. S1 x \<Longrightarrow> ensures I E (f x) S (\<lambda>y. Opt1 x \<longrightarrow> Opt y)"
  shows "ensures I E (bind_run m f) S Opt"
  unfolding ensures_def
proof (intro allI impI)
  fix st assume I: "I st"
  obtain out st1 where m: "m st = (out, st1)" by (cases "m st")
  with assms(1) I have one: "I st1" "sr_complete st1 \<longrightarrow> sr_complete st"
    "case out of Inl er \<Rightarrow> E er | Inr x \<Rightarrow> S1 x \<and> (sr_complete st1 \<longrightarrow> Opt1 x)"
    unfolding ensures_def by (metis fst_conv snd_conv)+
  show "I (snd (bind_run m f st)) \<and> (sr_complete (snd (bind_run m f st)) \<longrightarrow> sr_complete st) \<and>
     (case fst (bind_run m f st) of Inl er \<Rightarrow> E er | Inr x \<Rightarrow> S x \<and> (sr_complete (snd (bind_run m f st)) \<longrightarrow> Opt x))"
  proof (cases out)
    case (Inl er)
    with m one show ?thesis by (simp add: bind_run_def)
  next
    case (Inr x)
    have "S1 x" using one(3) Inr by simp
    from assms(2) [OF this] one(1)
    have "I (snd (f x st1)) \<and> (sr_complete (snd (f x st1)) \<longrightarrow> sr_complete st1) \<and>
       (case fst (f x st1) of Inl er \<Rightarrow> E er | Inr y \<Rightarrow> S y \<and> (sr_complete (snd (f x st1)) \<longrightarrow> Opt1 x \<longrightarrow> Opt y))"
      unfolding ensures_def by blast
    then show ?thesis using one(2,3) m Inr by (auto simp: bind_run_def split: sum.splits)
  qed
qed

lemma ensures_weaken:
  assumes "ensures I E m S Opt" "\<And>er. E er \<Longrightarrow> E' er" "\<And>x. S x \<Longrightarrow> S' x" "\<And>x. S x \<Longrightarrow> Opt x \<Longrightarrow> Opt' x"
  shows "ensures I E' m S' Opt'"
  using assms unfolding ensures_def by (fastforce split: sum.splits)

lemma ensures_catching:
  assumes "ensures I E m S Opt"
    and "\<And>code. E (GrowthError code) \<Longrightarrow> S' (Inl code) \<and> Opt' (Inl code)"
    and "\<And>er. E er \<Longrightarrow> (\<forall>code. er \<noteq> GrowthError code) \<Longrightarrow> E' er"
    and "\<And>x. S x \<Longrightarrow> S' (Inr x)" "\<And>x. S x \<Longrightarrow> Opt x \<Longrightarrow> Opt' (Inr x)"
  shows "ensures I E' (catching m) S' Opt'"
  unfolding ensures_def
proof (intro allI impI)
  fix st assume I: "I st"
  obtain out st1 where m: "m st = (out, st1)" by (cases "m st")
  with assms(1) I have "I st1" "sr_complete st1 \<longrightarrow> sr_complete st"
    "case out of Inl er \<Rightarrow> E er | Inr x \<Rightarrow> S x \<and> (sr_complete st1 \<longrightarrow> Opt x)"
    unfolding ensures_def by (metis fst_conv snd_conv)+
  then show "I (snd (catching m st)) \<and> (sr_complete (snd (catching m st)) \<longrightarrow> sr_complete st) \<and>
     (case fst (catching m st) of Inl er \<Rightarrow> E' er | Inr x \<Rightarrow> S' x \<and> (sr_complete (snd (catching m st)) \<longrightarrow> Opt' x))"
    using m assms(2-) by (auto simp: catching_def split: sum.splits growth_error.splits)
qed

section \<open>One state\<close>

definition certified :: "search_env \<Rightarrow> gstate \<Rightarrow> nat \<Rightarrow> solution option \<Rightarrow> bool" where
  "certified e s depth v \<longleftrightarrow> (\<forall>sol. v = Some sol \<longrightarrow>
     guarantees e s depth (ca_node (so_candidate sol)) (ca_terminals (so_candidate sol)) \<and>
     so_lower sol = worst iv_lower (en_contract e) (ca_terminals (so_candidate sol)))"

definition optimal :: "search_env \<Rightarrow> gstate \<Rightarrow> nat \<Rightarrow> solution option \<Rightarrow> bool" where
  "optimal e s depth v \<longleftrightarrow> (\<forall>node ts. guarantees e s depth node ts \<longrightarrow>
     (\<exists>sol. v = Some sol \<and> worst iv_lower (en_contract e) ts \<le> so_lower sol \<and>
        worst iv_upper (en_contract e) ts \<le> so_upper sol))"

text \<open>Every stored entry is right for a state of its digest.\<close>

definition memo_ok :: "search_env \<Rightarrow> gstate set \<Rightarrow> search \<Rightarrow> bool" where
  "memo_ok e V st \<longleftrightarrow> (\<forall>d depth v. dict_get (sr_scalar_memo st) (d, depth) = Some v \<longrightarrow>
     (\<exists>s \<in> V. dg_state (en_digests e) s = d \<and> certified e s depth v \<and> optimal e s depth v))"

definition hard :: "growth_error \<Rightarrow> bool" where
  "hard er \<longleftrightarrow> (\<forall>code. er \<noteq> GrowthError code)"

abbreviation next_of :: "search_env \<Rightarrow> gstate \<Rightarrow> recipe \<Rightarrow> successor \<Rightarrow> growth_error + gstate" where
  "next_of e s r effect \<equiv> transition (en_digests e) (en_contract e) s r effect (en_objects e) (en_frontier e)"

lemma memo_ok_fields:
  "sr_scalar_memo st' = sr_scalar_memo st \<Longrightarrow> memo_ok e V st' = memo_ok e V st"
  by (simp add: memo_ok_def)

lemma ensures_take: "ensures (memo_ok e V) E (take_counter e name) (\<lambda>_. True) (\<lambda>ok. ok)"
  by (cases name) (auto simp: ensures_def take_counter_def take_run_def give_up_def memo_ok_def)

lemma ensures_give_up: "ensures (memo_ok e V) E (modify give_up) (\<lambda>_. True) (\<lambda>_. False)"
  by (simp add: ensures_def modify_def give_up_def memo_ok_def)

lemma ensures_witness_limit: "ensures (memo_ok e V) E (modify (note_code code \<circ> give_up)) (\<lambda>_. True) (\<lambda>_. False)"
  by (simp add: ensures_def modify_def give_up_def note_code_def memo_ok_def)

lemma ensures_note_code: "ensures (memo_ok e V) E (modify (note_code code)) (\<lambda>_. True) (\<lambda>_. True)"
  by (simp add: ensures_def modify_def note_code_def memo_ok_def)

lemma ensures_note_depth: "ensures (memo_ok e V) E (modify (note_depth depth)) (\<lambda>_. True) (\<lambda>_. True)"
  by (simp add: ensures_def modify_def note_depth_def memo_ok_def)

text \<open>A state before the endpoint in which the search decides.\<close>

definition undecided :: "search_env \<Rightarrow> gstate \<Rightarrow> nat \<Rightarrow> digest \<Rightarrow> bool" where
  "undecided e s depth d \<longleftrightarrow> terminal e s None = Inr False \<and> state_digest (en_digests e) s = Inr d \<and>
     (\<exists>stop. en_endpoint e = Some stop \<and> gs_elapsed s < stop) \<and> depth < gc_max_decisions (en_contract e)"

definition allowed :: "search_env \<Rightarrow> recipe \<Rightarrow> bool" where
  "allowed e r \<longleftrightarrow> r \<in> set (gc_actions (en_contract e)) \<and> set (en_excluded e) \<inter> set (re_interactions r) = {}"

text \<open>States a search may visit, with the initial one.\<close>

inductive_set visited :: "search_env \<Rightarrow> gstate \<Rightarrow> gstate set" for e s0 where
  start: "s0 \<in> visited e s0"
| move: "s \<in> visited e s0 \<Longrightarrow> en_endpoint e = Some stop \<Longrightarrow> gs_elapsed s < stop \<Longrightarrow> allowed e r \<Longrightarrow>
    next_of e s r effect = Inr t \<Longrightarrow> t \<in> visited e s0"

definition closed :: "search_env \<Rightarrow> gstate set \<Rightarrow> bool" where
  "closed e V \<longleftrightarrow> (\<forall>s \<in> V. normal s) \<and> (\<forall>s \<in> V. \<forall>depth d r effect t. undecided e s depth d \<longrightarrow> allowed e r \<longrightarrow>
     next_of e s r effect = Inr t \<longrightarrow> t \<in> V)"

lemma visited_closed:
  assumes "normal s0"
  shows "closed e (visited e s0)"
proof -
  have "normal s" if "s \<in> visited e s0" for s using that by induction (auto intro: assms transition_normal)
  then show ?thesis by (auto simp: closed_def undecided_def intro: visited.move)
qed

definition child_ok :: "search_env \<Rightarrow> gstate \<Rightarrow> nat \<Rightarrow> recipe \<Rightarrow> successor \<Rightarrow> solution \<Rightarrow> bool" where
  "child_ok e s depth r effect ch \<longleftrightarrow> (\<exists>t. next_of e s r effect = Inr t \<and> certified e t (Suc depth) (Some ch))"

definition child_best :: "search_env \<Rightarrow> gstate \<Rightarrow> nat \<Rightarrow> recipe \<Rightarrow> successor \<Rightarrow> solution \<Rightarrow> bool" where
  "child_best e s depth r effect ch \<longleftrightarrow> (\<forall>t. next_of e s r effect = Inr t \<longrightarrow> optimal e t (Suc depth) (Some ch))"

definition children_ok ::
  "search_env \<Rightarrow> gstate \<Rightarrow> nat \<Rightarrow> recipe \<Rightarrow> successor list \<Rightarrow> solution list \<Rightarrow> solution list \<Rightarrow> bool" where
  "children_ok e s depth r effects found chs \<longleftrightarrow> (\<exists>more. chs = found @ more \<and> length more \<le> length effects \<and>
     list_all2 (child_ok e s depth r) (take (length more) effects) more)"

text \<open>If a child is missing, some successor has no complete policy.\<close>

definition children_best ::
  "search_env \<Rightarrow> gstate \<Rightarrow> nat \<Rightarrow> recipe \<Rightarrow> successor list \<Rightarrow> solution list \<Rightarrow> solution list \<Rightarrow> bool" where
  "children_best e s depth r effects found chs \<longleftrightarrow> (\<exists>more. chs = found @ more \<and>
     list_all2 (child_best e s depth r) (take (length more) effects) more \<and>
     (length more < length effects \<longrightarrow>
        (\<exists>effect \<in> set effects. \<exists>t. next_of e s r effect = Inr t \<and> optimal e t (Suc depth) None)))"

lemma children_ok_here: "children_ok e s depth r effects found found"
  by (simp add: children_ok_def)

lemma children_ok_step:
  "child_ok e s depth r effect ch \<Longrightarrow> children_ok e s depth r effects (found @ [ch]) chs \<Longrightarrow>
   children_ok e s depth r (effect # effects) found chs"
  unfolding children_ok_def by (elim exE) (rule_tac x = "ch # more" in exI, simp)

lemma children_best_step:
  "child_best e s depth r effect ch \<Longrightarrow> children_best e s depth r effects (found @ [ch]) chs \<Longrightarrow>
   children_best e s depth r (effect # effects) found chs"
  unfolding children_best_def by (elim exE) (rule_tac x = "ch # more" in exI, auto)

lemma children_best_missing:
  "next_of e s r effect = Inr t \<Longrightarrow> optimal e t (Suc depth) None \<Longrightarrow> children_best e s depth r (effect # effects) found found"
  by (auto simp: children_best_def)

definition searches :: "gstate set \<Rightarrow> (gstate \<Rightarrow> nat \<Rightarrow> solution option run) \<Rightarrow> search_env \<Rightarrow> nat \<Rightarrow> bool" where
  "searches V recur e depth \<longleftrightarrow>
     (\<forall>t \<in> V. ensures (memo_ok e V) hard (recur t depth) (certified e t depth) (optimal e t depth))"

lemma children_of_ensures:
  assumes recur: "searches V recur e (Suc depth)"
    and V: "\<And>effect t. next_of e s r effect = Inr t \<Longrightarrow> t \<in> V"
  shows "ensures (memo_ok e V) (\<lambda>er. hard er \<or> (\<exists>effect \<in> set effects. \<exists>er. next_of e s r effect = Inl er))
    (children_of recur e s depth r effects found)
    (children_ok e s depth r effects found) (children_best e s depth r effects found)"
proof (induction effects arbitrary: found)
  case Nil
  show ?case by (auto simp: children_ok_def children_best_def intro: ensures_returns)
next
  case (Cons effect effects)
  let ?E = "\<lambda>er. hard er \<or> (\<exists>x \<in> set (effect # effects). \<exists>er. next_of e s r x = Inl er)"
  let ?S = "children_ok e s depth r (effect # effects) found"
  let ?B = "children_best e s depth r (effect # effects) found"
  have go_on: "ensures (memo_ok e V) ?E (case child of None \<Rightarrow> returns found
      | Some ch \<Rightarrow> children_of recur e s depth r effects (found @ [ch])) ?S (\<lambda>y. optimal e t (Suc depth) child \<longrightarrow> ?B y)"
    if t: "next_of e s r effect = Inr t" and cert: "certified e t (Suc depth) child" for t child
  proof (cases child)
    case None
    then show ?thesis using t by (auto intro!: ensures_returns children_ok_here children_best_missing)
  next
    case (Some ch)
    have "child_ok e s depth r effect ch" using t cert Some by (auto simp: child_ok_def)
    moreover have "optimal e t (Suc depth) child \<Longrightarrow> child_best e s depth r effect ch"
      using t Some by (simp add: child_best_def)
    ultimately show ?thesis using Cons.IH [of "found @ [ch]"] unfolding Some option.case
      by (elim ensures_weaken) (auto intro: children_ok_step children_best_step)
  qed
  have "ensures (memo_ok e V) ?E (bind_run (recur t (Suc depth)) (\<lambda>child. case child of None \<Rightarrow> returns found
      | Some ch \<Rightarrow> children_of recur e s depth r effects (found @ [ch]))) ?S ?B"
    if t: "next_of e s r effect = Inr t" for t
  proof (rule ensures_bind)
    show "ensures (memo_ok e V) ?E (recur t (Suc depth)) (certified e t (Suc depth)) (optimal e t (Suc depth))"
      using recur V [OF t] unfolding searches_def by (auto elim: ensures_weaken)
  qed (rule go_on [OF t])
  note step = this
  have l: "ensures (memo_ok e V) ?E (lift (next_of e s r effect)) (\<lambda>t. next_of e s r effect = Inr t) (\<lambda>_. True)"
    by (rule ensures_lift) auto
  have all: "ensures (memo_ok e V) ?E (bind_run (lift (next_of e s r effect)) (\<lambda>t. bind_run (recur t (Suc depth)) (\<lambda>child.
      case child of None \<Rightarrow> returns found | Some ch \<Rightarrow> children_of recur e s depth r effects (found @ [ch])))) ?S ?B"
    by (rule ensures_bind [OF l]) (simp only: simp_thms, erule step)
  show ?case unfolding children_of.simps
  proof (rule ensures_bind [OF ensures_take])
    fix ok
    show "ensures (memo_ok e V) ?E (if \<not> ok then returns found else
        bind_run (lift (next_of e s r effect)) (\<lambda>t. bind_run (recur t (depth + 1)) (\<lambda>child. case child of
          None \<Rightarrow> returns found | Some ch \<Rightarrow> children_of recur e s depth r effects (found @ [ch])))) ?S (\<lambda>y. ok \<longrightarrow> ?B y)"
      using all by (cases ok) (auto intro: ensures_returns children_ok_here)
  qed
qed

section \<open>One recipe\<close>

definition usable :: "search_env \<Rightarrow> gstate \<Rightarrow> recipe \<Rightarrow> bool" where
  "usable e s r \<longleftrightarrow> successors s r \<noteq> [] \<and>
     (\<exists>x. applicable (en_digests e) (en_contract e) s r (en_objects e) (en_frontier e) = Inr x)"

definition plays :: "search_env \<Rightarrow> gstate \<Rightarrow> nat \<Rightarrow> recipe \<Rightarrow> candidate list \<Rightarrow> bool" where
  "plays e s depth r cands \<longleftrightarrow> list_all2 (\<lambda>effect cand. \<exists>t. next_of e s r effect = Inr t \<and>
     guarantees e t (Suc depth) (ca_node cand) (ca_terminals cand)) (successors s r) cands"

definition bounded_by :: "search_env \<Rightarrow> solution \<Rightarrow> gstate list \<Rightarrow> bool" where
  "bounded_by e sol ts \<longleftrightarrow> worst iv_lower (en_contract e) ts \<le> so_lower sol \<and> worst iv_upper (en_contract e) ts \<le> so_upper sol"

lemma plays_terminals: "plays e s depth r cands \<Longrightarrow> ts \<in> set (map ca_terminals cands) \<Longrightarrow> ts \<noteq> []"
  by (auto simp: plays_def list_all2_conv_all_nth in_set_conv_nth dest!: guarantees_nonempty)

lemma plays_worst:
  "plays e s depth r cands \<Longrightarrow> successors s r \<noteq> [] \<Longrightarrow>
   worst bound c (concat (map ca_terminals cands)) = Min ((\<lambda>cand. worst bound c (ca_terminals cand)) ` set cands)"
  using plays_terminals [of e s depth r cands]
  by (subst worst_concat) (auto simp: plays_def image_comp comp_def)

lemma children_played:
  assumes "children_ok e s depth r (successors s r) [] chs" "length chs = length (successors s r)" "successors s r \<noteq> []"
  shows "plays e s depth r (map so_candidate chs) \<and>
    Min (set (map so_lower chs)) = worst iv_lower (en_contract e) (concat (map (\<lambda>ch. ca_terminals (so_candidate ch)) chs))"
proof -
  have ok: "list_all2 (child_ok e s depth r) (successors s r) chs" using assms by (auto simp: children_ok_def)
  have plays: "plays e s depth r (map so_candidate chs)"
    using ok by (auto simp: plays_def list_all2_map2 child_ok_def certified_def elim!: list_all2_mono)
  have "so_lower ch = worst iv_lower (en_contract e) (ca_terminals (so_candidate ch))" if "ch \<in> set chs" for ch
    using ok that by (auto simp: list_all2_conv_all_nth in_set_conv_nth child_ok_def certified_def)
  then show ?thesis using plays plays_worst [OF plays assms(3)] by (simp add: comp_def image_image)
qed

lemma children_bound:
  assumes "children_best e s depth r (successors s r) [] chs" "plays e s depth r cands" "successors s r \<noteq> []"
  shows "length chs \<ge> length (successors s r) \<and>
    worst iv_lower (en_contract e) (concat (map ca_terminals cands)) \<le> Min (set (map so_lower chs)) \<and>
    worst iv_upper (en_contract e) (concat (map ca_terminals cands)) \<le> Min (set (map so_upper chs))"
proof -
  have best: "list_all2 (child_best e s depth r) (take (length chs) (successors s r)) chs"
    and short: "length chs < length (successors s r) \<Longrightarrow>
      \<exists>effect \<in> set (successors s r). \<exists>t. next_of e s r effect = Inr t \<and> optimal e t (Suc depth) None"
    using assms(1) by (auto simp: children_best_def)
  have play: "\<exists>t cand. next_of e s r effect = Inr t \<and> cand \<in> set cands \<and>
      guarantees e t (Suc depth) (ca_node cand) (ca_terminals cand)" if "effect \<in> set (successors s r)" for effect
    using assms(2) that by (fastforce simp: plays_def list_all2_conv_all_nth in_set_conv_nth)
  have len: "length chs \<ge> length (successors s r)"
    using short play by (force simp: optimal_def not_le [symmetric])
  then have all: "list_all2 (child_best e s depth r) (successors s r) chs" using best by simp
  have each: "\<exists>cand \<in> set cands. bounded_by e ch (ca_terminals cand)" if ch: "ch \<in> set chs" for ch
  proof -
    obtain k where k: "k < length (successors s r)" "chs ! k = ch"
      using all ch by (auto simp: in_set_conv_nth list_all2_conv_all_nth)
    then obtain t cand where "next_of e s r (successors s r ! k) = Inr t" "cand \<in> set cands"
      "guarantees e t (Suc depth) (ca_node cand) (ca_terminals cand)"
      using play [of "successors s r ! k"] by auto
    moreover have "child_best e s depth r (successors s r ! k) ch" using all k by (auto simp: list_all2_conv_all_nth)
    ultimately show ?thesis by (auto simp: child_best_def optimal_def bounded_by_def)
  qed
  have ne: "chs \<noteq> []" using len assms(3) by auto
  have "worst bound (en_contract e) (concat (map ca_terminals cands)) \<le> Min (f ` set chs)"
    if f: "\<And>ch (cand :: candidate). bounded_by e ch (ca_terminals cand) \<Longrightarrow> worst bound (en_contract e) (ca_terminals cand) \<le> f ch" for bound f
    unfolding plays_worst [OF assms(2,3)]
  proof (rule Min.boundedI)
    fix x assume "x \<in> f ` set chs"
    then obtain ch cand where "x = f ch" "cand \<in> set cands" "bounded_by e ch (ca_terminals cand)" using each by blast
    then have "Min ((\<lambda>cand. worst bound (en_contract e) (ca_terminals cand)) ` set cands) \<le> worst bound (en_contract e) (ca_terminals cand)"
      "worst bound (en_contract e) (ca_terminals cand) \<le> x" using f by (simp_all add: \<open>x = f ch\<close>)
    then show "Min ((\<lambda>cand. worst bound (en_contract e) (ca_terminals cand)) ` set cands) \<le> x" by (rule order_trans)
  qed (use ne in auto)
  then show ?thesis using len by (simp add: bounded_by_def)
qed

definition choice_ok :: "search_env \<Rightarrow> gstate \<Rightarrow> nat \<Rightarrow> solution verdict \<Rightarrow> bool" where
  "choice_ok e s depth v \<longleftrightarrow> (\<forall>sol. v = Chosen sol \<longrightarrow> certified e s depth (Some sol))"

definition choice_best :: "search_env \<Rightarrow> gstate \<Rightarrow> nat \<Rightarrow> recipe \<Rightarrow> solution verdict \<Rightarrow> bool" where
  "choice_best e s depth r v \<longleftrightarrow> v \<noteq> Stop \<and> (\<forall>cands. usable e s r \<and> plays e s depth r cands \<longrightarrow>
     (\<exists>sol. v = Chosen sol \<and> bounded_by e sol (concat (map ca_terminals cands))))"

lemma decide_candidates:
  assumes "undecided e s depth d" "allowed e r" "plays e s depth r cands" "successors s r \<noteq> []"
    and "applicable (en_digests e) (en_contract e) s r (en_objects e) (en_frontier e) = Inr (a, cap)"
  shows "guarantees e s depth (branch_node (en_digests e) d (ac_id a) False (successors s r) cands)
    (concat (map ca_terminals cands))"
proof -
  obtain stop where "en_endpoint e = Some stop" "gs_elapsed s < stop" using assms(1) by (auto simp: undecided_def)
  with assms show ?thesis
    by (intro guarantees.decide [where stop = stop and r = r]) (simp_all add: undecided_def allowed_def plays_def)
qed

lemma scalar_pick_ensures:
  assumes s: "undecided e s depth d" "allowed e r"
    and app: "applicable (en_digests e) (en_contract e) s r (en_objects e) (en_frontier e) = Inr (a, cap)"
    and ne: "successors s r \<noteq> []" and ok: "children_ok e s depth r (successors s r) [] chs"
  shows "ensures (memo_ok e V) E (scalar_pick e d (ac_id a) (successors s r) chs) (choice_ok e s depth)
    (\<lambda>v. children_best e s depth r (successors s r) [] chs \<longrightarrow> choice_best e s depth r v)"
proof (cases "length chs = length (successors s r)")
  case False
  then have "length chs < length (successors s r)" using ok by (auto simp: children_ok_def)
  then have "children_best e s depth r (successors s r) [] chs \<Longrightarrow> \<not> plays e s depth r cands" for cands
    using children_bound [OF _ _ ne] by (metis not_le)
  then show ?thesis using False
    by (auto simp: scalar_pick_def choice_ok_def choice_best_def intro!: ensures_returns)
next
  case True
  note played = children_played [OF ok True ne]
  let ?sol = "\<lambda>u n. \<lparr>so_lower = Min (set (map so_lower chs)), so_upper = u, so_candidate = \<lparr>
      ca_node = branch_node (en_digests e) d (ac_id a) False (successors s r) (map so_candidate chs),
      ca_terminals = concat (map (\<lambda>ch. ca_terminals (so_candidate ch)) chs), ca_entries = [], ca_count = n\<rparr>\<rparr>"
  have good: "choice_ok e s depth (Chosen (?sol u n))" for u n
    using decide_candidates [OF s conjunct1 [OF played] ne app] conjunct2 [OF played]
    by (simp add: choice_ok_def certified_def comp_def)
  have best: "children_best e s depth r (successors s r) [] chs \<Longrightarrow>
      choice_best e s depth r (Chosen (?sol (Min (set (map so_upper chs))) n))" for n
    using children_bound [OF _ _ ne] by (simp add: choice_best_def bounded_by_def)
  let ?count = "1 + sum_list (map (\<lambda>ch. ca_count (so_candidate ch)) chs)"
  show ?thesis
  proof (cases "?count > li_max_witness_nodes (limits_of e)")
    case limit: True
    have "ensures (memo_ok e V) E (bind_run (modify (note_code ''growth_witness_limit'' \<circ> give_up)) (\<lambda>_. returns Skip))
        (choice_ok e s depth) (\<lambda>v. children_best e s depth r (successors s r) [] chs \<longrightarrow> choice_best e s depth r v)"
      by (rule ensures_bind [OF ensures_witness_limit]) (auto simp: choice_ok_def intro: ensures_returns)
    then show ?thesis using limit True by (simp add: scalar_pick_def)
  next
    case within: False
    have "ensures (memo_ok e V) E (bind_run (take_counter e Policies) (\<lambda>ok. if \<not> ok then returns Stop
          else returns (Chosen (?sol (Min (set (map so_upper chs))) ?count))))
        (choice_ok e s depth) (\<lambda>v. children_best e s depth r (successors s r) [] chs \<longrightarrow> choice_best e s depth r v)"
    proof (rule ensures_bind [OF ensures_take])
      fix ok
      show "ensures (memo_ok e V) E (if \<not> ok then returns Stop else returns (Chosen (?sol (Min (set (map so_upper chs))) ?count)))
          (choice_ok e s depth) (\<lambda>v. ok \<longrightarrow> children_best e s depth r (successors s r) [] chs \<longrightarrow> choice_best e s depth r v)"
        using good best by (cases ok) (auto simp: choice_ok_def intro!: ensures_returns)
    qed
    then show ?thesis using within True by (simp only: scalar_pick_def Let_def simp_thms if_False if_True)
  qed
qed

lemma scalar_choice_ensures:
  assumes recur: "searches V recur e (Suc depth)" and V: "closed e V" "s \<in> V" and s: "undecided e s depth d" "allowed e r"
  shows "ensures (memo_ok e V) (\<lambda>er. hard er \<or> \<not> (usable e s r \<and> (\<exists>cands. plays e s depth r cands)))
    (scalar_choice recur e d s depth r) (choice_ok e s depth) (choice_best e s depth r)"
proof -
  let ?E = "\<lambda>er. hard er \<or> \<not> (usable e s r \<and> (\<exists>cands. plays e s depth r cands))"
  have step: "t \<in> V" if "next_of e s r effect = Inr t" for effect t
    using V s that unfolding closed_def by blast
  have play: "\<exists>t. next_of e s r effect = Inr t" if "plays e s depth r cands" "effect \<in> set (successors s r)" for effect cands
    using that by (fastforce simp: plays_def list_all2_conv_all_nth in_set_conv_nth)
  have "ensures (memo_ok e V) ?E (bind_run (children_of recur e s depth r (successors s r) [])
      (scalar_pick e d (ac_id a) (successors s r))) (choice_ok e s depth) (choice_best e s depth r)"
    if app: "applicable (en_digests e) (en_contract e) s r (en_objects e) (en_frontier e) = Inr (a, cap)"
      and ne: "successors s r \<noteq> []" for a cap
  proof (rule ensures_bind)
    show "ensures (memo_ok e V) ?E (children_of recur e s depth r (successors s r) [])
        (children_ok e s depth r (successors s r) []) (children_best e s depth r (successors s r) [])"
      using children_of_ensures [OF recur step] by (rule ensures_weaken) (use play in force)+
  qed (rule scalar_pick_ensures [OF s app ne])
  moreover have "ensures (memo_ok e V) ?E (lift (Inl (GrowthError code))) (choice_ok e s depth) (choice_best e s depth r)"
    if "successors s r = []" for code
    using that by (intro ensures_lift) (auto simp: usable_def)
  ultimately have rest: "ensures (memo_ok e V) ?E (let effects = successors s r in
      if effects = [] then lift (Inl (GrowthError ''growth_successor_incomplete''))
      else bind_run (children_of recur e s depth r effects []) (scalar_pick e d (ac_id a) effects))
      (choice_ok e s depth) (choice_best e s depth r)"
    if "applicable (en_digests e) (en_contract e) s r (en_objects e) (en_frontier e) = Inr (a, cap)" for a cap
    using that by (simp add: Let_def)
  have l: "ensures (memo_ok e V) ?E (lift (applicable (en_digests e) (en_contract e) s r (en_objects e) (en_frontier e)))
      (\<lambda>x. applicable (en_digests e) (en_contract e) s r (en_objects e) (en_frontier e) = Inr x) (\<lambda>_. True)"
    by (rule ensures_lift) (auto simp: usable_def)
  show ?thesis unfolding scalar_choice_def
  proof (rule ensures_bind [OF l])
    fix x assume "applicable (en_digests e) (en_contract e) s r (en_objects e) (en_frontier e) = Inr x"
    then show "ensures (memo_ok e V) ?E (case x of (a, _) \<Rightarrow> let effects = successors s r in
        if effects = [] then lift (Inl (GrowthError ''growth_successor_incomplete''))
        else bind_run (children_of recur e s depth r effects []) (scalar_pick e d (ac_id a) effects))
      (choice_ok e s depth) (\<lambda>y. True \<longrightarrow> choice_best e s depth r y)"
      using rest by (cases x) simp
  qed
qed

section \<open>All recipes\<close>

definition covered :: "search_env \<Rightarrow> gstate \<Rightarrow> nat \<Rightarrow> recipe \<Rightarrow> solution list \<Rightarrow> bool" where
  "covered e s depth r choices \<longleftrightarrow> (\<forall>cands. allowed e r \<and> usable e s r \<and> plays e s depth r cands \<longrightarrow>
     (\<exists>sol \<in> set choices. bounded_by e sol (concat (map ca_terminals cands))))"

definition choices_ok :: "search_env \<Rightarrow> gstate \<Rightarrow> nat \<Rightarrow> solution list \<Rightarrow> solution list \<Rightarrow> bool" where
  "choices_ok e s depth before choices \<longleftrightarrow> set before \<subseteq> set choices \<and>
     ((\<forall>sol \<in> set before. certified e s depth (Some sol)) \<longrightarrow> (\<forall>sol \<in> set choices. certified e s depth (Some sol)))"

lemma choices_ok_refl [simp]: "choices_ok e s depth xs xs"
  by (simp add: choices_ok_def)

lemma choices_ok_more: "certified e s depth (Some sol) \<Longrightarrow> choices_ok e s depth (xs @ [sol]) ys \<Longrightarrow> choices_ok e s depth xs ys"
  by (simp add: choices_ok_def ball_Un)

definition outcome_ok :: "search_env \<Rightarrow> gstate \<Rightarrow> nat \<Rightarrow> recipe \<Rightarrow> string + solution verdict \<Rightarrow> bool" where
  "outcome_ok e s depth r out \<longleftrightarrow> (case out of Inl code \<Rightarrow> (\<forall>xs. covered e s depth r xs) | Inr v \<Rightarrow> choice_ok e s depth v)"

definition outcome_best :: "search_env \<Rightarrow> gstate \<Rightarrow> nat \<Rightarrow> recipe \<Rightarrow> string + solution verdict \<Rightarrow> bool" where
  "outcome_best e s depth r out \<longleftrightarrow> (case out of Inl code \<Rightarrow> True | Inr v \<Rightarrow> choice_best e s depth r v)"

lemma tried_recipe:
  assumes "searches V recur e (Suc depth)" "closed e V" "s \<in> V" "undecided e s depth d" "allowed e r"
  shows "ensures (memo_ok e V) hard (catching (scalar_choice recur e d s depth r)) (outcome_ok e s depth r) (outcome_best e s depth r)"
  by (rule ensures_catching [OF scalar_choice_ensures [OF assms]])
     (auto simp: hard_def covered_def outcome_ok_def outcome_best_def)

lemma scalar_choices_ensures:
  assumes recur: "searches V recur e (Suc depth)" and V: "closed e V" "s \<in> V" and s: "undecided e s depth d" and rs: "set rs \<subseteq> set (gc_actions (en_contract e))"
  shows "ensures (memo_ok e V) hard (scalar_choices recur e d s depth rs choices)
    (choices_ok e s depth choices) (\<lambda>out. \<forall>r \<in> set rs. covered e s depth r out)"
  using rs
proof (induction rs arbitrary: choices)
  case Nil
  show ?case by (simp add: ensures_returns)
next
  case (Cons r rs)
  have IH: "ensures (memo_ok e V) hard (scalar_choices recur e d s depth rs xs)
      (choices_ok e s depth xs) (\<lambda>out. \<forall>r \<in> set rs. covered e s depth r out)" for xs
    using Cons.IH [of xs] Cons.prems by simp
  have with_r: "ensures (memo_ok e V) hard (scalar_choices recur e d s depth rs xs) (choices_ok e s depth choices)
      (\<lambda>y. P \<longrightarrow> (\<forall>r \<in> set (r # rs). covered e s depth r y))"
    if "\<And>y. P \<Longrightarrow> choices_ok e s depth xs y \<Longrightarrow> covered e s depth r y"
      "\<And>y. choices_ok e s depth xs y \<Longrightarrow> choices_ok e s depth choices y" for xs P
    using IH [of xs] by (rule ensures_weaken) (use that in auto)
  show ?case
  proof (cases "allowed e r")
    case False
    then have "set (en_excluded e) \<inter> set (re_interactions r) \<noteq> {}" using Cons.prems by (auto simp: allowed_def)
    moreover have "covered e s depth r out" for out using False by (simp add: covered_def)
    ultimately show ?thesis using with_r [of True choices] by simp
  next
    case True
    have step: "ensures (memo_ok e V) hard (case out of
          Inl code \<Rightarrow> bind_run (modify (note_code code)) (\<lambda>_. scalar_choices recur e d s depth rs choices)
        | Inr Skip \<Rightarrow> scalar_choices recur e d s depth rs choices
        | Inr Stop \<Rightarrow> returns choices
        | Inr (Chosen c) \<Rightarrow> scalar_choices recur e d s depth rs (choices @ [c]))
      (choices_ok e s depth choices) (\<lambda>y. outcome_best e s depth r out \<longrightarrow> (\<forall>r \<in> set (r # rs). covered e s depth r y))"
      if out: "outcome_ok e s depth r out" for out
    proof (cases out)
      case (Inl code)
      then show ?thesis using out with_r [of True choices]
        by (auto simp: outcome_ok_def outcome_best_def intro!: ensures_bind [OF ensures_note_code])
    next
      case (Inr v)
      show ?thesis
      proof (cases v)
        case Skip
        then show ?thesis using Inr with_r [of "choice_best e s depth r v" choices]
          by (auto simp: outcome_best_def choice_best_def covered_def)
      next
        case Stop
        then show ?thesis using Inr by (auto simp: outcome_best_def choice_best_def intro!: ensures_returns)
      next
        case (Chosen sol)
        then have "choices_ok e s depth (choices @ [sol]) y \<Longrightarrow> choices_ok e s depth choices y" for y
          using out Inr choices_ok_more by (simp add: outcome_ok_def choice_ok_def)
        moreover have "choice_best e s depth r v \<Longrightarrow> choices_ok e s depth (choices @ [sol]) y \<Longrightarrow> covered e s depth r y" for y
          using Chosen by (auto simp: choice_best_def covered_def choices_ok_def)
        ultimately show ?thesis using Inr Chosen with_r [of "choice_best e s depth r v" "choices @ [sol]"]
          by (simp add: outcome_best_def)
      qed
    qed
    have "set (en_excluded e) \<inter> set (re_interactions r) = {}" using True by (simp add: allowed_def)
    then show ?thesis using ensures_bind [OF tried_recipe [OF recur V s True] step] by simp
  qed
qed

section \<open>The best choice\<close>

lemma min_fold_least:
  fixes key :: "'a \<Rightarrow> 'k :: linorder"
  defines "m ys y \<equiv> fold (\<lambda>x best. if key x < key best then x else best) ys y"
  shows "m ys y \<in> insert y (set ys) \<and> (\<forall>x \<in> insert y (set ys). key (m ys y) \<le> key x)"
  unfolding m_def
proof (induction ys arbitrary: y)
  case (Cons z ys)
  show ?case
  proof (cases "key z < key y")
    case True
    then show ?thesis using Cons.IH [of z] by (auto intro: order_trans less_imp_le)
  next
    case False
    then show ?thesis using Cons.IH [of y] by (auto simp: not_less intro: order_trans)
  qed
qed simp

lemma min_by_least:
  assumes "min_by key xs = Some m"
  shows "m \<in> set xs" "x \<in> set xs \<Longrightarrow> key m \<le> key x"
proof -
  obtain y ys where "xs = y # ys" "m = fold (\<lambda>x best. if key x < key best then x else best) ys y"
    using assms by (auto simp: min_by_def split: list.splits)
  with min_fold_least [of key ys y] show "m \<in> set xs" "x \<in> set xs \<Longrightarrow> key m \<le> key x" by auto
qed

lemma best_choice_None [simp]: "best_choice dg choices = None \<longleftrightarrow> choices = []"
  by (simp add: best_choice_def min_by_def split: list.splits)

lemma best_choice_Some:
  assumes "best_choice dg choices = Some best"
  obtains p where "p \<in> set choices" "so_candidate best = so_candidate p" "so_lower best = so_lower p"
    "\<And>sol. sol \<in> set choices \<Longrightarrow> so_lower sol \<le> so_lower best \<and> so_upper sol \<le> so_upper best"
proof -
  let ?key = "\<lambda>p. let node = ca_node (so_candidate p)
                    in (- so_lower p, case pn_action node of None \<Rightarrow> '''' | Some a \<Rightarrow> a, dg_node dg node)"
  obtain p where p: "min_by ?key choices = Some p" "best = p\<lparr>so_upper := Max (set (map so_upper choices))\<rparr>"
    using assms by (auto simp: best_choice_def)
  have "so_lower sol \<le> so_lower p" if "sol \<in> set choices" for sol
    using min_by_least(2) [OF p(1) that] by (auto simp: Let_def less_eq_prod_def)
  then show thesis using that [OF min_by_least(1) [OF p(1)]] p(2) by auto
qed

section \<open>The whole recursion\<close>

inductive_cases guarantees_elim: "guarantees e s depth node ts"

lemma guarantees_ended: "guarantees e s depth node ts \<Longrightarrow> terminal e s None = Inr True \<Longrightarrow> ts = [s]"
  by (erule guarantees_elim) auto

lemma guarantees_decided:
  assumes "guarantees e s depth node ts" "terminal e s None = Inr False"
  obtains r cands where "allowed e r" "usable e s r" "plays e s depth r cands" "ts = concat (map ca_terminals cands)"
    "depth < gc_max_decisions (en_contract e)" "\<exists>stop. en_endpoint e = Some stop \<and> gs_elapsed s < stop"
  using assms(1)
proof (cases rule: guarantees.cases)
  case (decide d stop r a cap cands)
  then show thesis using that [of r cands] by (auto simp: allowed_def usable_def plays_def)
qed (use assms(2) in simp)

lemma attainment_hard: "attainment bound c s = Inl er \<Longrightarrow> hard er"
  by (auto simp: attainment_def attainment_of_def item_def hard_def res_bind_Inl require_def split: option.splits if_splits sum.splits)

lemma sorted_recipes_hard: "sorted_recipes e = Inl er \<Longrightarrow> hard er"
proof -
  have "map_res (\<lambda>r. res_bind (action_at (en_objects e) (re_action_digest r)) (\<lambda>a. Inr (ac_id a, r))) rs = Inl er \<Longrightarrow> hard er" for rs
    by (induction rs) (auto simp: action_at_def item_def hard_def res_bind_Inl split: option.splits sum.splits document.splits)
  then show "sorted_recipes e = Inl er \<Longrightarrow> hard er" by (auto simp: sorted_recipes_def res_bind_Inl)
qed

lemma sorted_recipes_set:
  assumes "sorted_recipes e = Inr rs"
  shows "set rs = set (gc_actions (en_contract e))"
proof -
  have keyed: "map_res (\<lambda>r. res_bind (action_at (en_objects e) (re_action_digest r)) (\<lambda>a. Inr (ac_id a, r))) rs = Inr ks \<Longrightarrow>
      map snd ks = rs" for rs ks
    by (induction rs arbitrary: ks) (auto simp: res_bind_Inr)
  obtain ks where ks: "map_res (\<lambda>r. res_bind (action_at (en_objects e) (re_action_digest r)) (\<lambda>a. Inr (ac_id a, r)))
      (gc_actions (en_contract e)) = Inr ks" and rs: "rs = map snd (sort_key fst ks)"
    using assms by (auto simp: sorted_recipes_def res_bind_Inr)
  have "set rs = set (map snd ks)" using rs by simp
  with keyed [OF ks] show ?thesis by simp
qed

lemma ensures_store:
  assumes "ensures I E m S1 Opt1" "\<And>x. S1 x \<Longrightarrow> S (g x)" "\<And>x. S1 x \<Longrightarrow> Opt1 x \<Longrightarrow> Opt (g x)"
    and "\<And>st x. I st \<Longrightarrow> S1 x \<Longrightarrow> Opt1 x \<Longrightarrow> I (store x st) \<and> sr_complete (store x st) = sr_complete st"
  shows "ensures I E (bind_run m (\<lambda>x. bind_run (modify (\<lambda>st. if sr_complete st then store x st else st)) (\<lambda>_. returns (g x)))) S Opt"
  unfolding ensures_def
proof (intro allI impI)
  fix st assume I: "I st"
  obtain out st1 where m: "m st = (out, st1)" by (cases "m st")
  with assms(1) I have one: "I st1" "sr_complete st1 \<longrightarrow> sr_complete st"
    "case out of Inl er \<Rightarrow> E er | Inr x \<Rightarrow> S1 x \<and> (sr_complete st1 \<longrightarrow> Opt1 x)"
    unfolding ensures_def by (metis fst_conv snd_conv)+
  then show "I (snd (bind_run m (\<lambda>x. bind_run (modify (\<lambda>st. if sr_complete st then store x st else st)) (\<lambda>_. returns (g x))) st)) \<and>
    (sr_complete (snd (bind_run m (\<lambda>x. bind_run (modify (\<lambda>st. if sr_complete st then store x st else st)) (\<lambda>_. returns (g x))) st)) \<longrightarrow>
      sr_complete st) \<and>
    (case fst (bind_run m (\<lambda>x. bind_run (modify (\<lambda>st. if sr_complete st then store x st else st)) (\<lambda>_. returns (g x))) st) of
      Inl er \<Rightarrow> E er
    | Inr x \<Rightarrow> S x \<and> (sr_complete (snd (bind_run m (\<lambda>x. bind_run (modify (\<lambda>st. if sr_complete st then store x st else st)) (\<lambda>_. returns (g x))) st)) \<longrightarrow> Opt x))"
    using m assms(2-4) by (cases out) (auto simp: bind_run_def modify_def returns_def)
qed

lemma ensures_known:
  assumes inj: "inj_on (dg_state (en_digests e)) V" and s: "s \<in> V" "dg_state (en_digests e) s = d"
  shows "ensures (memo_ok e V) E (get_run (\<lambda>st. dict_get (sr_scalar_memo st) (d, depth)))
    (\<lambda>known. \<forall>v. known = Some v \<longrightarrow> certified e s depth v \<and> optimal e s depth v) (\<lambda>_. True)"
proof -
  have "certified e s depth v \<and> optimal e s depth v" if "memo_ok e V st" "dict_get (sr_scalar_memo st) (d, depth) = Some v" for st v
  proof -
    from that obtain t where "t \<in> V" "dg_state (en_digests e) t = d" "certified e t depth v" "optimal e t depth v"
      unfolding memo_ok_def by blast
    moreover from this have "t = s" using inj s by (auto simp: inj_on_def)
    ultimately show ?thesis by simp
  qed
  then show ?thesis by (auto simp: ensures_def get_run_def)
qed

lemma best_certified:
  assumes "choices_ok e s depth [] choices"
  shows "certified e s depth (best_choice dg choices)"
proof (cases "best_choice dg choices")
  case (Some best)
  then obtain p where "p \<in> set choices" "so_candidate best = so_candidate p" "so_lower best = so_lower p"
    by (rule best_choice_Some)
  moreover from this(1) have "certified e s depth (Some p)" using assms by (auto simp: choices_ok_def)
  ultimately show ?thesis using Some by (simp add: certified_def)
next
  case None
  show ?thesis unfolding None by (simp add: certified_def)
qed

lemma best_optimal:
  assumes "undecided e s depth d" "\<forall>r \<in> set (gc_actions (en_contract e)). covered e s depth r choices"
  shows "optimal e s depth (best_choice dg choices)"
  unfolding optimal_def
proof (intro allI impI)
  fix node ts assume "guarantees e s depth node ts"
  then obtain r cands where r: "allowed e r" "usable e s r" "plays e s depth r cands" "ts = concat (map ca_terminals cands)"
    by (rule guarantees_decided) (use assms(1) in \<open>auto simp: undecided_def\<close>)
  moreover have "r \<in> set (gc_actions (en_contract e))" using r(1) by (simp add: allowed_def)
  ultimately obtain sol where sol: "sol \<in> set choices" "bounded_by e sol ts"
    using assms(2) unfolding covered_def by blast
  then obtain best where best: "best_choice dg choices = Some best" by (cases "best_choice dg choices") auto
  then have "so_lower sol \<le> so_lower best \<and> so_upper sol \<le> so_upper best"
    by (rule best_choice_Some) (use sol(1) in blast)
  with sol(2) best show "\<exists>sol. best_choice dg choices = Some sol \<and> worst iv_lower (en_contract e) ts \<le> so_lower sol \<and>
      worst iv_upper (en_contract e) ts \<le> so_upper sol"
    by (auto simp: bounded_by_def)
qed

lemma ended_certified:
  assumes "terminal e s None = Inr True" "state_digest (en_digests e) s = Inr d"
    and "attainment iv_lower (en_contract e) s = Inr lower" "attainment iv_upper (en_contract e) s = Inr upper"
  defines "v \<equiv> Some \<lparr>so_lower = lower, so_upper = upper,
     so_candidate = \<lparr>ca_node = leaf d, ca_terminals = [s], ca_entries = [], ca_count = 1\<rparr>\<rparr>"
  shows "certified e s depth v \<and> optimal e s depth v"
  using assms guarantees.ended [OF assms(1,2)] guarantees_ended [OF _ assms(1)]
  by (auto simp: certified_def optimal_def value_at_def dest!: guarantees_ended)


lemma scalar_end_ensures:
  assumes "terminal e s None = Inr True" "state_digest (en_digests e) s = Inr d"
  shows "ensures (memo_ok e V) hard (scalar_end e d s) (certified e s depth) (optimal e s depth)"
proof -
  have l: "ensures (memo_ok e V) hard (lift (attainment b (en_contract e) s)) (\<lambda>x. attainment b (en_contract e) s = Inr x) (\<lambda>_. True)" for b
    by (rule ensures_lift) (auto intro: attainment_hard)
  show ?thesis
    unfolding scalar_end_def
    using ended_certified [OF assms] by (intro ensures_bind [OF l] ensures_returns) auto
qed

lemma memo_ok_store:
  assumes "memo_ok e V st" "s \<in> V" "certified e s depth v" "optimal e s depth v"
  shows "memo_ok e V (st\<lparr>sr_scalar_memo := dict_set (sr_scalar_memo st) (dg_state (en_digests e) s, depth) v\<rparr>)"
  using assms unfolding memo_ok_def by (auto split: if_splits)

lemma scalar_best_ensures:
  assumes recur: "searches V recur e (Suc depth)" and V: "closed e V" and s: "s \<in> V"
    and und: "undecided e s depth (dg_state (en_digests e) s)"
  shows "ensures (memo_ok e V) hard (scalar_best recur e (dg_state (en_digests e) s) s depth)
    (certified e s depth) (optimal e s depth)"
proof -
  have l: "ensures (memo_ok e V) hard (lift (sorted_recipes e)) (\<lambda>rs. sorted_recipes e = Inr rs) (\<lambda>_. True)"
    by (rule ensures_lift) (auto intro: sorted_recipes_hard)
  show ?thesis unfolding scalar_best_def Let_def
  proof (rule ensures_bind [OF l])
    fix rs assume "sorted_recipes e = Inr rs"
    then have rs: "set rs = set (gc_actions (en_contract e))" by (rule sorted_recipes_set)
    then have sub: "set rs \<subseteq> set (gc_actions (en_contract e))" by simp
    have best: "choices_ok e s depth [] choices \<Longrightarrow> certified e s depth (best_choice (en_digests e) choices)"
      "\<forall>r \<in> set rs. covered e s depth r choices \<Longrightarrow> optimal e s depth (best_choice (en_digests e) choices)" for choices
      using best_certified best_optimal [OF und] rs by auto
    show "ensures (memo_ok e V) hard (bind_run (scalar_choices recur e (dg_state (en_digests e) s) s depth rs []) (\<lambda>choices.
        bind_run (modify (\<lambda>st. if sr_complete st then st\<lparr>sr_scalar_memo := dict_set (sr_scalar_memo st)
            (dg_state (en_digests e) s, depth) (best_choice (en_digests e) choices)\<rparr> else st))
        (\<lambda>_. returns (best_choice (en_digests e) choices)))) (certified e s depth) (\<lambda>y. True \<longrightarrow> optimal e s depth y)"
      unfolding simp_thms
      by (intro ensures_store [OF scalar_choices_ensures [OF recur V s und sub]]) (use best s memo_ok_store in auto)
  qed
qed

lemma late_optimal:
  assumes "terminal e s None = Inr False" "en_endpoint e = Some stop"
    and "gs_elapsed s \<ge> stop \<or> depth \<ge> gc_max_decisions (en_contract e)"
  shows "optimal e s depth None"
  unfolding optimal_def by (auto elim!: guarantees_decided [OF _ assms(1)]) (use assms(2,3) in auto)

lemma scalar_body_ensures:
  assumes inj: "inj_on (dg_state (en_digests e)) V" and V: "closed e V" and endpoint: "en_endpoint e = Some stop"
    and recur: "searches V recur e (Suc depth)" and s: "s \<in> V"
  shows "ensures (memo_ok e V) hard (scalar_body recur e s depth) (certified e s depth) (optimal e s depth)"
proof -
  let ?d = "dg_state (en_digests e) s" and ?S = "certified e s depth" and ?O = "optimal e s depth"
  have d: "state_digest (en_digests e) s = Inr ?d" using s V by (auto simp: closed_def intro: normal_digest)
  have none: "?S None" by (simp add: certified_def)
  let ?go = "\<lambda>ended. if ended then scalar_end e ?d s
            else case en_endpoint e of None \<Rightarrow> lift (Inl (GrowthError ''growth_scalar_endpoint_required''))
            | Some stop \<Rightarrow>
              if gs_elapsed s \<ge> stop \<or> depth \<ge> gc_max_decisions (en_contract e) then returns None
              else if depth \<ge> li_max_depth (limits_of e) then bind_run (modify give_up) (\<lambda>_. returns None)
              else scalar_best recur e ?d s depth"
  have go: "ensures (memo_ok e V) hard (?go ended) ?S ?O" if t: "terminal e s None = Inr ended" for ended
  proof (cases ended)
    case True
    then show ?thesis using scalar_end_ensures [OF _ d] t by simp
  next
    case False
    have t': "terminal e s None = Inr False" using t False by simp
    consider "gs_elapsed s \<ge> stop \<or> depth \<ge> gc_max_decisions (en_contract e)"
      | "undecided e s depth ?d"
      by (cases "gs_elapsed s \<ge> stop \<or> depth \<ge> gc_max_decisions (en_contract e)")
        (auto simp: undecided_def not_le endpoint d t')
    then show ?thesis
    proof cases
      case 1
      then show ?thesis using False endpoint none late_optimal [OF t' endpoint 1] by (simp add: ensures_returns)
    next
      case 2
      have "ensures (memo_ok e V) hard (bind_run (modify give_up) (\<lambda>_. returns None)) ?S ?O"
        using none by (intro ensures_bind [OF ensures_give_up] ensures_returns) auto
      then show ?thesis using False endpoint 2 scalar_best_ensures [OF recur V s 2]
        by (auto simp: undecided_def)
    qed
  qed
  have l: "ensures (memo_ok e V) hard (lift (terminal e s None)) (\<lambda>x. terminal e s None = Inr x) (\<lambda>_. True)"
    using endpoint by (intro ensures_lift) (auto simp: terminal_def)
  have fresh: "ensures (memo_ok e V) hard (bind_run (take_counter e States) (\<lambda>ok. if \<not> ok then returns None
       else bind_run (modify (note_depth depth)) (\<lambda>_. bind_run (lift (terminal e s None)) ?go))) ?S ?O"
  proof (rule ensures_bind [OF ensures_take])
    fix ok
    have "ensures (memo_ok e V) hard (bind_run (modify (note_depth depth)) (\<lambda>_. bind_run (lift (terminal e s None)) ?go)) ?S ?O"
      using go by (intro ensures_bind [OF ensures_note_depth] ensures_bind [OF l]) (simp only: simp_thms)
    then show "ensures (memo_ok e V) hard (if \<not> ok then returns None
       else bind_run (modify (note_depth depth)) (\<lambda>_. bind_run (lift (terminal e s None)) ?go)) ?S (\<lambda>y. ok \<longrightarrow> ?O y)"
      using none by (cases ok) (auto intro: ensures_returns)
  qed
  let ?rest = "bind_run (take_counter e States) (\<lambda>ok. if \<not> ok then returns None
       else bind_run (modify (note_depth depth)) (\<lambda>_. bind_run (lift (terminal e s None)) ?go))"
  let ?find = "get_run (\<lambda>st. dict_get (sr_scalar_memo st) (?d, depth))"
  have rest: "ensures (memo_ok e V) hard (case known of None \<Rightarrow> ?rest | Some v \<Rightarrow> returns v) ?S (\<lambda>y. True \<longrightarrow> ?O y)"
    if "\<forall>v. known = Some v \<longrightarrow> ?S v \<and> ?O v" for known
    using that fresh by (cases known) (auto intro: ensures_returns)
  have start: "bind_run (lift (Inr x)) f = f x" for x and f :: "digest \<Rightarrow> solution option run"
    by (auto simp: bind_run_def lift_def)
  show ?thesis unfolding scalar_body_def d start
    by (rule ensures_bind [OF ensures_known [OF inj s refl]]) (rule rest)
qed

lemma scalar_from_searches:
  assumes "inj_on (dg_state (en_digests e)) V" "closed e V" "en_endpoint e = Some stop"
  shows "searches V (scalar_from n e) e depth"
proof (induction n arbitrary: depth)
  case 0
  show ?case unfolding searches_def by (auto simp: hard_def intro!: ensures_lift)
next
  case (Suc n)
  show ?case unfolding searches_def
    using scalar_body_ensures [OF assms Suc.IH] by simp
qed

end
