(* ===== verification/Search_Bounds.thy ===== *)
theory Search_Bounds
  imports Search_Facts
begin

text \<open>
  What every search of the growth planner keeps, complete or not: its counters stay within the limits it was
  given, and its recursion never runs out of decisions.
\<close>

section \<open>Calls that end\<close>

text \<open>\<open>ends m\<close>: the call returns or raises; the rules follow the structure of the model's functions.\<close>

definition ends :: "growth_error + 'a \<Rightarrow> bool" where
  "ends m \<longleftrightarrow> m \<noteq> Inl Diverges"

named_theorems ends_rules

lemma ends_Inr [simp, ends_rules]: "ends (Inr x)"
  by (simp add: ends_def)

lemma ends_Inl [simp]: "ends (Inl e) \<longleftrightarrow> e \<noteq> Diverges"
  by (simp add: ends_def)

lemma ends_require [ends_rules]: "e \<noteq> Diverges \<Longrightarrow> ends k \<Longrightarrow> ends (require c e k)"
  by (simp add: require_def)

lemma ends_bind [ends_rules]: "ends m \<Longrightarrow> (\<And>x. m = Inr x \<Longrightarrow> ends (f x)) \<Longrightarrow> ends (res_bind m f)"
  by (cases m) auto

lemma ends_res_require [ends_rules]: "ends m \<Longrightarrow> e \<noteq> Diverges \<Longrightarrow> ends k \<Longrightarrow> ends (res_require m e k)"
  unfolding res_require_def by (intro ends_rules)

lemma ends_item [ends_rules]: "ends (item d k)"
  by (simp add: ends_def)

lemma ends_first_of [ends_rules]: "ends (first_of P xs)"
  by (auto simp: ends_def dest: first_of_Inl)

lemma ends_all_in [ends_rules]: "(\<And>x. x \<in> set xs \<Longrightarrow> ends (f x)) \<Longrightarrow> ends (all_in f xs)"
  by (auto simp: ends_def dest!: all_in_Inl)

lemma ends_each [ends_rules]: "(\<And>x. x \<in> set xs \<Longrightarrow> ends (f x)) \<Longrightarrow> ends (each f xs)"
  by (auto simp: ends_def dest!: each_Inl)

lemma ends_any_in [ends_rules]: "(\<And>x. x \<in> set xs \<Longrightarrow> ends (f x)) \<Longrightarrow> ends (any_in f xs)"
  by (induction xs) (auto intro!: ends_rules)

lemma ends_map_res [ends_rules]: "(\<And>x. x \<in> set xs \<Longrightarrow> ends (f x)) \<Longrightarrow> ends (map_res f xs)"
  by (induction xs) (auto intro!: ends_rules)

lemma ends_sum_res [ends_rules]: "(\<And>x. x \<in> set xs \<Longrightarrow> ends (f x)) \<Longrightarrow> ends (sum_res f xs)"
  by (induction xs) (auto intro!: ends_rules)

lemma ends_fold_res [ends_rules]: "(\<And>x s. x \<in> set xs \<Longrightarrow> ends (f x s)) \<Longrightarrow> ends (fold_res f xs s)"
  by (induction xs arbitrary: s) (auto intro!: ends_rules)

lemma ends_objects [ends_rules]: "ends (action_at os d)" "ends (capability_at os d)" "ends (units_at os d)"
  by (auto simp: action_at_def capability_at_def units_at_def ends_def res_bind_Inl split: document.splits)

lemma ends_time_scale [ends_rules]: "ends (time_scale c os)"
  using time_scale_returns by (simp add: ends_def)

lemma ends_check_use [ends_rules]: "ends (check_use dg c os fr s a finish)"
  using check_use_no_divergence by (simp add: ends_def)

lemma ends_normalize [ends_rules]: "ends (normalize s)" "ends (state_digest dg s)"
  unfolding normalize_def state_digest_def Let_def by (intro ends_rules; simp)+

lemma ends_checks [ends_rules]: "ends (check_intervals vs b)" "ends (check_nonnegative ns)" "ends (make_checkpoint t caps)"
  unfolding check_intervals_def check_nonnegative_def make_checkpoint_def by (intro ends_rules; simp)+

lemma ends_check_state [ends_rules]: "ends (check_state c s)"
proof -
  have q: "ends (check_queue c s queue limits seen)" for queue limits seen
    unfolding check_queue_def work_step_def by (auto intro!: ends_rules split: prod.splits)
  have d: "ends (check_domain s kd)" for kd
    unfolding check_domain_def by (auto intro!: ends_rules split: prod.splits)
  have r: "ends (fold_res (reservation_step c s) rs [])" for rs
    unfolding reservation_step_def by (auto intro!: ends_rules)
  have h: "ends (check_shared c s reserved ka)" for reserved ka
    unfolding check_shared_def by (auto intro!: ends_rules split: prod.splits)
  have p: "ends (check_checkpoint c s p)" for p
    unfolding check_checkpoint_def by (auto intro!: ends_rules)
  show ?thesis unfolding check_state_def by (auto intro!: ends_rules q d r h p split: prod.splits)
qed

lemma ends_applicable [ends_rules]: "ends (applicable dg c s r os fr)"
  unfolding applicable_def by (auto intro!: ends_rules split: prod.splits option.splits)

lemma ends_settle_work [ends_rules]: "ends (settle_work c s effect queues debts finish)"
  unfolding settle_work_def completion_step_def service_step_def Let_def
  by (auto intro!: ends_rules split: prod.splits)

lemma ends_charge_category [ends_rules]: "ends (charge_category ca acc)"
  unfolding charge_category_def charge_step_def by (auto intro!: ends_rules split: prod.splits)

lemma ends_steps [ends_rules]: "ends (capacity_step kd caps)" "ends (check_required_object c os scale start finish d)"
    "ends (crossing_step s cs finish t cps)" "ends (premises_last vs names finish)"
  unfolding capacity_step_def check_required_object_def crossing_step_def premises_last_def Let_def
  by (auto intro!: ends_rules split: prod.splits option.splits)

lemma ends_transition_ledger [ends_rules]: "ends (transition_ledger c s r effect os a cap)"
  unfolding transition_ledger_def Let_def by (auto intro!: ends_rules split: prod.splits)

lemma ends_frontier [ends_rules]: "ends (binding_live c os fr s a finish)" "ends (conditions rule s finish)"
    "ends (check_frontier_state dg s fr)"
  using binding_live_returns conditions_returns check_frontier_state_returns by (simp_all add: ends_def)

lemma ends_with_frontier [ends_rules]: "ends (with_frontier s f)"
  unfolding with_frontier_def base_state_def Let_def by (auto intro!: ends_rules)

lemma ends_activate [ends_rules]: "ends (activate dg c os fr s t r effect)"
  unfolding activate_def activate_rule_def activate_target_def Let_def
  by (auto intro!: ends_rules split: prod.splits)

lemma ends_transition [ends_rules]: "ends (transition dg c s r effect os fr)"
  unfolding transition_def by (auto intro!: ends_rules split: prod.splits option.splits)

lemma ends_attainment [ends_rules]: "ends (attainment bound c s)"
  unfolding attainment_def attainment_of_def by (intro ends_rules; simp)

lemma ends_grown [ends_rules]: "ends (grown s start kf)"
  unfolding grown_def by (auto intro!: ends_rules split: prod.splits)

lemma ends_block_supported [ends_rules]: "ends (block_supported s w)"
  unfolding block_supported_def by (auto intro!: ends_rules split: list.splits)

lemma ends_and_then [ends_rules]: "ends a \<Longrightarrow> ends b \<Longrightarrow> ends (and_then a b)"
  unfolding and_then_def by (auto intro!: ends_rules)

lemma ends_entry_allowed [ends_rules]: "ends (entry_allowed e s)"
  unfolding entry_allowed_def comparison_beaten_def Let_def by (auto intro!: ends_rules split: option.splits)

lemma ends_search [ends_rules]: "ends (terminal e s entry)" "ends (sorted_recipes e)" "ends (new_entries e s entry)"
  unfolding terminal_def sorted_recipes_def new_entries_def Let_def by (auto intro!: ends_rules split: option.splits)

section \<open>Searches within their limits\<close>

definition in_limits :: "search_env \<Rightarrow> search \<Rightarrow> bool" where
  "in_limits e st \<longleftrightarrow> sr_states st \<le> li_max_states (limits_of e) \<and> sr_expansions st \<le> li_max_expansions (limits_of e) \<and>
     sr_policies st \<le> li_max_policies (limits_of e) \<and>
     sr_depth st \<le> min (gc_max_decisions (en_contract e)) (li_max_depth (limits_of e))"

text \<open>A computation that keeps the limits and ends.\<close>

definition frugal :: "search_env \<Rightarrow> 'a run \<Rightarrow> bool" where
  "frugal e m \<longleftrightarrow> ensures (in_limits e) (\<lambda>er. er \<noteq> Diverges) m (\<lambda>_. True) (\<lambda>_. True)"

named_theorems frugal_rules

lemma frugal_returns [frugal_rules]: "frugal e (returns x)"
  by (simp add: frugal_def ensures_returns)

lemma frugal_lift [frugal_rules]: "ends m \<Longrightarrow> frugal e (lift m)"
  unfolding frugal_def by (rule ensures_lift) (auto simp: ends_def)

lemma frugal_bind [frugal_rules]: "frugal e m \<Longrightarrow> (\<And>x. frugal e (f x)) \<Longrightarrow> frugal e (bind_run m f)"
  unfolding frugal_def by (rule ensures_bind) simp_all

lemma frugal_catching [frugal_rules]: "frugal e m \<Longrightarrow> frugal e (catching m)"
  unfolding frugal_def by (rule ensures_catching) auto

lemma frugal_get [frugal_rules]: "frugal e (get_run f)"
  by (simp add: frugal_def ensures_def get_run_def)

lemma frugal_take [frugal_rules]: "frugal e (take_counter e name)"
  by (cases name) (auto simp: frugal_def ensures_def take_counter_def take_run_def give_up_def in_limits_def)

lemma frugal_modify:
  "(\<And>st. in_limits e st \<Longrightarrow> in_limits e (f st)) \<Longrightarrow> (\<And>st. sr_complete (f st) \<Longrightarrow> sr_complete st) \<Longrightarrow> frugal e (modify f)"
  by (simp add: frugal_def ensures_def modify_def)

lemma frugal_notes [frugal_rules]: "frugal e (modify (note_code code))" "frugal e (modify give_up)"
    "frugal e (modify (note_code code \<circ> give_up))"
    "frugal e (modify (\<lambda>st. if sr_complete st then sr_memo_update (f st) st else st))"
    "frugal e (modify (\<lambda>st. if sr_complete st then sr_scalar_memo_update (g st) st else st))"
  by (intro frugal_modify; simp add: in_limits_def note_code_def give_up_def split: if_splits)+

lemma frugal_note_depth [frugal_rules]:
  "depth \<le> gc_max_decisions (en_contract e) \<Longrightarrow> depth \<le> li_max_depth (limits_of e) \<Longrightarrow> frugal e (modify (note_depth depth))"
  by (intro frugal_modify) (auto simp: in_limits_def note_depth_def)

lemma frugal_children_of:
  assumes "\<And>t. frugal e (recur t (Suc depth))"
  shows "frugal e (children_of recur e s depth r effects found)"
  using assms by (induction effects arbitrary: found) (auto intro!: frugal_rules ends_rules split: option.splits)

lemma frugal_scalar_choice:
  assumes "\<And>t. frugal e (recur t (Suc depth))"
  shows "frugal e (scalar_choice recur e d s depth r)"
  unfolding scalar_choice_def scalar_pick_def Let_def
  by (auto intro!: frugal_rules ends_rules frugal_children_of assms split: prod.splits)

lemma frugal_scalar_choices:
  assumes "\<And>t. frugal e (recur t (Suc depth))"
  shows "frugal e (scalar_choices recur e d s depth rs choices)"
  by (induction rs arbitrary: choices)
    (auto intro!: frugal_rules frugal_scalar_choice assms split: sum.splits verdict.splits)

text \<open>The fuel that the decisions left need.\<close>

abbreviation deep :: "search_env \<Rightarrow> nat \<Rightarrow> bool" where
  "deep e depth \<equiv> depth \<le> min (gc_max_decisions (en_contract e)) (li_max_depth (limits_of e))"

lemma frugal_scalar_body:
  assumes "deep e depth" "deep e (Suc depth) \<Longrightarrow> (\<And>t. frugal e (recur t (Suc depth)))"
  shows "frugal e (scalar_body recur e s depth)"
  unfolding scalar_body_def scalar_best_def scalar_end_def Let_def using assms
  by (auto intro!: frugal_rules ends_rules frugal_scalar_choices split: option.splits)

lemma frugal_scalar_from:
  "deep e depth \<Longrightarrow> gc_max_decisions (en_contract e) < depth + n \<Longrightarrow> frugal e (scalar_from n e s depth)"
proof (induction n arbitrary: s depth)
  case (Suc n)
  then show ?case by (auto intro!: frugal_scalar_body)
qed simp

lemma frugal_option_children:
  assumes "\<And>t. frugal e (recur t (Suc depth) selected)"
  shows "frugal e (option_children recur e s depth selected stop r effects found)"
  using assms by (induction effects arbitrary: found) (auto intro!: frugal_rules ends_rules simp: Let_def split: option.splits)

lemma frugal_add_products: "frugal e (add_products e d action entry effects products options)"
  by (induction products arbitrary: options) (auto intro!: frugal_rules simp: Let_def)

lemma frugal_enumerate_choice:
  assumes "\<And>t. frugal e (recur t (Suc depth) selected)"
  shows "frugal e (enumerate_choice recur e d s depth entry selected r options)"
  unfolding enumerate_choice_def Let_def
  by (auto intro!: frugal_rules ends_rules frugal_option_children frugal_add_products assms split: prod.splits flow.splits)

lemma frugal_enumerate_recipes:
  assumes "\<And>t. frugal e (recur t (Suc depth) selected)"
  shows "frugal e (enumerate_recipes recur e d s depth entry selected rs options)"
  by (induction rs arbitrary: options)
    (auto intro!: frugal_rules frugal_enumerate_choice assms split: sum.splits flow.splits)

lemma frugal_enumerate_entries:
  assumes "\<And>t p. frugal e (recur t (Suc depth) p)"
  shows "frugal e (enumerate_entries recur e d s depth entry entries options)"
  by (induction entries arbitrary: options)
    (auto intro!: frugal_rules ends_rules frugal_enumerate_recipes assms split: flow.splits)

lemma frugal_enumerate_body:
  assumes "deep e depth" "deep e (Suc depth) \<Longrightarrow> (\<And>t p. frugal e (recur t (Suc depth) p))"
  shows "frugal e (enumerate_body recur e s depth entry)"
  unfolding enumerate_body_def Let_def using assms
  by (auto intro!: frugal_rules ends_rules frugal_enumerate_entries split: option.splits flow.splits)

lemma frugal_enumerate_from:
  "deep e depth \<Longrightarrow> gc_max_decisions (en_contract e) < depth + n \<Longrightarrow> frugal e (enumerate_from n e s depth entry)"
proof (induction n arbitrary: s depth entry)
  case (Suc n)
  then show ?case by (auto intro!: frugal_enumerate_body)
qed simp

lemma frugal_fresh:
  assumes "frugal e m"
  shows "fst (m fresh_search) \<noteq> Inl Diverges \<and> in_limits e (snd (m fresh_search))"
proof -
  have "in_limits e fresh_search" by (simp add: in_limits_def fresh_search_def)
  then show ?thesis using assms by (cases "fst (m fresh_search)") (auto simp: frugal_def ensures_def)
qed

lemma frugal_scalar: "frugal e (scalar e s)"
  unfolding scalar_def by (rule frugal_scalar_from) simp_all

lemma frugal_enumerate: "frugal e (enumerate_policies e s)"
  unfolding enumerate_policies_def by (rule frugal_enumerate_from) simp_all

end
