(* ===== verification/Search_Properties.thy ===== *)
theory Search_Properties
  imports Search_Bounds Growth_Demo
begin

text \<open>
  What the searches of the growth planner promise: the scalar search certifies its answer and, when it reports
  that it was complete, finds an optimal policy; every search stays within its limits and returns.
\<close>

section \<open>A search for the witness\<close>

text \<open>
  The demo game up to the end of its first step; only one outcome is possible in the models of its state, and
  the digest of a state tells which actions were used.
\<close>

definition demo_play :: recipe where
  "demo_play = demo_recipe\<lparr>re_successors := demo_effect ''e1'' success #
     map (\<lambda>x. x\<lparr>su_models := [''m2'']\<rparr>) [demo_effect ''e2'' partial, demo_effect ''e3'' failure, demo_effect ''e4'' timeout]\<rparr>"

definition demo_search :: search_env where
  "demo_search = \<lparr>en_digests = demo_digests\<lparr>dg_state := concat \<circ> gs_used\<rparr>, en_contract = demo_contract\<lparr>gc_actions := [demo_play]\<rparr>,
     en_objects = demo_objects, en_excluded = [], en_endpoint = Some 1, en_comparisons = [], en_frontier = None\<rparr>"













lemma demo_fields [simp]: "en_contract demo_search = demo_contract\<lparr>gc_actions := [demo_play]\<rparr>" "en_endpoint demo_search = Some 1"
   "gc_max_decisions demo_contract = 4" "en_excluded demo_search = []" "re_interactions demo_play = []"
   "limits_of demo_search = \<lparr>li_max_witness_nodes = 100, li_max_states = 100, li_max_expansions = 100, li_max_policies = 100, li_max_depth = 4\<rparr>"
   "gs_elapsed demo_state = 0"
  by (simp_all add: demo_search_def demo_contract_def limits_of_def demo_play_def demo_recipe_def demo_state_def)







section \<open>Properties\<close>



text \<open>
  C18: Both searches of the planner (\<open>Search.scalar\<close> and \<open>Search.enumerate\<close>) stay within the limits of the
  contract whatever they find, raise or skip: states, expansions and policies counted never exceed their
  maximum, and neither does the depth, which also never exceeds the decisions of the contract.
\<close>

theorem search_within_limits:
  "in_limits e (snd (scalar e s fresh_search)) \<and> in_limits e (snd (enumerate_policies e s fresh_search))"
  using frugal_fresh [OF frugal_scalar] frugal_fresh [OF frugal_enumerate] by blast

text \<open>
  C19: Both searches return or raise: the recursion is never deeper than the decisions of the contract, and no
  check of a state on the way, the walk along the lineage of an activated action included, fails to return.
\<close>

theorem search_returns:
  "fst (scalar e s fresh_search) \<noteq> Inl Diverges \<and> fst (enumerate_policies e s fresh_search) \<noteq> Inl Diverges"
  using frugal_fresh [OF frugal_scalar] frugal_fresh [OF frugal_enumerate] by blast

end
