(* ===== verification/Growth_Checking.thy ===== *)
theory Growth_Checking
  imports Growth_Plan Growth_Steps
begin

text \<open>
  The checker of growth plans against the game: what it means that a policy tree carries a state to the end of
  its continuation whatever the outcomes, why an accepted tree does so, and what its objective bounds.
\<close>

section \<open>Objectives\<close>

text \<open>A terminal state, entered at a checkpoint, that meets an objective.\<close>

definition within_objective :: "contract \<Rightarrow> objective \<Rightarrow> gstate \<Rightarrow> checkpoint \<Rightarrow> bool" where
  "within_objective c obj s p \<longleftrightarrow> cp_time p \<le> ob_entry obj \<and>
     (\<exists>v. attainment iv_lower c s = Inr v \<and> ob_attainment obj \<le> v) \<and>
     (\<forall>k \<in> set (gc_cost_order c). \<exists>v. dict_get (ob_cost obj) k = Some v \<and> dict_get_default (gs_spent s) k 0 \<le> v) \<and>
     (\<forall>k \<in> set (dict_keys (gc_domains c)). \<exists>v. dict_get (ob_debt obj) k = Some v \<and> stage_debt s k \<le> v) \<and>
     gs_elapsed s \<le> ob_duration obj"

lemma fold_max_ge: "x \<in> insert y (set ys) \<Longrightarrow> x \<le> fold max ys (y :: 'a :: linorder)"
  by (metis Max.set_eq_fold Max_ge finite_set list.simps(15))

lemma max_of_ge: "max_of xs = Inr m \<Longrightarrow> x \<in> set xs \<Longrightarrow> x \<le> m"
  using fold_max_ge by (fastforce simp: max_of_def split: list.splits)

lemma min_of_le: "min_of xs = Inr m \<Longrightarrow> x \<in> set xs \<Longrightarrow> m \<le> (x :: 'a :: linorder)"
  by (auto simp: min_of_def simp flip: Min.set_eq_fold split: list.splits)

lemma dict_of_function:
  "dict_get (dict_of (map (\<lambda>k. (k, g k)) ks)) k = (if k \<in> set ks then Some (g k) else None)"
proof -
  have "dict_get (fold (\<lambda>(k, v) d. dict_set d k v) (map (\<lambda>k. (k, g k)) ks) d) k = (if k \<in> set ks then Some (g k) else dict_get d k)" for d
    by (induction ks arbitrary: d) auto
  then show ?thesis by (simp add: dict_of_def dict_update_def)
qed

text \<open>The maxima that make the cost and the debt entries of an objective.\<close>

lemma maxima_bound:
  assumes "map_res (\<lambda>k. res_bind (max_of (map (\<lambda>s. f s k) states)) (\<lambda>v. Inr (k, v))) ks = Inr kvs" "k \<in> set ks" "s \<in> set states"
  shows "\<exists>v. dict_get (dict_of kvs) k = Some v \<and> f s k \<le> v"
proof -
  obtain g where g: "kvs = map (\<lambda>k. (k, g k)) ks" "\<forall>k \<in> set ks. max_of (map (\<lambda>s. f s k) states) = Inr (g k)"
  proof -
    have "\<exists>g. kvs = map (\<lambda>k. (k, g k)) ks \<and> (\<forall>k \<in> set ks. max_of (map (\<lambda>s. f s k) states) = Inr (g k))"
    proof (intro exI conjI)
      let ?g = "\<lambda>k. projr (max_of (map (\<lambda>s. f s k) states))"
      show "kvs = map (\<lambda>k. (k, ?g k)) ks" "\<forall>k \<in> set ks. max_of (map (\<lambda>s. f s k) states) = Inr (?g k)"
        using assms(1) by (induction ks arbitrary: kvs) auto
    qed
    then show ?thesis using that by blast
  qed
  then have "f s k \<le> g k" using max_of_ge [of "map (\<lambda>s. f s k) states" "g k"] assms(2,3) by simp
  then show ?thesis using g(1) assms(2) by (simp add: dict_of_function)
qed

lemma objective_of_within:
  assumes obj: "objective_of c cand = Inr obj" and s: "s \<in> set (ca_terminals cand)" and p: "cp_time p \<in> set (ca_entries cand)"
  shows "within_objective c obj s p"
proof -
  let ?states = "ca_terminals cand"
  obtain e least costs debts du where o: "max_of (ca_entries cand) = Inr e"
    "res_bind (map_res (attainment iv_lower c) ?states) min_of = Inr least"
    "map_res (\<lambda>k. res_bind (max_of (map (\<lambda>s. dict_get_default (gs_spent s) k 0) ?states)) (\<lambda>v. Inr (k, v))) (gc_cost_order c) = Inr costs"
    "map_res (\<lambda>k. res_bind (max_of (map (\<lambda>s. stage_debt s k) ?states)) (\<lambda>v. Inr (k, v))) (sort (dict_keys (gc_domains c))) = Inr debts"
    "max_of (map gs_elapsed ?states) = Inr du"
    "obj = \<lparr>ob_entry = e, ob_attainment = least, ob_cost = dict_of costs, ob_debt = dict_of debts, ob_duration = du\<rparr>"
    using obj unfolding objective_of_def by auto
  have "cp_time p \<le> ob_entry obj" using max_of_ge [OF o(1) p] o(6) by simp
  moreover obtain vs where vs: "map_res (attainment iv_lower c) ?states = Inr vs" "min_of vs = Inr least" using o(2) by auto
  have each: "\<exists>v \<in> set ys. f x = Inr v" if "map_res f xs = Inr ys" "x \<in> set xs" for f :: "gstate \<Rightarrow> growth_error + rat" and x xs ys
    using that by (induction xs arbitrary: ys) auto
  obtain v where "v \<in> set vs" "attainment iv_lower c s = Inr v" using each [OF vs(1) s] by blast
  moreover have "ob_attainment obj \<le> v" using min_of_le [OF vs(2) \<open>v \<in> set vs\<close>] o(6) by simp
  moreover have "gs_elapsed s \<le> ob_duration obj" using max_of_ge [OF o(5)] s o(6) by simp
  ultimately show ?thesis using maxima_bound [OF o(3) _ s] maxima_bound [OF o(4) _ s] o(6) by (simp add: within_objective_def)
qed

section \<open>Policy trees in the game\<close>

text \<open>
  A tree carries a state to its goal: where it marks an entry the entry is allowed, where it acts every
  successor has a branch that carries on, and where it stops the goal holds.
\<close>

definition entry_after :: "policy_node \<Rightarrow> gstate \<Rightarrow> checkpoint option \<Rightarrow> checkpoint option" where
  "entry_after node s entry = (if pn_entry node then Some \<lparr>cp_time = gs_elapsed s, cp_capacities = gs_capacities s\<rparr> else entry)"

definition entry_ok :: "search_env \<Rightarrow> policy_node \<Rightarrow> gstate \<Rightarrow> checkpoint option \<Rightarrow> bool" where
  "entry_ok e node s entry \<longleftrightarrow> (pn_entry node \<longrightarrow> entry = None \<and> entry_allowed e s = Inr True)"

definition plays_action :: "search_env \<Rightarrow> ident \<Rightarrow> recipe \<Rightarrow> bool" where
  "plays_action e a r \<longleftrightarrow> r \<in> set (gc_actions (en_contract e)) \<and> (\<exists>x. action_at (en_objects e) (re_action_digest r) = Inr x \<and> ac_id x = a)"

inductive carries :: "search_env \<Rightarrow> (gstate \<Rightarrow> checkpoint option \<Rightarrow> bool) \<Rightarrow> policy_node \<Rightarrow> gstate \<Rightarrow> checkpoint option \<Rightarrow> bool"
  for e goal where
  stop: "pn_action node = None \<Longrightarrow> entry_ok e node s entry \<Longrightarrow> goal s (entry_after node s entry) \<Longrightarrow> carries e goal node s entry"
| act: "\<lbrakk>pn_action node = Some a; entry_ok e node s entry; plays_action e a r; successors s r \<noteq> [];
    \<And>effect. effect \<in> set (successors s r) \<Longrightarrow> \<exists>t child.
      transition (en_digests e) (en_contract e) s r effect (en_objects e) (en_frontier e) = Inr t \<and>
      dict_get (pn_branches node) (su_id effect) = Some child \<and> carries e goal child t (entry_after node s entry)\<rbrakk> \<Longrightarrow>
    carries e goal node s entry"

lemma carries_mono: "carries e goal node s entry \<Longrightarrow> (\<And>s entry. goal s entry \<Longrightarrow> goal' s entry) \<Longrightarrow> carries e goal' node s entry"
proof (induction rule: carries.induct)
  case (act node a s entry r)
  then show ?case by (intro carries.act [of node a e s entry r]) blast+
qed (auto intro: carries.stop)

section \<open>The walk\<close>

text \<open>A state in which the walk has stopped, with its entry among those it collected.\<close>

definition stopped :: "search_env \<Rightarrow> walked \<Rightarrow> gstate \<Rightarrow> checkpoint option \<Rightarrow> bool" where
  "stopped e out s entry \<longleftrightarrow> terminal e s entry = Inr True \<and> s \<in> set (fst (snd out)) \<and>
     (\<forall>p. entry = Some p \<longrightarrow> cp_time p \<in> set (snd (snd out)))"

definition extends :: "walked \<Rightarrow> walked \<Rightarrow> bool" where
  "extends acc out \<longleftrightarrow> set (fst (snd acc)) \<subseteq> set (fst (snd out)) \<and> set (snd (snd acc)) \<subseteq> set (snd (snd out))"

lemma extends_refl [simp]: "extends acc acc"
  by (simp add: extends_def)

lemma extends_trans: "extends a b \<Longrightarrow> extends b c \<Longrightarrow> extends a c"
  by (auto simp: extends_def)

lemma carries_extends: "carries e (stopped e acc) node s entry \<Longrightarrow> extends acc out \<Longrightarrow> carries e (stopped e out) node s entry"
  by (erule carries_mono) (auto simp: stopped_def extends_def)

lemma walk_here_Inr:
  assumes "walk_here e node s depth entry n = Inr entry'"
  shows "entry' = entry_after node s entry \<and> entry_ok e node s entry"
  using assms by (auto simp: walk_here_def Let_def entry_after_def entry_ok_def make_checkpoint_def split: if_splits)

lemma only_one: "(case xs of [x] \<Rightarrow> Inr (f x) | _ \<Rightarrow> Inl er) = Inr y \<longleftrightarrow> (\<exists>x. xs = [x] \<and> y = f x)"
  by (auto split: list.splits)

lemma walk_recipe_Inr: "walk_recipe e a = Inr r \<Longrightarrow> plays_action e a r"
proof -
  assume "walk_recipe e a = Inr r"
  then obtain keyed kr where k: "map_res (\<lambda>r. res_bind (action_at (en_objects e) (re_action_digest r)) (\<lambda>x. Inr (ac_id x, r)))
      (gc_actions (en_contract e)) = Inr keyed" "filter (\<lambda>kr. fst kr = a) keyed = [kr]" "r = snd kr"
    unfolding walk_recipe_def res_bind_Inr only_one by blast
  have "kr \<in> set (filter (\<lambda>kr. fst kr = a) keyed)" by (simp add: k(2))
  then have "kr \<in> set keyed" "fst kr = a" by simp_all
  moreover have "\<exists>r \<in> set rs. \<exists>x. action_at (en_objects e) (re_action_digest r) = Inr x \<and> kr = (ac_id x, r)"
    if "map_res (\<lambda>r. res_bind (action_at (en_objects e) (re_action_digest r)) (\<lambda>x. Inr (ac_id x, r))) rs = Inr ks" "kr \<in> set ks" for rs ks
    using that by (induction rs arbitrary: ks) auto
  ultimately show ?thesis using k(1,3) by (fastforce simp: plays_action_def)
qed

lemma walk_effects:
  assumes "\<And>effect t child acc out. \<lbrakk>effect \<in> set effects; dict_get branches (su_id effect) = Some child;
      walk e child t depth entry acc = Inr out\<rbrakk> \<Longrightarrow> carries e (stopped e out) child t entry \<and> extends acc out"
    and "fold_res (\<lambda>effect acc. res_bind (item hashes (su_id effect)) (\<lambda>d.
        then_do (check (d = dg_effect (en_digests e) effect) code)
        (res_bind (transition (en_digests e) (en_contract e) s r effect (en_objects e) (en_frontier e)) (\<lambda>t.
         res_bind (item branches (su_id effect)) (\<lambda>child. walk e child t depth entry acc))))) effects acc = Inr out"
  shows "extends acc out \<and> (\<forall>effect \<in> set effects. \<exists>t child.
      transition (en_digests e) (en_contract e) s r effect (en_objects e) (en_frontier e) = Inr t \<and>
      dict_get branches (su_id effect) = Some child \<and> carries e (stopped e out) child t entry)"
  using assms
proof (induction effects arbitrary: acc)
  case (Cons effect effects)
  obtain t child acc1 where step: "transition (en_digests e) (en_contract e) s r effect (en_objects e) (en_frontier e) = Inr t"
    "dict_get branches (su_id effect) = Some child" "walk e child t depth entry acc = Inr acc1"
    and rest: "fold_res (\<lambda>effect acc. res_bind (item hashes (su_id effect)) (\<lambda>d.
        then_do (check (d = dg_effect (en_digests e) effect) code)
        (res_bind (transition (en_digests e) (en_contract e) s r effect (en_objects e) (en_frontier e)) (\<lambda>t.
         res_bind (item branches (su_id effect)) (\<lambda>child. walk e child t depth entry acc))))) effects acc1 = Inr out"
    using Cons.prems(2) by auto
  have one: "carries e (stopped e acc1) child t entry" "extends acc acc1" using Cons.prems(1) [OF _ step(2,3)] by simp_all
  have more: "extends acc1 out" "\<forall>effect \<in> set effects. \<exists>t child.
      transition (en_digests e) (en_contract e) s r effect (en_objects e) (en_frontier e) = Inr t \<and>
      dict_get branches (su_id effect) = Some child \<and> carries e (stopped e out) child t entry"
    using Cons.IH [OF _ rest] Cons.prems(1) by (meson list.set_intros(2))+
  show ?case using extends_trans [OF one(2) more(1)] more(2) step(1,2) carries_extends [OF one(1) more(1)] by auto
qed simp

lemma walk_carries: "walk e node s depth entry acc = Inr out \<Longrightarrow> carries e (stopped e out) node s entry \<and> extends acc out"
proof (induction "size node" arbitrary: node s depth entry acc out rule: less_induct)
  case less
  obtain n terminals entries where acc: "acc = (n, terminals, entries)" by (cases acc)
  obtain entry' where here: "walk_here e node s depth entry (fst acc + 1) = Inr entry'"
    using less.prems unfolding walk.simps [of e node] by auto
  have e: "entry' = entry_after node s entry" "entry_ok e node s entry" using walk_here_Inr [OF here] by simp_all
  show ?case
  proof (cases "pn_action node")
    case None
    then have "terminal e s entry' = Inr True" "out = (n + 1, terminals @ [s],
        entries @ (case entry' of None \<Rightarrow> [] | Some p \<Rightarrow> [cp_time p]))"
      using less.prems here unfolding walk.simps [of e node] by (auto simp: acc split: if_splits)
    then have "stopped e out s entry'" "extends acc out" by (auto simp: stopped_def extends_def acc)
    then show ?thesis using None e by (auto intro: carries.stop)
  next
    case (Some a)
    obtain r where r: "walk_recipe e a = Inr r" "successors s r \<noteq> []"
      and fold: "fold_res (\<lambda>effect acc. res_bind (item (pn_effects node) (su_id effect)) (\<lambda>d.
          then_do (check (d = dg_effect (en_digests e) effect) ''growth_plan_effect_mismatch'')
          (res_bind (transition (en_digests e) (en_contract e) s r effect (en_objects e) (en_frontier e)) (\<lambda>t.
           res_bind (item (pn_branches node) (su_id effect)) (\<lambda>child. walk e child t (depth + 1) entry' acc)))))
        (successors s r) (n + 1, terminals, entries) = Inr out"
      using less.prems here Some unfolding walk.simps [of e node] by (auto simp: acc Let_def)
    have "extends (n + 1, terminals, entries) out \<and> (\<forall>effect \<in> set (successors s r). \<exists>t child.
        transition (en_digests e) (en_contract e) s r effect (en_objects e) (en_frontier e) = Inr t \<and>
        dict_get (pn_branches node) (su_id effect) = Some child \<and> carries e (stopped e out) child t entry')"
      by (rule walk_effects [OF _ fold]) (rule less.hyps, rule policy_child_size)
    moreover have "extends acc (n + 1, terminals, entries)" by (simp add: extends_def acc)
    ultimately show ?thesis using Some e r walk_recipe_Inr [OF r(1)] by (auto intro: carries.act extends_trans)
  qed
qed

lemma check_tree_carries:
  assumes "check_tree e tree start None = Inr cand" "objective_of (en_contract e) cand = Inr obj" "en_endpoint e = None"
  shows "carries e (\<lambda>s entry. terminal e s entry = Inr True \<and> (\<exists>p. entry = Some p \<and> within_objective (en_contract e) obj s p)) tree start None"
proof -
  obtain out where out: "walk e tree start 0 None (0, [], []) = Inr out" "ca_terminals cand = fst (snd out)" "ca_entries cand = snd (snd out)"
    using assms(1) by (auto simp: check_tree_def split: prod.splits)
  have "carries e (stopped e out) tree start None" using walk_carries [OF out(1)] by blast
  then show ?thesis
  proof (rule carries_mono)
    fix s entry assume st: "stopped e out s entry"
    then obtain p where p: "entry = Some p" using assms(3) by (auto simp: stopped_def terminal_def split: option.splits)
    then have "within_objective (en_contract e) obj s p"
      using st out(2,3) by (intro objective_of_within [OF assms(2)]) (auto simp: stopped_def)
    then show "terminal e s entry = Inr True \<and> (\<exists>p. entry = Some p \<and> within_objective (en_contract e) obj s p)"
      using st p by (simp add: stopped_def)
  qed
qed

end
