(* ===== verification/Game_Demo.thy ===== *)
theory Game_Demo
  imports Growth_Demo Growth_Checking
begin

text \<open>
  A small game for the witnesses of the planners: one action with one outcome, an entry at the start, and a
  continuation of one step that doubles the capacities.
\<close>

section \<open>The game\<close>

definition game_caps :: "(ident, interval) dict" where
  "game_caps = [(''task'', \<lparr>iv_lower = 2, iv_upper = 2\<rparr>), (''research'', \<lparr>iv_lower = 2, iv_upper = 2\<rparr>),
     (''verification'', \<lparr>iv_lower = 2, iv_upper = 2\<rparr>)]"

definition game_effect :: successor where
  "game_effect = (demo_effect ''e1'' success)\<lparr>su_pending_added := [], su_capacity_delta :=
     [(''task'', \<lparr>iv_lower = 2, iv_upper = 2\<rparr>), (''research'', \<lparr>iv_lower = 2, iv_upper = 2\<rparr>)]\<rparr>"

definition game_recipe :: recipe where
  "game_recipe = demo_recipe\<lparr>re_successors := game_effect #
     map (\<lambda>x. x\<lparr>su_models := [''m2'']\<rparr>) [demo_effect ''e2'' partial, demo_effect ''e3'' failure, demo_effect ''e4'' timeout]\<rparr>"

definition game_state :: gstate where
  "game_state = demo_state\<lparr>gs_capacities := game_caps, gs_elapsed := 1, gs_spent := [(''money'', 0)], gs_charges := [(''planner'', [(''money'', 0)])],
     gs_checkpoints := [\<lparr>cp_time = 0, cp_capacities =
     [(''task'', \<lparr>iv_lower = 1, iv_upper = 1\<rparr>), (''research'', \<lparr>iv_lower = 1, iv_upper = 1\<rparr>),
     (''verification'', \<lparr>iv_lower = 1, iv_upper = 1\<rparr>)]\<rparr>, \<lparr>cp_time = 1, cp_capacities = game_caps\<rparr>]\<rparr>"

definition game_domain :: domain where
  "game_domain = demo_domain\<lparr>gd_target := 2\<rparr>"

definition game_contract :: contract where
  "game_contract = demo_contract\<lparr>gc_domains := [(''task'', game_domain), (''research'', game_domain), (''verification'', game_domain)],
     gc_initial_state := game_state, gc_continuation_horizon := 1, gc_actions := [game_recipe], gc_models := [''m'', ''m2''], gc_planning_charge := [(''money'', 0)]\<rparr>"

definition game_env :: search_env where
  "game_env = env_of demo_digests game_contract demo_objects None [] None []"

section \<open>Its states\<close>

definition game_after :: gstate where
  "game_after = (case transition demo_digests game_contract game_state game_recipe game_effect demo_objects None of
     Inr s \<Rightarrow> s | Inl _ \<Rightarrow> demo_state)"

definition game_mark :: checkpoint where
  "game_mark = \<lparr>cp_time = 1, cp_capacities = game_caps\<rparr>"

definition game_objective :: objective where
  "game_objective = \<lparr>ob_entry = 1, ob_attainment = 2, ob_cost = [(''money'', 5)],
     ob_debt = [(''research'', 0), (''task'', 0), (''verification'', 0)], ob_duration = 2\<rparr>"

definition game_tree :: policy_node where
  "game_tree = PolicyNode ''0'' (Some ''act'') True [(''e1'', leaf ''1'')] [(''e1'', ''e1'')]"

lemma game_initial: "initial_state demo_digests game_contract None = Inr game_state"
  by code_simp

lemma game_transition:
  "case transition demo_digests game_contract game_state game_recipe game_effect demo_objects None of
     Inl e \<Rightarrow> False
   | Inr t \<Rightarrow> gs_elapsed t = 2 \<and> gs_used t = [''act''] \<and> gs_models t = [''m''] \<and> gs_spent t = [(''money'', 5)] \<and>
       map (\<lambda>(k, i). (k, iv_lower i)) (gs_capacities t) = [(''task'', 4), (''research'', 4), (''verification'', 2)] \<and>
       all_in (grown t game_caps) [(''task'', 2), (''research'', 2)] = Inr True \<and>
       (case applicable demo_digests game_contract t game_recipe demo_objects None of Inl (GrowthError code) \<Rightarrow> take 6 code = ''growth'' | _ \<Rightarrow> False) \<and>
       entry_allowed game_env t = Inr False \<and> (case base_state t of Inl e \<Rightarrow> False | Inr _ \<Rightarrow> True) \<and>
       objective_of game_contract \<lparr>ca_node = leaf ''1'', ca_terminals = [t], ca_entries = [1], ca_count = 1\<rparr> = Inr game_objective"
  by code_simp

lemma game_valid: "validate_contract demo_digests game_contract demo_objects = Inr ()"
proof -
  have "case validate_contract demo_digests game_contract demo_objects of Inr _ \<Rightarrow> True | Inl _ \<Rightarrow> False" by code_simp
  then show ?thesis by (simp split: sum.splits)
qed

lemma game_successors: "successors game_state game_recipe = [game_effect]"
  by code_simp

lemma game_applicable: "applicable demo_digests game_contract game_state game_recipe demo_objects None = Inr (demo_action, demo_capability)"
  by code_simp

lemma game_allowed: "entry_allowed game_env game_state = Inr True"
  by code_simp

lemma game_actions: "sorted_recipes game_env = Inr [game_recipe]"
  by code_simp

lemma game_plays: "walk_recipe game_env ''act'' = Inr game_recipe"
  by code_simp

lemma game_growth_fields [simp]:
  "re_action_digest game_recipe = ''a''" "re_interactions game_recipe = []" "su_id game_effect = ''e1''"
  "gs_models game_state = [''m'']" "gs_elapsed game_state = 1" "gs_capacities game_state = game_caps"
  "gc_max_decisions game_contract = 4" "gc_continuation_horizon game_contract = 1" "gc_comparators game_contract = []"
  "gc_continuation_task_factor game_contract = 2" "gc_continuation_research_factor game_contract = 2"
  "gc_deadline game_contract = 100"
  "gc_search_limits game_contract =
     \<lparr>li_max_witness_nodes = 100, li_max_states = 100, li_max_expansions = 100, li_max_policies = 100, li_max_depth = 4\<rparr>"
  by (simp_all add: game_recipe_def demo_recipe_def game_effect_def demo_effect_def
      game_state_def demo_state_def game_contract_def demo_contract_def)

lemma game_move: "transition demo_digests game_contract game_state game_recipe game_effect demo_objects None = Inr game_after"
  using game_transition by (auto simp: game_after_def split: sum.splits)

lemma game_after_facts:
  "gs_elapsed game_after = 2" "gs_used game_after = [''act'']" "gs_models game_after = [''m'']"
  "all_in (grown game_after game_caps) [(''task'', 2), (''research'', 2)] = Inr True"
  "\<exists>code. applicable demo_digests game_contract game_after game_recipe demo_objects None = Inl (GrowthError code) \<and> take 6 code = ''growth''"
  "entry_allowed game_env game_after = Inr False" "base_state game_after = Inr (game_after\<lparr>gs_frontier := None\<rparr>)"
  "objective_of game_contract \<lparr>ca_node = leaf ''1'', ca_terminals = [game_after], ca_entries = [1], ca_count = 1\<rparr> = Inr game_objective"
  "gs_spent game_after = [(''money'', 5)]"
  "map (\<lambda>(k, i). (k, iv_lower i)) (gs_capacities game_after) = [(''task'', 4), (''research'', 4), (''verification'', 2)]"
  using game_transition game_move by (auto simp: base_state_def Let_def split: sum.splits growth_error.splits)

text \<open>Paying nothing changes nothing.\<close>

lemma game_paid:
  "initial_state demo_digests (game_contract\<lparr>gc_initial_state := game_state, gc_planning_charge := [(''money'', 0)],
     gc_planning_duration := 0, gc_planning_boundary := shared_budget\<rparr>) None = Inr game_state"
  by code_simp

lemma game_mark_made: "make_checkpoint 1 game_caps = Inr game_mark"
  by code_simp

end
