(* ===== verification/Epistemic.thy ===== *)
theory Epistemic
  imports Growth_Plan
begin

text \<open>
  Finite supports of the epistemic planner (\<open>v6/epistemic.py\<close>): hypotheses pair one fixed model with a whole
  ledger state, \<open>Domain\<close> validates its inputs and moves supports through actions and observed symbols.
  A method of a \<open>Domain\<close> assigns counters of the domain and of the budget it is given; what it wrote stays
  when it raises. Digests and the size of a serialized support are parameters (canonical JSON of \<open>model_dump\<close>).
\<close>

section \<open>Documents\<close>

record kernel_row =
  kr_model :: ident
  kr_action :: digest
  kr_successor :: ident
  kr_observations :: "ident list"

record cost_event =
  ce_id :: ident
  ce_source :: digest
  ce_after :: nat
  ce_charges :: "(ident, (ident, rat) dict) dict"
  ce_duration :: rat
  ce_reserved :: nat

text \<open>
  What a document carries beside its \<open>spec\<close>: its metadata, and its extensions as canonical JSON text.
\<close>

record envelope =
  ev_tenant :: ident
  ev_workspace :: ident
  ev_object :: ident
  ev_created :: time
  ev_extensions :: string

record epistemic_contract =
  ec_envelope :: envelope
  ec_growth :: digest
  ec_frontier :: "digest option"
  ec_alphabet :: "ident list"
  ec_kernel :: "kernel_row list"
  ec_max_support :: nat
  ec_max_bytes :: nat
  ec_max_history :: nat
  ec_cost_events :: "cost_event list"

record hypothesis =
  hy_model :: ident
  hy_state :: gstate
  hy_entry :: "checkpoint option"
  hy_steps :: nat

record epistemic_step =
  ep_action :: ident
  ep_observation :: ident
  ep_entry :: bool
  ep_comparisons :: nat

datatype epistemic_node =
  EpistemicNode (en_support: digest) (en_action: "ident option") (en_entry: bool)
    (en_branches: "(ident \<times> epistemic_node) list")

record epistemic_digests =
  ed_growth :: digests
  ed_hypothesis :: "hypothesis \<Rightarrow> digest"
  ed_support :: "hypothesis list \<Rightarrow> digest"
  ed_size :: "hypothesis list \<Rightarrow> nat"
  ed_contract :: "epistemic_contract \<Rightarrow> digest"
  ed_domain :: "digest \<Rightarrow> digest \<Rightarrow> (ident, ident) dict \<Rightarrow> ident list \<Rightarrow> ident list \<Rightarrow> digest"
  ed_node :: "epistemic_node \<Rightarrow> digest"

text \<open>\<open>EpistemicHypothesis(...)\<close> checks that the steps are at most 16.\<close>

definition make_hypothesis :: "ident \<Rightarrow> gstate \<Rightarrow> checkpoint option \<Rightarrow> nat \<Rightarrow> growth_error + hypothesis" where
  "make_hypothesis theta s entry steps =
     require (steps \<le> 16) ValidationError
       (Inr \<lparr>hy_model = theta, hy_state = s, hy_entry = entry, hy_steps = steps\<rparr>)"

section \<open>Domains\<close>

text \<open>The fields of a \<open>Domain\<close> that only \<open>__init__\<close> and \<open>_validate\<close> assign.\<close>

record epistemic_domain =
  do_digests :: epistemic_digests
  do_contract :: contract
  do_objects :: objects
  do_epistemic :: epistemic_contract
  do_frontier :: "frontier option"
  do_map :: "(ident, ident) dict"
  do_excluded_actions :: "ident list"
  do_excluded_interactions :: "ident list"
  do_recipes :: "(ident, recipe) dict"
  do_kernel :: "(ident \<times> digest \<times> ident, ident list) dict"

definition recipes_by_action :: "contract \<Rightarrow> objects \<Rightarrow> growth_error + (ident, recipe) dict" where
  "recipes_by_action c os =
     res_bind (map_res (\<lambda>r. res_bind (action_at os (re_action_digest r)) (\<lambda>a. Inr (ac_id a, r))) (gc_actions c))
       (\<lambda>kvs. Inr (dict_of kvs))"

definition kernel_step ::
  "ident list \<Rightarrow> kernel_row \<Rightarrow> (ident \<times> digest \<times> ident, ident list) dict \<Rightarrow>
   growth_error + (ident \<times> digest \<times> ident, ident list) dict" where
  "kernel_step alphabet row table =
     (let key = (kr_model row, kr_action row, kr_successor row) in
      require (key \<notin> set (dict_keys table) \<and> set (kr_observations row) \<subseteq> set alphabet \<and>
               distinct (kr_observations row)) (GrowthError ''epistemic_kernel_invalid'')
        (Inr (dict_set table key (sort (kr_observations row)))))"

definition expected_rows :: "(ident, recipe) dict \<Rightarrow> (ident \<times> digest \<times> ident) set" where
  "expected_rows recipes =
     (\<Union>r \<in> set (dict_values recipes). \<Union>effect \<in> set (re_successors r).
        (\<lambda>theta. (theta, re_action_digest r, su_id effect)) ` set (su_models effect))"

definition COST_CATEGORIES :: "ident list" where
  "COST_CATEGORIES = [''construction'', ''search'', ''checking'', ''transport'', ''maintenance'', ''application'']"

definition cost_event_ok :: "contract \<Rightarrow> cost_event \<Rightarrow> bool" where
  "cost_event_ok c x \<longleftrightarrow>
     ce_duration x \<ge> 0 \<and> set (dict_keys (ce_charges x)) \<subseteq> set COST_CATEGORIES \<and>
     (\<forall>amounts \<in> set (dict_values (ce_charges x)).
        set (dict_keys amounts) \<subseteq> set (dict_keys (gc_resource_units c)) \<and> (\<forall>v \<in> set (dict_values amounts). v \<ge> 0))"

definition observation_map_of :: "ident list \<Rightarrow> (ident, ident) dict option \<Rightarrow> (ident, ident) dict" where
  "observation_map_of alphabet given =
     (case given of None \<Rightarrow> map (\<lambda>s. (s, s)) (sorted_set alphabet) | Some m \<Rightarrow> m)"

text \<open>\<open>Domain(...)\<close>: the checks of \<open>_validate\<close> in their order, and the indices they build.\<close>

definition make_domain ::
  "epistemic_digests \<Rightarrow> contract \<Rightarrow> objects \<Rightarrow> epistemic_contract \<Rightarrow> frontier option \<Rightarrow> (ident, ident) dict option \<Rightarrow>
   ident list \<Rightarrow> ident list \<Rightarrow> growth_error + epistemic_domain" where
  "make_domain ed c os ec fr given excluded_actions excluded_interactions =
     (let dg = ed_growth ed; alphabet = ec_alphabet ec in
      then_do (validate_contract dg c os)
     (then_do (case fr of None \<Rightarrow> Inr () | Some f \<Rightarrow> validate_frontier dg c os f)
     (then_do (check (ec_growth ec = dg_contract dg c \<and> ec_frontier ec = map_option (dg_frontier dg) fr)
        ''epistemic_input_binding'')
     (res_bind (recipes_by_action c os) (\<lambda>recipes.
      then_do (check (distinct alphabet) ''epistemic_alphabet_invalid'')
     (res_bind (fold_res (kernel_step alphabet) (ec_kernel ec) []) (\<lambda>table.
      then_do (check (set (dict_keys table) = expected_rows recipes) ''epistemic_kernel_incomplete'')
     (let observed = observation_map_of alphabet given in
      then_do (check (set (dict_keys observed) = set alphabet \<and>
                      (\<forall>v \<in> set (dict_values observed). 0 < length v \<and> length v \<le> 128)) ''epistemic_channel_invalid'')
     (then_do (check (set excluded_actions \<subseteq> set (dict_keys recipes)) ''epistemic_action_unknown'')
     (then_do (check (distinct (map ce_id (ec_cost_events ec))) ''epistemic_cost_event_invalid'')
     (then_do (each (\<lambda>x. check (cost_event_ok c x) ''epistemic_cost_event_invalid'') (ec_cost_events ec))
       (Inr \<lparr>do_digests = ed, do_contract = c, do_objects = os, do_epistemic = ec, do_frontier = fr, do_map = observed,
             do_excluded_actions = excluded_actions, do_excluded_interactions = excluded_interactions,
             do_recipes = recipes, do_kernel = table\<rparr>))))))))))))"

definition domain_digest :: "epistemic_domain \<Rightarrow> digest" where
  "domain_digest d =
     ed_domain (do_digests d)
       (input_digest (ed_growth (do_digests d)) (do_contract d) (do_objects d) (do_frontier d))
       (ed_contract (do_digests d) (do_epistemic d)) (do_map d) (sorted_set (do_excluded_actions d))
       (sorted_set (do_excluded_interactions d))"

section \<open>Supports\<close>

text \<open>Counters a method assigns: those of the domain, of the budget in use and of a policy search or check.\<close>

record counters =
  cs_peak :: nat
  cs_transitions :: nat
  cs_complete :: bool
  cs_states :: nat
  cs_expansions :: nat
  cs_policies :: nat
  cs_depth :: nat

definition fresh_counters :: counters where
  "fresh_counters = \<lparr>cs_peak = 0, cs_transitions = 0, cs_complete = True, cs_states = 0, cs_expansions = 0,
     cs_policies = 0, cs_depth = 0\<rparr>"

text \<open>A new budget, as a new search or checker makes it, beside the counters of the domain.\<close>

definition new_counters :: "'a counters_scheme \<Rightarrow> 'a counters_scheme" where
  "new_counters st = st\<lparr>cs_complete := True, cs_states := 0, cs_expansions := 0, cs_policies := 0, cs_depth := 0\<rparr>"

definition counters_report :: "search_limits \<Rightarrow> 'a counters_scheme \<Rightarrow> report" where
  "counters_report l st = \<lparr>rp_complete = cs_complete st, rp_states = cs_states st, rp_expansions = cs_expansions st,
     rp_policies = cs_policies st, rp_depth = cs_depth st, rp_limits = l\<rparr>"

fun spent_on :: "counter \<Rightarrow> 'a counters_scheme \<Rightarrow> nat" where
  "spent_on States st = cs_states st"
| "spent_on Expansions st = cs_expansions st"
| "spent_on Policies st = cs_policies st"

fun spend_on :: "counter \<Rightarrow> 'a counters_scheme \<Rightarrow> 'a counters_scheme" where
  "spend_on States st = st\<lparr>cs_states := cs_states st + 1\<rparr>"
| "spend_on Expansions st = st\<lparr>cs_expansions := cs_expansions st + 1\<rparr>"
| "spend_on Policies st = st\<lparr>cs_policies := cs_policies st + 1\<rparr>"

definition incomplete :: "'a counters_scheme \<Rightarrow> 'a counters_scheme" where
  "incomplete st = st\<lparr>cs_complete := False\<rparr>"

definition domain_limits :: "epistemic_domain \<Rightarrow> search_limits" where
  "domain_limits d = gc_search_limits (do_contract d)"

text \<open>\<open>Budget.take\<close>.\<close>

definition budget_take :: "epistemic_domain \<Rightarrow> counter \<Rightarrow> ('a counters_scheme, bool) stateful" where
  "budget_take d name = (\<lambda>st.
     if spent_on name st \<ge> maximum_of (domain_limits d) name then (Inr False, incomplete st)
     else (Inr True, spend_on name st))"

definition demand :: "bool \<Rightarrow> string \<Rightarrow> ('s, unit) stateful" where
  "demand P code = lift (check P code)"

definition canonical_support :: "epistemic_digests \<Rightarrow> hypothesis list \<Rightarrow> growth_error + hypothesis list" where
  "canonical_support ed hs =
     res_bind (map_res (\<lambda>h. res_bind (normalize (hy_state h)) (\<lambda>s. Inr (h\<lparr>hy_state := s\<rparr>))) hs) (\<lambda>normalized.
       Inr (map snd (sort_key fst (dict_of (map (\<lambda>h. (ed_hypothesis ed h, h)) normalized)))))"

definition bounded :: "epistemic_domain \<Rightarrow> hypothesis list \<Rightarrow> ('a counters_scheme, hypothesis list) stateful" where
  "bounded d hs =
     bind_run (lift (canonical_support (do_digests d) hs)) (\<lambda>result.
     bind_run (demand (result \<noteq> []) ''epistemic_inconsistent_support'') (\<lambda>_.
     bind_run (modify (\<lambda>st. st\<lparr>cs_peak := max (cs_peak st) (length result)\<rparr>)) (\<lambda>_.
     bind_run (demand (length result \<le> ec_max_support (do_epistemic d)) ''epistemic_support_budget'') (\<lambda>_.
     bind_run (demand (ed_size (do_digests d) result \<le> ec_max_bytes (do_epistemic d)) ''epistemic_support_budget'') (\<lambda>_.
     returns result)))))"

section \<open>Fees\<close>

definition event_totals :: "contract \<Rightarrow> cost_event \<Rightarrow> (ident, rat) dict" where
  "event_totals c x =
     map (\<lambda>k. (k, sum_list (map (\<lambda>v. dict_get_default v k 0) (dict_values (ce_charges x)))))
       (dict_keys (gc_resource_units c))"

definition pay_event :: "epistemic_domain \<Rightarrow> cost_event \<Rightarrow> hypothesis \<Rightarrow> growth_error + hypothesis" where
  "pay_event d x h =
     (if ce_after x \<noteq> hy_steps h then Inr h
      else let c = do_contract d in
        res_bind (initial_state (ed_growth (do_digests d)) (c\<lparr>gc_initial_state := hy_state h,
            gc_planning_charge := event_totals c x, gc_planning_duration := ce_duration x,
            gc_planning_boundary := shared_budget\<rparr>) None) (\<lambda>s.
        then_do (check (gs_elapsed s \<le> gc_deadline c) ''epistemic_cost_deadline'')
          (Inr (h\<lparr>hy_state := s\<rparr>))))"

definition pay :: "epistemic_domain \<Rightarrow> hypothesis \<Rightarrow> growth_error + hypothesis" where
  "pay d h = fold_res (pay_event d) (sort_key ce_id (ec_cost_events (do_epistemic d))) h"

definition initial_support :: "epistemic_domain \<Rightarrow> ('a counters_scheme, hypothesis list) stateful" where
  "initial_support d =
     bind_run (lift (initial_state (ed_growth (do_digests d)) (do_contract d) (do_frontier d))) (\<lambda>s.
     bind_run (lift (map_res (\<lambda>theta. res_bind (make_hypothesis theta (s\<lparr>gs_models := [theta]\<rparr>) None 0) (pay d))
                 (sort (gs_models s)))) (bounded d))"

section \<open>One action\<close>

type_synonym groups = "(ident, hypothesis list) dict"

definition add_observation ::
  "epistemic_domain \<Rightarrow> hypothesis \<Rightarrow> ident \<Rightarrow> groups \<Rightarrow> growth_error + groups" where
  "add_observation d h raw groups =
     res_bind (item (do_map d) raw) (\<lambda>symbol.
       Inr (dict_set groups symbol (dict_get_default groups symbol [] @ [h])))"

definition next_hypothesis ::
  "epistemic_domain \<Rightarrow> hypothesis \<Rightarrow> gstate \<Rightarrow> growth_error + hypothesis" where
  "next_hypothesis d h after =
     then_do (check (hy_steps h < gc_max_decisions (do_contract d)) ''epistemic_primitive_budget'')
     (res_bind (make_hypothesis (hy_model h) after (hy_entry h) (hy_steps h + 1)) (pay d))"

definition step_transition ::
  "epistemic_domain \<Rightarrow> hypothesis \<Rightarrow> recipe \<Rightarrow> successor \<Rightarrow> growth_error + gstate" where
  "step_transition d h r effect =
     transition (ed_growth (do_digests d)) (do_contract d) (hy_state h) r effect (do_objects d) (do_frontier d)"

definition step_applicable :: "epistemic_domain \<Rightarrow> hypothesis \<Rightarrow> recipe \<Rightarrow> growth_error + action_spec \<times> capability" where
  "step_applicable d h r =
     applicable (ed_growth (do_digests d)) (do_contract d) (hy_state h) r (do_objects d) (do_frontier d)"

fun advance_effects ::
  "epistemic_domain \<Rightarrow> bool \<Rightarrow> recipe \<Rightarrow> hypothesis \<Rightarrow> successor list \<Rightarrow> groups \<Rightarrow>
   ('a counters_scheme, groups) stateful" where
  "advance_effects d budgeted r h [] groups = returns groups"
| "advance_effects d budgeted r h (effect # effects) groups =
     bind_run (if budgeted then budget_take d Expansions else returns True) (\<lambda>ok.
     bind_run (demand ok ''epistemic_search_budget'') (\<lambda>_.
     bind_run (lift (step_transition d h r effect)) (\<lambda>after.
     bind_run (modify (\<lambda>st. st\<lparr>cs_transitions := cs_transitions st + 1\<rparr>)) (\<lambda>_.
     bind_run (lift (next_hypothesis d h after)) (\<lambda>next.
     bind_run (lift (item (do_kernel d) (hy_model h, re_action_digest r, su_id effect))) (\<lambda>raws.
     bind_run (lift (fold_res (add_observation d next) raws groups))
       (advance_effects d budgeted r h effects)))))))"

fun advance_support ::
  "epistemic_domain \<Rightarrow> bool \<Rightarrow> recipe \<Rightarrow> hypothesis list \<Rightarrow> groups \<Rightarrow> ('a counters_scheme, groups) stateful" where
  "advance_support d budgeted r [] groups = returns groups"
| "advance_support d budgeted r (h # hs) groups =
     bind_run (demand (gs_models (hy_state h) = [hy_model h]) ''epistemic_model_switch'') (\<lambda>_.
     bind_run (lift (step_applicable d h r)) (\<lambda>_.
     let effects = successors (hy_state h) r in
     bind_run (demand (effects \<noteq> []) ''epistemic_kernel_incomplete'') (\<lambda>_.
     bind_run (advance_effects d budgeted r h effects groups) (advance_support d budgeted r hs))))"

fun bounded_groups :: "epistemic_domain \<Rightarrow> groups \<Rightarrow> ('a counters_scheme, groups) stateful" where
  "bounded_groups d [] = returns []"
| "bounded_groups d ((symbol, hs) # groups) =
     bind_run (bounded d hs) (\<lambda>support.
     bind_run (bounded_groups d groups) (\<lambda>rest. returns ((symbol, support) # rest)))"

definition advance ::
  "epistemic_domain \<Rightarrow> bool \<Rightarrow> hypothesis list \<Rightarrow> ident \<Rightarrow> ('a counters_scheme, groups) stateful" where
  "advance d budgeted support a =
     bind_run (demand (support \<noteq> []) ''epistemic_inconsistent_support'') (\<lambda>_.
     case dict_get (do_recipes d) a of
       None \<Rightarrow> lift (Inl (GrowthError ''epistemic_action_unknown''))
     | Some r \<Rightarrow>
         bind_run (demand (a \<notin> set (do_excluded_actions d) \<and>
             set (do_excluded_interactions d) \<inter> set (re_interactions r) = {}) ''epistemic_action_excluded'') (\<lambda>_.
         bind_run (advance_support d budgeted r support []) (\<lambda>groups.
         bounded_groups d (sort_key fst groups))))"

section \<open>Entry and terminals\<close>

definition growth_env :: "epistemic_domain \<Rightarrow> rat option \<Rightarrow> comparison list \<Rightarrow> search_env" where
  "growth_env d endpoint comparisons =
     env_of (ed_growth (do_digests d)) (do_contract d) (do_objects d) (do_frontier d) [] endpoint comparisons"

definition mark_entry ::
  "epistemic_domain \<Rightarrow> hypothesis list \<Rightarrow> comparison list \<Rightarrow> ('a counters_scheme, hypothesis list) stateful" where
  "mark_entry d support comparisons =
     bind_run (lift (if support = [] then Inr False
       else all_in (\<lambda>h. if hy_entry h = None then entry_allowed (growth_env d None comparisons) (hy_state h) else Inr False)
              support)) (\<lambda>ok.
     bind_run (demand ok ''epistemic_hidden_entry'') (\<lambda>_.
     bind_run (lift (map_res (\<lambda>h. res_bind (make_checkpoint (gs_elapsed (hy_state h)) (gs_capacities (hy_state h)))
                 (\<lambda>p. Inr (h\<lparr>hy_entry := Some p\<rparr>))) support)) (bounded d)))"

definition support_terminal :: "epistemic_domain \<Rightarrow> rat option \<Rightarrow> hypothesis list \<Rightarrow> growth_error + bool" where
  "support_terminal d endpoint support =
     (if support = [] then Inr False
      else all_in (\<lambda>h. terminal (growth_env d endpoint []) (hy_state h) (hy_entry h)) support)"

section \<open>Replaying a history\<close>

text \<open>
  \<open>replay\<close> asks for the comparisons of an earlier history through \<open>reference\<close>, which
  \<open>v6/epistemic_checking.py\<close> provides.
\<close>

definition replay_step ::
  "epistemic_domain \<Rightarrow> (nat \<Rightarrow> ('a counters_scheme, comparison list) stateful) \<Rightarrow> comparison list \<Rightarrow> nat \<times> epistemic_step \<Rightarrow>
   hypothesis list \<Rightarrow> ('a counters_scheme, hypothesis list) stateful" where
  "replay_step d reference comparisons indexed support =
     (let (index, step) = indexed in
      bind_run (demand (ep_comparisons step \<le> index \<and> (ep_entry step \<or> ep_comparisons step = 0))
        ''epistemic_entry_epoch_invalid'') (\<lambda>_.
      bind_run (if ep_entry step
                then bind_run (if ep_comparisons step \<noteq> 0 then reference (ep_comparisons step) else returns comparisons)
                       (mark_entry d support)
                else returns support) (\<lambda>support.
      bind_run (advance d False support (ep_action step)) (\<lambda>branches.
      case dict_get branches (ep_observation step) of
        None \<Rightarrow> lift (Inl (GrowthError ''epistemic_observation_mismatch''))
      | Some s \<Rightarrow> returns s))))"

fun fold_run :: "('b \<Rightarrow> 'c \<Rightarrow> ('s, 'c) stateful) \<Rightarrow> 'b list \<Rightarrow> 'c \<Rightarrow> ('s, 'c) stateful" where
  "fold_run f [] acc = returns acc"
| "fold_run f (x # xs) acc = bind_run (f x acc) (fold_run f xs)"

definition replay_with ::
  "epistemic_domain \<Rightarrow> (nat \<Rightarrow> ('a counters_scheme, comparison list) stateful) \<Rightarrow> epistemic_step list \<Rightarrow> comparison list \<Rightarrow>
   ('a counters_scheme, hypothesis list) stateful" where
  "replay_with d reference history comparisons =
     bind_run (demand (length history \<le> ec_max_history (do_epistemic d)) ''epistemic_history_budget'') (\<lambda>_.
     bind_run (initial_support d)
       (fold_run (replay_step d reference comparisons) (List.enumerate 0 history)))"

section \<open>What the controller may see\<close>

record bounds =
  bo_lower :: rat
  bo_upper :: rat

record view =
  vw_support :: digest
  vw_pairs :: nat
  vw_models :: "ident list"
  vw_enabled :: "ident list"
  vw_capacity :: "(ident, bounds) dict"
  vw_resource :: "(ident, bounds) dict"
  vw_spent :: "(ident, bounds) dict"
  vw_elapsed :: bounds
  vw_debt :: "(ident, bounds) dict"
  vw_depth :: bounds

definition bounds_of :: "(hypothesis \<Rightarrow> growth_error + rat) \<Rightarrow> (hypothesis \<Rightarrow> growth_error + rat) \<Rightarrow> hypothesis list \<Rightarrow>
   growth_error + bounds" where
  "bounds_of f g support =
     res_bind (res_bind (map_res f support) min_of) (\<lambda>l.
     res_bind (res_bind (map_res g support) max_of) (\<lambda>u. Inr \<lparr>bo_lower = l, bo_upper = u\<rparr>))"

definition bounds_dict :: "(ident \<Rightarrow> growth_error + bounds) \<Rightarrow> ident list \<Rightarrow> growth_error + (ident, bounds) dict" where
  "bounds_dict f ks = map_res (\<lambda>k. res_bind (f k) (\<lambda>b. Inr (k, b))) ks"

definition enabled_in_all :: "epistemic_domain \<Rightarrow> hypothesis list \<Rightarrow> ident set" where
  "enabled_in_all d support =
     {a \<in> set (dict_keys (do_recipes d)). \<forall>h \<in> set support.
        case gs_frontier (hy_state h) of None \<Rightarrow> True | Some f \<Rightarrow> a \<in> set (fp_enabled f)}"

definition depth_of :: "hypothesis \<Rightarrow> rat" where
  "depth_of h = (case gs_frontier (hy_state h) of None \<Rightarrow> 0 | Some f \<Rightarrow> of_int (fp_depth f))"

definition controller_view :: "epistemic_domain \<Rightarrow> hypothesis list \<Rightarrow> growth_error + view" where
  "controller_view d support =
     (let c = do_contract d; domains = sorted_set (dict_keys (gc_domains c));
          resources = sorted_set (dict_keys (gc_resource_units c)) in
      then_do (check (support \<noteq> []) ''epistemic_inconsistent_support'')
     (res_bind (bounds_dict (\<lambda>k. bounds_of
         (\<lambda>h. res_bind (item (gs_capacities (hy_state h)) k) (\<lambda>i. Inr (iv_lower i)))
         (\<lambda>h. res_bind (item (gs_capacities (hy_state h)) k) (\<lambda>i. Inr (iv_upper i))) support) domains) (\<lambda>capacity.
      res_bind (bounds_dict (\<lambda>k. bounds_of (\<lambda>h. item (gs_resources (hy_state h)) k)
         (\<lambda>h. item (gs_resources (hy_state h)) k) support) resources) (\<lambda>resource.
      res_bind (bounds_dict (\<lambda>k. bounds_of (\<lambda>h. Inr (dict_get_default (gs_spent (hy_state h)) k 0))
         (\<lambda>h. Inr (dict_get_default (gs_spent (hy_state h)) k 0)) support) resources) (\<lambda>spent.
      res_bind (bounds_of (\<lambda>h. Inr (gs_elapsed (hy_state h))) (\<lambda>h. Inr (gs_elapsed (hy_state h))) support) (\<lambda>elapsed.
      res_bind (bounds_dict (\<lambda>k. bounds_of (\<lambda>h. Inr (stage_debt (hy_state h) k))
         (\<lambda>h. Inr (stage_debt (hy_state h) k)) support) domains) (\<lambda>debt.
      res_bind (bounds_of (\<lambda>h. Inr (depth_of h)) (\<lambda>h. Inr (depth_of h)) support) (\<lambda>depth.
      Inr \<lparr>vw_support = ed_support (do_digests d) support, vw_pairs = length support,
           vw_models = sorted_set (map hy_model support),
           vw_enabled = sorted_list_of_set (enabled_in_all d support - set (do_excluded_actions d)),
           vw_capacity = capacity, vw_resource = resource, vw_spent = spent, vw_elapsed = elapsed,
           vw_debt = debt, vw_depth = depth\<rparr>))))))))"

end
