(* ===== verification/Epistemic_Search.thy ===== *)
theory Epistemic_Search
  imports Epistemic
begin

text \<open>
  Policies over supports: the enumeration of \<open>v6/epistemic_planning.py\<close> with its memo and budget, the
  comparators, \<open>plan_epistemic\<close>, and the independent checker and reference comparisons of
  \<open>v6/epistemic_checking.py\<close>. The recursion of both goes one decision deeper each time: the fuel is one
  more than the decisions of the contract, and running out of it would be \<open>Diverges\<close>.
\<close>

section \<open>Policies\<close>

definition LIMIT_CODES :: "string list" where
  "LIMIT_CODES = [''epistemic_search_budget'', ''epistemic_support_budget'', ''epistemic_history_budget'']"

record epistemic_policy =
  po_node :: epistemic_node
  po_leaves :: "hypothesis list"
  po_nodes :: nat

text \<open>\<open>EpistemicPolicyNode(...)\<close> checks the names of its action and branches and their number.\<close>

definition make_node ::
  "digest \<Rightarrow> ident option \<Rightarrow> bool \<Rightarrow> (ident \<times> epistemic_node) list \<Rightarrow> growth_error + epistemic_node" where
  "make_node d action entry branches =
     require ((case action of None \<Rightarrow> True | Some a \<Rightarrow> is_identifier a) \<and>
              (\<forall>symbol \<in> set (dict_keys branches). is_identifier symbol) \<and> length branches \<le> 32)
       ValidationError (Inr (EpistemicNode d action entry branches))"

definition leaves_objective :: "epistemic_domain \<Rightarrow> digest \<Rightarrow> hypothesis list \<Rightarrow> growth_error + objective" where
  "leaves_objective d state leaves =
     objective_of (do_contract d) \<lparr>ca_node = leaf state, ca_terminals = map hy_state leaves,
       ca_entries = map cp_time (List.map_filter hy_entry leaves), ca_count = 1\<rparr>"

definition policy_objective :: "epistemic_domain \<Rightarrow> epistemic_policy \<Rightarrow> growth_error + objective" where
  "policy_objective d p =
     then_do (check (\<forall>h \<in> set (po_leaves p). hy_entry h \<noteq> None) ''epistemic_continuation_missing'')
       (leaves_objective d (en_support (po_node p)) (po_leaves p))"

definition policy_key :: "epistemic_domain \<Rightarrow> epistemic_policy \<Rightarrow> growth_error + objective_rank" where
  "policy_key d p =
     (let c = do_contract d in
      res_bind (policy_objective d p) (\<lambda>obj.
      res_bind (map_res (item (ob_cost obj)) (gc_cost_order c)) (\<lambda>costs.
      res_bind (map_res (item (ob_debt obj)) (sort (dict_keys (gc_domains c)))) (\<lambda>debts.
      Inr ([ob_entry obj, - ob_attainment obj] @ costs @ debts @ [ob_duration obj],
           (case en_action (po_node p) of None \<Rightarrow> '''' | Some a \<Rightarrow> a), ed_node (do_digests d) (po_node p))))))"

section \<open>Enumeration\<close>

record policy_search = counters +
  ps_memo :: "(digest \<times> nat, epistemic_policy list) dict"
  ps_stored :: nat

definition fresh_policies :: policy_search where
  "fresh_policies = counters.extend fresh_counters \<lparr>ps_memo = [], ps_stored = 0\<rparr>"

text \<open>The fields a \<open>PolicySearch\<close> never assigns.\<close>

record policy_env =
  pe_domain :: epistemic_domain
  pe_comparisons :: "comparison list"
  pe_endpoint :: "rat option"

fun map_run :: "('b \<Rightarrow> ('s, 'c) stateful) \<Rightarrow> 'b list \<Rightarrow> ('s, 'c list) stateful" where
  "map_run f [] = returns []"
| "map_run f (x # xs) = bind_run (f x) (\<lambda>y. bind_run (map_run f xs) (\<lambda>ys. returns (y # ys)))"

text \<open>\<open>or\<close> of the two limits: the policies are only counted when the nodes fit.\<close>

definition policy_fits :: "epistemic_domain \<Rightarrow> nat \<Rightarrow> (policy_search, bool) stateful" where
  "policy_fits d count =
     bind_run (get_run (\<lambda>st. ps_stored st + count > li_max_witness_nodes (domain_limits d))) (\<lambda>over.
     if over then returns False else budget_take d Policies)"

fun add_policies ::
  "epistemic_domain \<Rightarrow> digest \<Rightarrow> ident \<Rightarrow> bool \<Rightarrow> ident list \<Rightarrow> epistemic_policy list list \<Rightarrow> epistemic_policy list \<Rightarrow>
   (policy_search, epistemic_policy list flow) stateful" where
  "add_policies d key action entry symbols [] found = returns (Onward found)"
| "add_policies d key action entry symbols (children # products) found =
     (let count = 1 + sum_list (map po_nodes children) in
      bind_run (policy_fits d count) (\<lambda>ok.
      if \<not> ok then bind_run (modify incomplete) (\<lambda>_. returns (Return found))
      else bind_run (modify (\<lambda>st. st\<lparr>ps_stored := ps_stored st + count\<rparr>)) (\<lambda>_.
           bind_run (lift (make_node key (Some action) entry (zip symbols (map po_node children)))) (\<lambda>node.
           add_policies d key action entry symbols products
             (found @ [\<lparr>po_node = node, po_leaves = concat (map po_leaves children), po_nodes = count\<rparr>])))))"

type_synonym policy_enumerator = "hypothesis list \<Rightarrow> nat \<Rightarrow> (policy_search, epistemic_policy list) stateful"

definition try_action ::
  "policy_enumerator \<Rightarrow> epistemic_domain \<Rightarrow> digest \<Rightarrow> nat \<Rightarrow> bool \<Rightarrow> hypothesis list \<Rightarrow> ident \<Rightarrow> epistemic_policy list \<Rightarrow>
   (policy_search, epistemic_policy list flow) stateful" where
  "try_action recur d key depth entry selected action found =
     bind_run (catching (advance d True selected action)) (\<lambda>out.
     case out of
       Inl code \<Rightarrow>
         if code \<in> set LIMIT_CODES then bind_run (modify incomplete) (\<lambda>_. returns (Return found))
         else returns (Onward found)
     | Inr branches \<Rightarrow>
         bind_run (map_run (\<lambda>child. recur child (depth + 1)) (dict_values branches)) (\<lambda>choices.
         if [] \<in> set choices then returns (Onward found)
         else add_policies d key action entry (dict_keys branches) (product_lists choices) found))"

fun try_actions ::
  "policy_enumerator \<Rightarrow> epistemic_domain \<Rightarrow> digest \<Rightarrow> nat \<Rightarrow> (bool \<times> hypothesis list) \<times> ident list \<Rightarrow>
   epistemic_policy list \<Rightarrow> (policy_search, epistemic_policy list flow) stateful" where
  "try_actions recur d key depth ((entry, selected), []) found = returns (Onward found)"
| "try_actions recur d key depth ((entry, selected), action # actions) found =
     bind_run (try_action recur d key depth entry selected action found) (\<lambda>out.
     case out of Return found \<Rightarrow> returns (Return found)
     | Onward found \<Rightarrow> try_actions recur d key depth ((entry, selected), actions) found)"

fun try_selections ::
  "policy_enumerator \<Rightarrow> epistemic_domain \<Rightarrow> digest \<Rightarrow> nat \<Rightarrow> (bool \<times> hypothesis list) list \<Rightarrow> epistemic_policy list \<Rightarrow>
   (policy_search, epistemic_policy list flow) stateful" where
  "try_selections recur d key depth [] found = returns (Onward found)"
| "try_selections recur d key depth (selection # selections) found =
     bind_run (try_actions recur d key depth (selection, sort (dict_keys (do_recipes d))) found) (\<lambda>out.
     case out of Return found \<Rightarrow> returns (Return found)
     | Onward found \<Rightarrow> try_selections recur d key depth selections found)"

definition last_time :: "policy_env \<Rightarrow> hypothesis \<Rightarrow> rat" where
  "last_time e h =
     (case pe_endpoint e of Some t \<Rightarrow> t
      | None \<Rightarrow> (case hy_entry h of Some p \<Rightarrow> cp_time p + gc_continuation_horizon (do_contract (pe_domain e))
                | None \<Rightarrow> gc_deadline (do_contract (pe_domain e))))"

definition selections_of :: "policy_env \<Rightarrow> hypothesis list \<Rightarrow> (policy_search, (bool \<times> hypothesis list) list) stateful" where
  "selections_of e support =
     (if pe_endpoint e = None \<and> (\<forall>h \<in> set support. hy_entry h = None)
      then bind_run (catching (mark_entry (pe_domain e) support (pe_comparisons e))) (\<lambda>out.
           case out of
             Inr marked \<Rightarrow> returns [(False, support), (True, marked)]
           | Inl code \<Rightarrow> if code \<noteq> ''epistemic_hidden_entry'' then lift (Inl (GrowthError code))
                         else returns [(False, support)])
      else returns [(False, support)])"

definition history_limit :: "epistemic_domain \<Rightarrow> nat" where
  "history_limit d = min (li_max_depth (domain_limits d)) (ec_max_history (do_epistemic d))"

definition policies_here :: "policy_enumerator \<Rightarrow> policy_env \<Rightarrow> digest \<Rightarrow> policy_enumerator" where
  "policies_here recur e key support depth =
     bind_run (selections_of e support) (\<lambda>selections.
     bind_run (try_selections recur (pe_domain e) key depth selections []) (\<lambda>out.
     case out of Return found \<Rightarrow> returns found
     | Onward found \<Rightarrow>
         bind_run (modify (\<lambda>st. if cs_complete st then st\<lparr>ps_memo := dict_set (ps_memo st) (key, depth) found\<rparr> else st))
           (\<lambda>_. returns found)))"

definition policies_body :: "policy_enumerator \<Rightarrow> policy_env \<Rightarrow> policy_enumerator" where
  "policies_body recur e support depth =
     (let d = pe_domain e; key = ed_support (do_digests d) support in
      bind_run (get_run (\<lambda>st. dict_get (ps_memo st) (key, depth))) (\<lambda>known.
      case known of Some found \<Rightarrow> returns found
      | None \<Rightarrow>
        bind_run (budget_take d States) (\<lambda>ok.
        if \<not> ok then returns []
        else bind_run (modify (\<lambda>st. st\<lparr>cs_depth := max (cs_depth st) depth\<rparr>)) (\<lambda>_.
             bind_run (lift (support_terminal d (pe_endpoint e) support)) (\<lambda>ended.
             if ended then returns [\<lparr>po_node = EpistemicNode key None False [], po_leaves = support, po_nodes = 1\<rparr>]
             else if depth \<ge> gc_max_decisions (do_contract d) then returns []
             else if depth \<ge> history_limit d then bind_run (modify incomplete) (\<lambda>_. returns [])
             else if \<exists>h \<in> set support. gs_elapsed (hy_state h) \<ge> last_time e h then returns []
             else policies_here recur e key support depth)))))"

fun policies_from :: "nat \<Rightarrow> policy_env \<Rightarrow> policy_enumerator" where
  "policies_from 0 e support depth = lift (Inl Diverges)"
| "policies_from (Suc n) e support depth = policies_body (policies_from n e) e support depth"

definition enumerate_supports :: "policy_env \<Rightarrow> policy_enumerator" where
  "enumerate_supports e support depth = policies_from (Suc (gc_max_decisions (do_contract (pe_domain e)))) e support depth"

section \<open>The independent reference\<close>

record reference_search = counters +
  rs_nodes :: nat

definition fresh_reference :: reference_search where
  "fresh_reference = counters.extend fresh_counters \<lparr>rs_nodes = 0\<rparr>"

text \<open>\<open>Domain(...)\<close> with the exclusions of a comparator.\<close>

definition restricted_domain :: "epistemic_domain \<Rightarrow> comparator \<Rightarrow> growth_error + epistemic_domain" where
  "restricted_domain d x =
     make_domain (do_digests d) (do_contract d) (do_objects d) (do_epistemic d) (do_frontier d) (Some (do_map d))
       (do_excluded_actions d) (do_excluded_interactions d @ co_excluded x)"

definition worst_of :: "(interval \<Rightarrow> rat) \<Rightarrow> epistemic_domain \<Rightarrow> hypothesis list \<Rightarrow> growth_error + rat" where
  "worst_of bound d hs = res_bind (map_res (\<lambda>h. attainment bound (do_contract d) (hy_state h)) hs) min_of"

type_synonym valuation = "hypothesis list \<Rightarrow> nat \<Rightarrow> (reference_search, (rat \<times> rat) option) stateful"

fun value_options :: "valuation \<Rightarrow> epistemic_domain \<Rightarrow> hypothesis list \<Rightarrow> nat \<Rightarrow> ident list \<Rightarrow> (rat \<times> rat) list \<Rightarrow>
   (reference_search, (rat \<times> rat) list) stateful" where
  "value_options recur d support depth [] options = returns options"
| "value_options recur d support depth (action # actions) options =
     bind_run (catching (advance d True support action)) (\<lambda>out.
     case out of
       Inl code \<Rightarrow>
         if code = ''epistemic_support_budget'' \<or> code = ''epistemic_search_budget'' then lift (Inl (GrowthError code))
         else value_options recur d support depth actions options
     | Inr branches \<Rightarrow>
         bind_run (map_run (\<lambda>child. recur child (depth + 1)) (dict_values branches)) (\<lambda>children.
         if None \<in> set children then value_options recur d support depth actions options
         else bind_run (lift (min_of (map fst (map the children)))) (\<lambda>l.
              bind_run (lift (min_of (map snd (map the children)))) (\<lambda>u.
              value_options recur d support depth actions (options @ [(l, u)])))))"

definition value_body :: "valuation \<Rightarrow> epistemic_domain \<Rightarrow> rat \<Rightarrow> valuation" where
  "value_body recur d endpoint support depth =
     bind_run (budget_take d States) (\<lambda>ok.
     bind_run (demand ok ''epistemic_check_budget'') (\<lambda>_.
     bind_run (modify (\<lambda>st. st\<lparr>cs_depth := max (cs_depth st) depth\<rparr>)) (\<lambda>_.
     if \<forall>h \<in> set support. gs_elapsed (hy_state h) = endpoint
     then bind_run (lift (worst_of iv_lower d support)) (\<lambda>l.
          bind_run (lift (worst_of iv_upper d support)) (\<lambda>u. returns (Some (l, u))))
     else if depth \<ge> gc_max_decisions (do_contract d) \<or> (\<exists>h \<in> set support. gs_elapsed (hy_state h) \<ge> endpoint)
     then returns None
     else bind_run (demand (depth < history_limit d) ''epistemic_check_budget'') (\<lambda>_.
          bind_run (value_options recur d support depth (sort (dict_keys (do_recipes d))) []) (\<lambda>options.
          returns (if options = [] then None
                   else Some (Max (set (map fst options)), Max (set (map snd options)))))))))"

fun value_from :: "nat \<Rightarrow> epistemic_domain \<Rightarrow> rat \<Rightarrow> valuation" where
  "value_from 0 d endpoint support depth = lift (Inl Diverges)"
| "value_from (Suc n) d endpoint support depth = value_body (value_from n d endpoint) d endpoint support depth"

definition make_comparison ::
  "epistemic_domain \<Rightarrow> comparator \<Rightarrow> rat \<Rightarrow> comparison_status \<Rightarrow> rat option \<Rightarrow> rat option \<Rightarrow> report \<Rightarrow>
   growth_error + comparison" where
  "make_comparison d x endpoint status lower upper search =
     require (\<forall>q \<in> set_option lower \<union> set_option upper. fits q) ValidationError
       (Inr \<lparr>cm_id = co_id x, cm_endpoint = endpoint, cm_status = status, cm_lower = lower, cm_upper = upper,
             cm_search = search, cm_basis = domain_digest d, cm_policy = None\<rparr>)"

text \<open>A comparator at an endpoint: a restricted domain with counters of its own.\<close>

definition reference_one ::
  "epistemic_domain \<Rightarrow> hypothesis list option \<Rightarrow> nat \<Rightarrow> comparator \<times> rat \<Rightarrow> growth_error + comparison" where
  "reference_one d resumed depth xt =
     (let (x, endpoint) = xt in
      res_bind (restricted_domain d x) (\<lambda>r.
      let (out, st) = bind_run (case resumed of Some s \<Rightarrow> returns s | None \<Rightarrow> initial_support r)
            (\<lambda>start. value_from (Suc (gc_max_decisions (do_contract d))) r endpoint start depth) fresh_reference
      in res_bind out (\<lambda>bounds.
         make_comparison d x endpoint (if bounds \<noteq> None then Supported else Undetermined)
           (map_option fst bounds) (map_option snd bounds) (counters_report (domain_limits d) st))))"

definition comparator_grid :: "epistemic_domain \<Rightarrow> (comparator \<times> rat) list" where
  "comparator_grid d =
     List.product (sort_key co_id (gc_comparators (do_contract d))) (sorted_set (map win_end (gc_windows (do_contract d))))"

text \<open>
  \<open>reference_comparisons\<close> and \<open>Domain.replay\<close> call each other on ever shorter histories; the fuel counts the
  length of the history.
\<close>

fun reference_from :: "nat \<Rightarrow> epistemic_domain \<Rightarrow> epistemic_step list \<Rightarrow> ('a counters_scheme, comparison list) stateful" where
  "reference_from 0 d history = lift (Inl Diverges)"
| "reference_from (Suc n) d history =
     (if history = [] then lift (map_res (reference_one d None 0) (comparator_grid d))
      else bind_run (reference_from n d []) (\<lambda>comparisons.
           bind_run (replay_with d (\<lambda>k. reference_from n d (take k history)) history comparisons) (\<lambda>resumed.
           lift (map_res (reference_one d (Some resumed) (length history)) (comparator_grid d)))))"

definition reference_comparisons :: "epistemic_domain \<Rightarrow> epistemic_step list \<Rightarrow> ('a counters_scheme, comparison list) stateful" where
  "reference_comparisons d history = reference_from (Suc (Suc (length history))) d history"

definition replay ::
  "epistemic_domain \<Rightarrow> epistemic_step list \<Rightarrow> comparison list \<Rightarrow> ('a counters_scheme, hypothesis list) stateful" where
  "replay d history comparisons = replay_with d (\<lambda>k. reference_comparisons d (take k history)) history comparisons"

end
