(* ===== verification/Epistemic_Plan.thy ===== *)
theory Epistemic_Plan
  imports Epistemic_Search
begin

text \<open>
  Plans over supports: \<open>compare_epistemic\<close> and \<open>plan_epistemic\<close> (\<open>v6/epistemic_planning.py\<close>), the checker
  \<open>check_epistemic_plan\<close> (\<open>v6/epistemic_checking.py\<close>) and the estimands of
  \<open>v6/information_value.py\<close>. Fields that are the same for every plan are left out.
\<close>

section \<open>Comparators\<close>

definition HANDLED_CODES :: "string list" where
  "HANDLED_CODES = LIMIT_CODES @ [''epistemic_inconsistent_support'']"

text \<open>What the restricted search found: its policies, whether it was inconsistent, and its counters.\<close>

type_synonym searched = "epistemic_policy list \<times> bool \<times> policy_search"

definition search_restricted ::
  "epistemic_domain \<Rightarrow> rat \<Rightarrow> hypothesis list option \<Rightarrow> nat \<Rightarrow> growth_error + searched" where
  "search_restricted r endpoint resumed depth =
     (let e = \<lparr>pe_domain = r, pe_comparisons = [], pe_endpoint = Some endpoint\<rparr>;
          (out, st) = bind_run (case resumed of Some s \<Rightarrow> returns s | None \<Rightarrow> initial_support r)
            (\<lambda>start. enumerate_supports e start depth) fresh_policies
      in case out of
           Inr policies \<Rightarrow> Inr (policies, False, st)
         | Inl (GrowthError code) \<Rightarrow>
             if code \<in> set HANDLED_CODES then Inr ([], code = ''epistemic_inconsistent_support'', incomplete st)
             else Inl (GrowthError code)
         | Inl er \<Rightarrow> Inl er)"

definition best_bound :: "(interval \<Rightarrow> rat) \<Rightarrow> epistemic_domain \<Rightarrow> epistemic_policy list \<Rightarrow> growth_error + rat option" where
  "best_bound bound d policies =
     res_bind (map_res (\<lambda>p. worst_of bound d (po_leaves p)) policies) (\<lambda>vs.
       Inr (if vs = [] then None else Some (Max (set vs))))"

definition report_searched ::
  "epistemic_domain \<Rightarrow> comparator \<Rightarrow> rat \<Rightarrow> searched \<Rightarrow> growth_error + comparison" where
  "report_searched d x endpoint found =
     (let (policies, inconsistent, st) = found in
      res_bind (best_bound iv_lower d policies) (\<lambda>lower.
      res_bind (if cs_complete st then best_bound iv_upper d policies else Inr None) (\<lambda>upper.
      make_comparison d x endpoint
        (if inconsistent then Inconsistent else if upper \<noteq> None then Supported else Undetermined)
        lower upper (counters_report (domain_limits d) st))))"

text \<open>
  The replay of the history is tried until it succeeds once; a comparator whose replay failed is reported
  with an incomplete search. \<open>base\<close> are the comparisons at the start of the game.
\<close>

definition resume ::
  "epistemic_domain \<Rightarrow> ('a counters_scheme, comparison list) stateful \<Rightarrow> epistemic_step list \<Rightarrow> hypothesis list option \<Rightarrow>
   ('a counters_scheme, hypothesis list option) stateful" where
  "resume d base history resumed =
     (if history \<noteq> [] \<and> resumed = None
      then bind_run base (\<lambda>comparisons. bind_run (replay d history comparisons) (\<lambda>s. returns (Some s)))
      else returns resumed)"

fun compare_grid ::
  "epistemic_domain \<Rightarrow> ('a counters_scheme, comparison list) stateful \<Rightarrow> epistemic_step list \<Rightarrow> (comparator \<times> rat) list \<Rightarrow>
   hypothesis list option \<Rightarrow> ('a counters_scheme, comparison list) stateful" where
  "compare_grid d base history [] resumed = returns []"
| "compare_grid d base history ((x, endpoint) # grid) resumed =
     bind_run (lift (restricted_domain d x)) (\<lambda>r.
     bind_run (catching (resume d base history resumed)) (\<lambda>out.
     bind_run (lift (case out of
         Inr resumed \<Rightarrow> res_bind (search_restricted r endpoint resumed (length history)) (\<lambda>found. Inr (found, resumed))
       | Inl code \<Rightarrow>
           if code \<in> set HANDLED_CODES
           then Inr (([], code = ''epistemic_inconsistent_support'', incomplete fresh_policies), resumed)
           else Inl (GrowthError code))) (\<lambda>(found, resumed).
     bind_run (lift (report_searched d x endpoint found)) (\<lambda>comparison.
     bind_run (compare_grid d base history grid resumed) (\<lambda>rest. returns (comparison # rest))))))"

definition compare_start :: "epistemic_domain \<Rightarrow> ('a counters_scheme, comparison list) stateful" where
  "compare_start d = compare_grid d (returns []) [] (comparator_grid d) None"

definition compare_epistemic :: "epistemic_domain \<Rightarrow> epistemic_step list \<Rightarrow> ('a counters_scheme, comparison list) stateful" where
  "compare_epistemic d history = compare_grid d (compare_start d) history (comparator_grid d) None"

section \<open>Plans\<close>

record epistemic_plan =
  el_input :: digest
  el_contract :: digest
  el_history :: "epistemic_step list"
  el_map :: "(ident, ident) dict"
  el_excluded_actions :: "ident list"
  el_excluded_interactions :: "ident list"
  el_code :: string
  el_policy :: "epistemic_node option"
  el_policy_digest :: "digest option"
  el_objective :: "objective option"
  el_search :: report
  el_comparisons :: "comparison list"
  el_peak :: nat
  el_transitions :: nat

fun first_least :: "('a \<times> 'k::linorder) list \<Rightarrow> 'a option" where
  "first_least [] = None"
| "first_least (xk # xks) = Some (fst (fold (\<lambda>x best. if snd x < snd best then x else best) xks xk))"

definition choose_policy :: "epistemic_domain \<Rightarrow> epistemic_policy list \<Rightarrow> growth_error + epistemic_policy option" where
  "choose_policy d choices =
     res_bind (map_res (\<lambda>p. res_bind (policy_key d p) (\<lambda>k. Inr (p, k))) choices) (\<lambda>keyed. Inr (first_least keyed))"

definition epistemic_code :: "string \<Rightarrow> bool \<Rightarrow> epistemic_policy option \<Rightarrow> string" where
  "epistemic_code code exact best =
     (if best \<noteq> None then if exact then ''epistemic_policy_found'' else ''epistemic_incumbent''
      else if \<not> exact \<and> code = ''epistemic_no_guaranteed_entry'' then ''epistemic_search_unknown''
      else code)"

text \<open>The \<open>try\<close> of \<open>plan_epistemic\<close>: the support after the history and the policies from there.\<close>

definition plan_choices ::
  "epistemic_domain \<Rightarrow> epistemic_step list \<Rightarrow> comparison list \<Rightarrow> (policy_search, epistemic_policy list) stateful" where
  "plan_choices d history comparisons =
     bind_run (if history = [] then returns comparisons else compare_start d) (\<lambda>start.
     bind_run (replay d history start) (\<lambda>support.
     enumerate_supports \<lparr>pe_domain = d, pe_comparisons = comparisons, pe_endpoint = None\<rparr> support (length history)))"

definition plan_code_choices ::
  "epistemic_domain \<Rightarrow> epistemic_step list \<Rightarrow> comparison list \<Rightarrow> (policy_search, string \<times> epistemic_policy list) stateful" where
  "plan_code_choices d history comparisons =
     bind_run (catching (plan_choices d history comparisons)) (\<lambda>out.
     case out of
       Inr choices \<Rightarrow> returns (''epistemic_no_guaranteed_entry'', choices)
     | Inl code \<Rightarrow>
         if code \<in> set (HANDLED_CODES @ [''epistemic_observation_mismatch''])
         then bind_run (modify incomplete) (\<lambda>_. returns (code, []))
         else lift (Inl (GrowthError code)))"

definition make_plan ::
  "epistemic_domain \<Rightarrow> epistemic_step list \<Rightarrow> comparison list \<Rightarrow> string \<Rightarrow> epistemic_policy option \<Rightarrow> objective option \<Rightarrow>
   policy_search \<Rightarrow> growth_error + epistemic_plan" where
  "make_plan d history comparisons code best obj st =
     (let excluded = sorted_set (do_excluded_actions d); interactions = sorted_set (do_excluded_interactions d) in
      require (length history \<le> 16 \<and> length (do_map d) \<le> 32 \<and> (\<forall>v \<in> set (dict_values (do_map d)). is_identifier v) \<and>
               (\<forall>k \<in> set (dict_keys (do_map d)). is_identifier k) \<and> length excluded \<le> 16 \<and> length interactions \<le> 32 \<and>
               (\<forall>x \<in> set (excluded @ interactions). is_identifier x) \<and> length comparisons \<le> 128) ValidationError
        (Inr \<lparr>el_input = domain_digest d, el_contract = ed_contract (do_digests d) (do_epistemic d), el_history = history,
              el_map = do_map d, el_excluded_actions = excluded, el_excluded_interactions = interactions, el_code = code,
              el_policy = map_option po_node best,
              el_policy_digest = map_option (\<lambda>p. ed_node (do_digests d) (po_node p)) best, el_objective = obj,
              el_search = counters_report (domain_limits d) st, el_comparisons = comparisons,
              el_peak = min (cs_peak st) 512, el_transitions = cs_transitions st\<rparr>))"

definition plan_epistemic :: "epistemic_domain \<Rightarrow> epistemic_step list \<Rightarrow> growth_error + epistemic_plan" where
  "plan_epistemic given history =
     res_bind (make_domain (do_digests given) (do_contract given) (do_objects given) (do_epistemic given) (do_frontier given)
       (Some (do_map given)) (do_excluded_actions given) (do_excluded_interactions given)) (\<lambda>d.
     let (compared, st) = compare_epistemic d history fresh_policies in
     res_bind compared (\<lambda>comparisons.
     let (out, st) = plan_code_choices d history comparisons st in
     res_bind out (\<lambda>(code, choices).
     res_bind (choose_policy d choices) (\<lambda>best.
     let exact = (cs_complete st \<and> (\<forall>x \<in> set comparisons. rp_complete (cm_search x))) in
     res_bind (case best of None \<Rightarrow> Inr None
               | Some p \<Rightarrow> res_bind (policy_objective d p) (\<lambda>obj. Inr (Some obj))) (\<lambda>obj.
     make_plan d history comparisons (epistemic_code code exact best) best obj (st\<lparr>cs_complete := exact\<rparr>))))))"

section \<open>The checker\<close>

definition next_node :: "epistemic_domain \<Rightarrow> epistemic_node \<Rightarrow> hypothesis list \<Rightarrow> nat \<Rightarrow> comparison list \<Rightarrow>
   (reference_search, hypothesis list) stateful" where
  "next_node d node current depth comparisons =
     bind_run (modify (\<lambda>st. st\<lparr>rs_nodes := rs_nodes st + 1\<rparr>)) (\<lambda>_.
     bind_run (get_run rs_nodes) (\<lambda>nodes.
     bind_run (demand (nodes \<le> li_max_witness_nodes (domain_limits d) \<and> depth \<le> gc_max_decisions (do_contract d) \<and>
         depth \<le> ec_max_history (do_epistemic d)) ''epistemic_check_budget'') (\<lambda>_.
     bind_run (demand (en_support node = ed_support (do_digests d) current) ''epistemic_support_tampered'') (\<lambda>_.
     if en_entry node then mark_entry d current comparisons else returns current))))"

lemma epistemic_child_size: "dict_get (en_branches node) k = Some child \<Longrightarrow> size child < size node"
proof -
  assume "dict_get (en_branches node) k = Some child"
  then have "(k, child) \<in> set (en_branches node)" by (rule dict_get_SomeD)
  then show ?thesis
    by (cases node) (use size_list_estimation [where y = "size child" and f = "size_prod (\<lambda>x. 0) size"] in fastforce)
qed

text \<open>The leaves under a node, with the supports they are reached with.\<close>

function check_node ::
  "epistemic_domain \<Rightarrow> comparison list \<Rightarrow> epistemic_node \<Rightarrow> hypothesis list \<Rightarrow> nat \<Rightarrow>
   (reference_search, hypothesis list list) stateful" where
  "check_node d comparisons node current depth =
     bind_run (next_node d node current depth comparisons) (\<lambda>current.
     case en_action node of
       None \<Rightarrow>
         bind_run (lift (if en_branches node = [] \<and> \<not> en_entry node then support_terminal d None current else Inr False)) (\<lambda>ok.
         bind_run (demand ok ''epistemic_continuation_missing'') (\<lambda>_. returns [current]))
     | Some a \<Rightarrow>
         bind_run (lift (support_terminal d None current)) (\<lambda>ended.
         bind_run (demand (\<not> ended) ''epistemic_endpoint_overrun'') (\<lambda>_.
         bind_run (advance d True current a) (\<lambda>branches.
         bind_run (demand (set (dict_keys branches) = set (dict_keys (en_branches node)))
           ''epistemic_observation_branch_missing'') (\<lambda>_.
         fold_run (\<lambda>(symbol, after) leaves.
           case dict_get (en_branches node) symbol of
             None \<Rightarrow> lift (Inl KeyError)
           | Some child \<Rightarrow> bind_run (check_node d comparisons child after (depth + 1)) (\<lambda>more. returns (leaves @ more)))
           branches [])))))"
  by pat_completeness auto
termination
  by (relation "measure (\<lambda>(d, comparisons, node, _). size node)") (auto intro: epistemic_child_size)

declare check_node.simps [simp del]

record plan_check =
  pk_input :: digest
  pk_policy :: "digest option"
  pk_objective :: objective
  pk_nodes :: nat

definition check_epistemic_plan :: "epistemic_domain \<Rightarrow> epistemic_plan \<Rightarrow> growth_error + plan_check" where
  "check_epistemic_plan d plan =
     (let history = el_history plan in
      then_do (check (el_input plan = domain_digest d \<and> el_contract plan = ed_contract (do_digests d) (do_epistemic d) \<and>
          plain (el_map plan) = plain (do_map d) \<and> el_excluded_actions plan = sorted_set (do_excluded_actions d) \<and>
          el_excluded_interactions plan = sorted_set (do_excluded_interactions d)) ''epistemic_plan_binding'')
     (res_bind (require_some (el_policy plan) ''epistemic_policy_missing'') (\<lambda>policy.
      res_bind (require_some (el_objective plan) ''epistemic_policy_missing'') (\<lambda>submitted.
      then_do (check (el_policy_digest plan = Some (ed_node (do_digests d) policy)) ''epistemic_policy_digest'')
     (let (out, st) = bind_run (reference_comparisons d history) (\<lambda>comparisons.
            bind_run (if history = [] then returns comparisons else reference_comparisons d []) (\<lambda>start.
            bind_run (replay d history start) (\<lambda>support.
            bind_run (check_node d comparisons policy support (length history)) (\<lambda>groups.
            returns (ed_support (do_digests d) support, concat groups))))) fresh_reference
      in res_bind out (\<lambda>(state, leaves).
         res_bind (leaves_objective d state leaves) (\<lambda>computed.
         then_do (check (plain_objective computed = plain_objective submitted) ''epistemic_objective_tampered'')
           (Inr \<lparr>pk_input = domain_digest d, pk_policy = el_policy_digest plan, pk_objective = computed,
                 pk_nodes = rs_nodes st\<rparr>))))))))"

section \<open>The value of information\<close>

record information_difference =
  id_complete :: bool
  id_status :: string
  id_entry :: "rat option"
  id_attainment :: "rat option"
  id_cost :: "(ident, rat) dict"
  id_debt :: "(ident, rat) dict"
  id_duration :: "rat option"

definition no_difference :: "bool \<Rightarrow> string \<Rightarrow> information_difference" where
  "no_difference exact status = \<lparr>id_complete = exact, id_status = status, id_entry = None, id_attainment = None,
     id_cost = [], id_debt = [], id_duration = None\<rparr>"

definition delta_dict :: "(ident, rat) dict \<Rightarrow> (ident, rat) dict \<Rightarrow> growth_error + (ident, rat) dict" where
  "delta_dict a b = map_res (\<lambda>(k, v). res_bind (item b k) (\<lambda>w. Inr (k, v - w))) a"

definition plan_complete :: "epistemic_plan \<Rightarrow> bool" where
  "plan_complete p \<longleftrightarrow> rp_complete (el_search p) \<and> (\<forall>x \<in> set (el_comparisons p). rp_complete (cm_search x))"

definition difference :: "epistemic_plan \<Rightarrow> epistemic_plan \<Rightarrow> growth_error + information_difference" where
  "difference full comparator =
     (if \<not> (plan_complete full \<and> plan_complete comparator) then Inr (no_difference False ''unknown'')
      else case (el_objective full, el_objective comparator) of
        (Some a, Some b) \<Rightarrow>
          res_bind (delta_dict (ob_cost a) (ob_cost b)) (\<lambda>cost.
          res_bind (delta_dict (ob_debt a) (ob_debt b)) (\<lambda>debt.
          let entry = ob_entry a - ob_entry b; attained = ob_attainment a - ob_attainment b;
              duration = ob_duration a - ob_duration b in
          require (\<forall>q \<in> set (entry # attained # duration # dict_values cost @ dict_values debt). fits q) ValidationError
            (Inr \<lparr>id_complete = True, id_status = ''both'', id_entry = Some entry, id_attainment = Some attained,
                  id_cost = cost, id_debt = debt, id_duration = Some duration\<rparr>)))
      | (Some a, None) \<Rightarrow> Inr (no_difference True ''full-only'')
      | (None, Some b) \<Rightarrow> Inr (no_difference True ''comparator-only'')
      | (None, None) \<Rightarrow> Inr (no_difference True ''neither''))"

record information_value =
  iv_full :: epistemic_plan
  iv_blind :: epistemic_plan
  iv_without :: epistemic_plan
  iv_masked :: "(ident, ident) dict"
  iv_sensing :: "ident list"
  iv_use :: information_difference
  iv_net :: information_difference

definition information_value_of ::
  "epistemic_domain \<Rightarrow> (ident, ident) dict \<Rightarrow> ident list \<Rightarrow> growth_error + information_value" where
  "information_value_of d masked sensing =
     (let again = (\<lambda>m excluded. make_domain (do_digests d) (do_contract d) (do_objects d) (do_epistemic d) (do_frontier d)
            (Some m) excluded (do_excluded_interactions d)) in
      then_do (check (set (do_map d) = (\<lambda>s. (s, s)) ` set (ec_alphabet (do_epistemic d))) ''information_refinement_basis'')
     (then_do (check (sensing \<noteq> [] \<and> distinct sensing \<and> set sensing \<subseteq> set (dict_keys (do_recipes d)))
        ''information_sensing_actions'')
     (res_bind (again masked (do_excluded_actions d)) (\<lambda>blind.
      res_bind (again (do_map d) (do_excluded_actions d @ sensing)) (\<lambda>without.
      res_bind (plan_epistemic d []) (\<lambda>full.
      res_bind (plan_epistemic blind []) (\<lambda>masked_plan.
      res_bind (plan_epistemic without []) (\<lambda>absent.
      res_bind (difference full masked_plan) (\<lambda>use.
      res_bind (difference full absent) (\<lambda>net.
      Inr \<lparr>iv_full = full, iv_blind = masked_plan, iv_without = absent, iv_masked = masked, iv_sensing = sort sensing,
           iv_use = use, iv_net = net\<rparr>))))))))))"

end
