(* ===== verification/Epistemic_Facts.thy ===== *)
theory Epistemic_Facts
  imports Epistemic_Plan Search_Facts
begin

text \<open>
  Supports as knowledge: the worlds a history leaves possible, how one action moves a world, and what the
  methods of a domain yield when they return.
\<close>

section \<open>Normal states\<close>

lemma seed_free_normal:
  assumes "initial_state dg c None = Inr s"
  shows "normal s"
  using assms unfolding initial_state_def Let_def res_bind_Inr split_paired_Ex prod.case option.case
  by (elim exE conjE) (auto dest: normalize_normal)

lemma pay_event_normal: "pay_event d x h = Inr t \<Longrightarrow> normal (hy_state h) \<Longrightarrow> normal (hy_state t)"
  by (auto simp: pay_event_def Let_def dest: seed_free_normal split: if_splits)

lemma pay_normal: "pay d h = Inr t \<Longrightarrow> normal (hy_state h) \<Longrightarrow> normal (hy_state t)"
  unfolding pay_def by (erule fold_res_invariant [where P = "\<lambda>h. normal (hy_state h)"]) (auto dest: pay_event_normal)

lemma next_normal:
  assumes "step_transition d h r effect = Inr after" "next_hypothesis d h after = Inr t"
  shows "normal (hy_state t)"
proof -
  have "normal after" using assms(1) unfolding step_transition_def by (rule transition_normal)
  then show ?thesis using assms(2) by (auto simp: next_hypothesis_def make_hypothesis_def intro: pay_normal)
qed

section \<open>Canonical supports\<close>

lemma map_res_states:
  "\<forall>h \<in> set hs. normal (hy_state h) \<Longrightarrow>
   map_res (\<lambda>h. res_bind (normalize (hy_state h)) (\<lambda>s. Inr (h\<lparr>hy_state := s\<rparr>))) hs = Inr hs"
  by (induction hs) (auto simp: normalize_def normal_def)

lemma dict_update_set: "dict_update [] kvs = fold (\<lambda>(k, v) d. dict_set d k v) kvs []"
  by (simp add: dict_update_def)

lemma dict_of_injective:
  assumes "inj_on f (set xs)"
  shows "set (dict_of (map (\<lambda>x. (f x, x)) xs)) = (\<lambda>x. (f x, x)) ` set xs \<and> distinct (dict_keys (dict_of (map (\<lambda>x. (f x, x)) xs)))"
proof -
  have step: "set (dict_set dict k v) = insert (k, v) (set dict)"
    if "distinct (dict_keys dict)" "\<forall>w. (k, w) \<in> set dict \<longrightarrow> w = v" for dict k v
    using that by (induction dict) (auto simp: dict_set_def dict_keys_def)
  have "set (fold (\<lambda>(k, v) d. dict_set d k v) (map (\<lambda>x. (f x, x)) ys) dict) = (\<lambda>x. (f x, x)) ` (set ys \<union> A) \<and>
      distinct (dict_keys (fold (\<lambda>(k, v) d. dict_set d k v) (map (\<lambda>x. (f x, x)) ys) dict))"
    if "set dict = (\<lambda>x. (f x, x)) ` A" "distinct (dict_keys dict)" "inj_on f (set ys \<union> A)" for ys dict A
    using that
  proof (induction ys arbitrary: dict A)
    case (Cons y ys)
    have "\<forall>w. (f y, w) \<in> set dict \<longrightarrow> w = y" using Cons.prems(1,3) by (auto simp: inj_on_def)
    then have "set (dict_set dict (f y) y) = (\<lambda>x. (f x, x)) ` (insert y A)"
      using step [OF Cons.prems(2)] Cons.prems(1) by simp
    moreover have "inj_on f (set ys \<union> insert y A)" using Cons.prems(3) by (simp add: insert_commute)
    ultimately show ?case using Cons.IH [of "dict_set dict (f y) y" "insert y A"] Cons.prems(2) by simp
  qed auto
  from this [of "[]" "{}" xs] assms show ?thesis by (simp add: dict_of_def dict_update_def dict_keys_def)
qed

text \<open>Without collisions a canonical support has exactly the given members, once each.\<close>

lemma canonical_support_exact:
  assumes "\<forall>h \<in> set hs. normal (hy_state h)" "inj_on (ed_hypothesis ed) (set hs)"
    and "canonical_support ed hs = Inr result"
  shows "set result = set hs" "distinct result"
proof -
  let ?dict = "dict_of (map (\<lambda>h. (ed_hypothesis ed h, h)) hs)"
  have r: "result = map snd (sort_key fst ?dict)"
    using assms(3) map_res_states [OF assms(1)] by (simp add: canonical_support_def)
  have d: "set ?dict = (\<lambda>h. (ed_hypothesis ed h, h)) ` set hs" "distinct (dict_keys ?dict)"
    using dict_of_injective [OF assms(2)] by auto
  show "set result = set hs" using d(1) by (simp add: r image_image)
  have "distinct ?dict" using d(2) by (simp add: dict_keys_def distinct_map)
  moreover have "inj_on snd (set ?dict)" using d(1) by (auto simp: inj_on_def)
  ultimately show "distinct result" by (simp add: r distinct_map)
qed

section \<open>What a method yields\<close>

definition yields :: "('s, 'a) stateful \<Rightarrow> ('a \<Rightarrow> bool) \<Rightarrow> bool" where
  "yields m P \<longleftrightarrow> (\<forall>st x st'. m st = (Inr x, st') \<longrightarrow> P x)"

named_theorems yields_rules

lemma yields_returns [yields_rules]: "P x \<Longrightarrow> yields (returns x) P"
  by (simp add: yields_def returns_def)

lemma yields_lift [yields_rules]: "(\<And>x. m = Inr x \<Longrightarrow> P x) \<Longrightarrow> yields (lift m) P"
  by (simp add: yields_def lift_def)

lemma yields_bind: "yields m Q \<Longrightarrow> (\<And>x. Q x \<Longrightarrow> yields (f x) P) \<Longrightarrow> yields (bind_run m f) P"
  unfolding yields_def bind_run_def by (fastforce split: prod.splits sum.splits)

lemma yields_skip [yields_rules]: "(\<And>x. yields (f x) P) \<Longrightarrow> yields (bind_run m f) P"
  by (rule yields_bind [where Q = "\<lambda>_. True"]) (simp_all add: yields_def)

lemma yields_modify: "yields f P \<Longrightarrow> yields (bind_run (modify g) (\<lambda>_. f)) P"
  by (rule yields_skip)

lemma yields_maybe_take: "(\<And>x. yields (f x) P) \<Longrightarrow> yields (bind_run (if b then budget_take d c else returns True) f) P"
  by (rule yields_skip)

lemma yields_demand: "(C \<Longrightarrow> yields f P) \<Longrightarrow> yields (bind_run (demand C code) (\<lambda>_. f)) P"
  unfolding demand_def by (rule yields_bind [where Q = "\<lambda>_. C"]) (auto intro: yields_lift)

lemma yields_call: "(\<And>x. m = Inr x \<Longrightarrow> yields (f x) P) \<Longrightarrow> yields (bind_run (lift m) f) P"
  by (rule yields_bind [where Q = "\<lambda>x. m = Inr x"]) (auto intro: yields_lift)

lemma yields_weaken: "yields m Q \<Longrightarrow> (\<And>x. Q x \<Longrightarrow> P x) \<Longrightarrow> yields m P"
  by (auto simp: yields_def)

lemma yields_conj: "yields m P \<Longrightarrow> yields m Q \<Longrightarrow> yields m (\<lambda>x. P x \<and> Q x)"
  by (auto simp: yields_def)

lemma yieldsD: "yields m P \<Longrightarrow> m st = (Inr x, st') \<Longrightarrow> P x"
  by (auto simp: yields_def)

lemma bounded_yields:
  assumes "\<forall>h \<in> set hs. normal (hy_state h)" "inj_on (ed_hypothesis (do_digests d)) (set hs)"
  shows "yields (bounded d hs) (\<lambda>S. set S = set hs \<and> distinct S \<and> S \<noteq> [])"
  unfolding bounded_def
proof (rule yields_call, rule yields_demand)
  fix S assume S: "canonical_support (do_digests d) hs = Inr S" "S \<noteq> []"
  show "yields (bind_run (modify (\<lambda>st. st\<lparr>cs_peak := max (cs_peak st) (length S)\<rparr>)) (\<lambda>_.
      bind_run (demand (length S \<le> ec_max_support (do_epistemic d)) ''epistemic_support_budget'') (\<lambda>_.
      bind_run (demand (ed_size (do_digests d) S \<le> ec_max_bytes (do_epistemic d)) ''epistemic_support_budget'') (\<lambda>_.
      returns S)))) (\<lambda>S. set S = set hs \<and> distinct S \<and> S \<noteq> [])"
    using canonical_support_exact [OF assms S(1)] S(2) by (intro yields_rules) simp
qed

section \<open>Worlds\<close>

text \<open>One outcome of an action in a world: the world it leads to, under a symbol that may be seen.\<close>

definition moved :: "epistemic_domain \<Rightarrow> recipe \<Rightarrow> hypothesis \<Rightarrow> successor \<Rightarrow> ident \<Rightarrow> hypothesis \<Rightarrow> bool" where
  "moved d r h effect symbol t \<longleftrightarrow> (\<exists>after raws raw. step_transition d h r effect = Inr after \<and>
     next_hypothesis d h after = Inr t \<and> dict_get (do_kernel d) (hy_model h, re_action_digest r, su_id effect) = Some raws \<and>
     raw \<in> set raws \<and> dict_get (do_map d) raw = Some symbol)"

definition observes :: "epistemic_domain \<Rightarrow> ident \<Rightarrow> hypothesis \<Rightarrow> ident \<Rightarrow> hypothesis \<Rightarrow> bool" where
  "observes d a h symbol t \<longleftrightarrow> (\<exists>r. dict_get (do_recipes d) a = Some r \<and>
     (\<exists>effect \<in> set (successors (hy_state h) r). moved d r h effect symbol t))"

text \<open>An action that works in a world whatever its outcome.\<close>

definition works :: "epistemic_domain \<Rightarrow> ident \<Rightarrow> hypothesis \<Rightarrow> bool" where
  "works d a h \<longleftrightarrow> (\<exists>r act. dict_get (do_recipes d) a = Some r \<and> a \<notin> set (do_excluded_actions d) \<and>
     set (do_excluded_interactions d) \<inter> set (re_interactions r) = {} \<and> gs_models (hy_state h) = [hy_model h] \<and>
     step_applicable d h r = Inr act \<and> successors (hy_state h) r \<noteq> [] \<and>
     (\<forall>effect \<in> set (successors (hy_state h) r). \<exists>after t. step_transition d h r effect = Inr after \<and>
        next_hypothesis d h after = Inr t))"

definition marked :: "hypothesis \<Rightarrow> hypothesis" where
  "marked h = h\<lparr>hy_entry := Some \<lparr>cp_time = gs_elapsed (hy_state h), cp_capacities = gs_capacities (hy_state h)\<rparr>\<rparr>"

definition starts :: "epistemic_domain \<Rightarrow> hypothesis \<Rightarrow> bool" where
  "starts d h \<longleftrightarrow> (\<exists>s theta. initial_state (ed_growth (do_digests d)) (do_contract d) (do_frontier d) = Inr s \<and>
     theta \<in> set (gs_models s) \<and>
     pay d \<lparr>hy_model = theta, hy_state = s\<lparr>gs_models := [theta]\<rparr>, hy_entry = None, hy_steps = 0\<rparr> = Inr h)"

text \<open>Every world the game can come to, with an entry marked at any time.\<close>

inductive_set worlds :: "epistemic_domain \<Rightarrow> hypothesis set" for d where
  start: "starts d h \<Longrightarrow> h \<in> worlds d"
| entry: "h \<in> worlds d \<Longrightarrow> hy_entry h = None \<Longrightarrow> marked h \<in> worlds d"
| move: "h \<in> worlds d \<Longrightarrow> observes d a h symbol t \<Longrightarrow> t \<in> worlds d"

lemma seed_normal:
  assumes "seed dg u f = Inr t" "normal u"
  shows "normal t"
proof -
  let ?g = "\<lparr>fp_digest = dg_frontier dg f, fp_enabled = sort (fr_initial f),
      fp_depth = max_default (map av_depth (fr_initial_lineage f)), fp_lineage = sort_key av_action_id (fr_initial_lineage f)\<rparr>"
  have g: "with_frontier u ?g = Inr t" using assms(1) by (simp add: seed_def)
  have "t = u\<lparr>gs_frontier := Some ?g\<rparr>" using g by (rule with_frontier_Inr)
  from frontier_normal [OF _ this] assms(2) have "normal_form t = t" by (simp add: normal_def)
  then show ?thesis using with_frontier_valid [OF g] by (simp add: normal_def)
qed

lemma initial_state_normal:
  assumes "initial_state dg c fr = Inr s"
  shows "normal s"
proof -
  obtain u where "normal u" "(case fr of None \<Rightarrow> Inr u | Some f \<Rightarrow> seed dg u f) = Inr s"
    using assms unfolding initial_state_def Let_def res_bind_Inr split_paired_Ex prod.case
    by (elim exE conjE) (auto dest: normalize_normal)
  then show ?thesis by (cases fr) (auto intro: seed_normal)
qed

lemma one_model_normal: "normal s \<Longrightarrow> normal (s\<lparr>gs_models := [theta]\<rparr>)"
proof -
  assume "normal s"
  then have "normal_form s = s" "valid_fields s" by (simp_all add: normal_def)
  have "normal_form (s\<lparr>gs_models := [theta]\<rparr>) = (normal_form s)\<lparr>gs_models := [theta]\<rparr>"
    by (simp add: normal_form_def sorted_set_def)
  moreover have "valid_fields (s\<lparr>gs_models := [theta]\<rparr>)" using \<open>valid_fields s\<close>
    by (simp add: valid_fields_def state_rationals_def at_most_def)
  ultimately show ?thesis using \<open>normal_form s = s\<close> by (simp add: normal_def)
qed

lemma starts_normal: "starts d h \<Longrightarrow> normal (hy_state h)"
  unfolding starts_def by (elim exE conjE) (erule pay_normal, simp add: one_model_normal initial_state_normal)

lemma worlds_normal: "h \<in> worlds d \<Longrightarrow> normal (hy_state h)"
  by (induction rule: worlds.induct) (auto simp: marked_def observes_def moved_def intro: starts_normal next_normal)

end
