(* ===== verification/Plan_Properties.thy ===== *)
theory Plan_Properties
  imports Game_Demo Search_Facts Growth_Properties Epistemic_Facts
begin

text \<open>
  What the growth planner promises: an accepted plan carries the initial state to the end of the continuation
  within its objective, and a policy the planner returns has passed the same checker.
\<close>

section \<open>Checked plans\<close>

lemma check_plan_checker: "check_plan dg c objects (plan\<lparr>gp_checker := x\<rparr>) fr = check_plan dg c objects plan fr"
  by (cases plan) (simp only: check_plan_def growth_plan.simps)

lemma checked_plan_passed:
  assumes "checked_plan dg c objects fr env start p = Inr q"
  shows "gp_policy q = gp_policy p \<and> (gp_policy p \<noteq> None \<longrightarrow>
    (\<exists>digest. gp_checker q = Some digest \<and> check_plan dg c objects q fr = Inr digest))"
  using assms by (auto simp: checked_plan_def check_plan_checker split: option.splits)

section \<open>Plans of the demo game\<close>

lemma game_kept: "kept game_contract game_state" "kept game_contract game_after"
proof -
  show "kept game_contract game_state" using initial_state_Inr [OF game_initial] by (metis kept_frontier)
  show "kept game_contract game_after" using game_move by (rule transition_Inr) auto
qed

lemma game_normal_states: "normal game_state" "normal game_after"
  using initial_state_normal [OF game_initial] transition_normal [OF game_move] by auto

lemma show_bits [simp]: "show_nat 0 = ''0''" "show_nat (Suc 0) = ''1''"
  by code_simp+

lemma game_state_digests: "state_digest demo_digests game_state = Inr ''0''" "state_digest demo_digests game_after = Inr ''1''"
  using normal_digest [OF game_normal_states(1), of demo_digests] normal_digest [OF game_normal_states(2), of demo_digests]
  by (simp_all add: demo_digests_def game_state_def demo_state_def game_after_facts)

lemma game_env_fields [simp]:
  "en_digests game_env = demo_digests" "en_contract game_env = game_contract" "en_objects game_env = demo_objects"
  "en_endpoint game_env = None" "en_frontier game_env = None" "en_excluded game_env = []"
  "env_of demo_digests game_contract demo_objects None [] None [] = game_env"
  by (simp_all add: game_env_def env_of_def)

lemma game_terminals:
  "terminal game_env game_after (Some game_mark) = Inr True" "terminal game_env game_state (Some game_mark) = Inr False"
  "terminal game_env s None = Inr False"
  using game_after_facts(1,4) by (simp_all add: terminal_def game_mark_def Let_def del: all_in.simps)

lemma game_effect_digest: "dg_effect demo_digests game_effect = ''e1''" "cp_time game_mark = 1"
  by (simp_all add: demo_digests_def game_mark_def)

lemma game_compare: "compare_all demo_digests game_contract demo_objects None = Inr []"
  by (simp add: compare_all_def game_valid game_initial)

definition game_candidate :: candidate where
  "game_candidate = \<lparr>ca_node = game_tree, ca_terminals = [game_after], ca_entries = [1], ca_count = 2\<rparr>"

lemma game_candidate_objective: "objective_of game_contract game_candidate = Inr game_objective"
  using game_after_facts(8) by (simp add: objective_of_def game_candidate_def)

lemma game_check_tree: "check_tree game_env game_tree game_state None = Inr game_candidate"
  by (simp add: check_tree_def walk.simps game_tree_def leaf_def walk_here_def Let_def check_def check_state_kept_unit game_kept
      game_state_digests game_allowed game_mark_made game_terminals game_plays game_successors game_move dict_keys_def dict_get_def
      game_after_facts(3) item_def game_candidate_def game_effect_digest ex_bool_eq)

lemma game_enumerate:
  "\<exists>st. enumerate_policies game_env game_state fresh_search = (Inr [game_candidate], st) \<and> sr_complete st \<and> length (sr_codes st) = 1"
proof -
  obtain code where late: "applicable demo_digests game_contract game_after game_recipe demo_objects None = Inl (GrowthError code)"
    using game_after_facts(5) by blast
  have fuel: "enumerate_from 5 e s d x = enumerate_body (enumerate_from 4 e) e s d x"
    "enumerate_from 4 e s d x = enumerate_body (enumerate_from 3 e) e s d x" for e s d x
    using enumerate_from.simps(2) [of 4] enumerate_from.simps(2) [of 3] by simp_all
  show ?thesis
    by (simp add: enumerate_policies_def fuel enumerate_body_def bind_run_def lift_def returns_def get_run_def modify_def
      take_counter_def take_run_def note_depth_def limits_of_def fresh_search_def game_state_digests game_terminals new_entries_def
      game_allowed game_mark_made game_after_facts game_actions stop_time_def enumerate_choice_def game_applicable late
      game_successors game_move Let_def catching_def note_code_def game_candidate_def branch_node_def game_tree_def
      game_effect_digest by_successor_def demo_action_def dict_set_def dict_get_def)
qed

lemma game_rank: "rank_candidates demo_digests game_contract [game_candidate] = Inr [game_candidate]"
proof -
  have orders: "gc_cost_order game_contract = [''money'']" "sort (dict_keys (gc_domains game_contract)) = [''research'', ''task'', ''verification'']"
    by code_simp+
  show ?thesis by (simp add: rank_candidates_def objective_key_def game_candidate_objective orders game_objective_def item_def dict_get_def)
qed

lemma game_check_plan:
  assumes "gp_frontier plan = None" "gp_contract plan = dg_contract demo_digests game_contract"
    "gp_input plan = input_digest demo_digests game_contract demo_objects None" "gp_initial plan = ''0''"
    "gp_policy plan = Some game_tree" "gp_policy_digest plan = Some (dg_node demo_digests game_tree)" "gp_comparisons plan = []"
    "gp_objective plan = Some game_objective" "gp_terminals plan = [game_after\<lparr>gs_frontier := None\<rparr>]"
  shows "check_plan demo_digests game_contract demo_objects plan None =
    Inr (dg_checked demo_digests (gp_input plan) (gp_policy_digest plan) game_objective)"
  using assms
  by (simp add: check_plan_def check_def game_valid game_initial game_state_digests game_compare game_check_tree
      game_candidate_objective game_after_facts(7) game_candidate_def [THEN arg_cong, of ca_terminals])

lemma game_plan_growth:
  "\<exists>plan. plan_growth demo_digests game_contract demo_objects None = Inr plan \<and> gp_policy plan = Some game_tree \<and>
     gp_objective plan = Some game_objective \<and> (\<exists>digest. check_plan demo_digests game_contract demo_objects plan None = Inr digest)"
proof -
  obtain st where st: "enumerate_policies game_env game_state fresh_search = (Inr [game_candidate], st)" "length (sr_codes st) = 1"
    using game_enumerate by blast
  have few: "length (sorted_set (sr_codes st)) \<le> 256"
    using st(2) by (cases "sr_codes st") (simp_all add: sorted_set_def)
  have fields: "ca_terminals game_candidate = [game_after]" "ca_node game_candidate = game_tree"
    "alternatives_of (Some game_candidate) [game_candidate] = []"
    by (simp_all add: game_candidate_def alternatives_of_def List.map_filter_def game_tree_def sorted_set_def)
  show ?thesis
    by (simp add: plan_growth_def game_valid game_initial game_compare game_rank Let_def game_state_digests
      st(1) few game_candidate_objective game_after_facts(7) frontier_plan_of_def checked_plan_def fields at_most_def game_check_plan)
qed

text \<open>
  C2: An accepted growth plan is safe (\<open>check_plan\<close>): whatever the outcomes, its policy carries the initial
  state to a state where the continuation has ended; it marks its entry only where entry is allowed against the
  comparators, has a branch for every successor the models admit, and every state it may end in meets
  the submitted objective, which bounds entry, attainment, cost, debt and duration.
\<close>

theorem check_plan_sound:
  assumes "check_plan dg c objects plan fr = Inr digest"
  shows "\<exists>tree start comparisons obj. gp_policy plan = Some tree \<and> initial_state dg c fr = Inr start \<and>
    compare_all dg c objects fr = Inr comparisons \<and> map_option plain_objective (gp_objective plan) = Some (plain_objective obj) \<and>
    carries (env_of dg c objects fr [] None comparisons)
      (\<lambda>s entry. terminal (env_of dg c objects fr [] None comparisons) s entry = Inr True \<and>
        (\<exists>p. entry = Some p \<and> within_objective c obj s p)) tree start None"
proof -
  obtain start tree comparisons cand obj where r: "initial_state dg c fr = Inr start" "gp_policy plan = Some tree"
    "compare_all dg c objects fr = Inr comparisons"
    "check_tree (env_of dg c objects fr [] None comparisons) tree start None = Inr cand"
    "objective_of c cand = Inr obj" "map_option plain_objective (gp_objective plan) = Some (plain_objective obj)"
    using assms unfolding check_plan_def by auto
  have c: "en_contract (env_of dg c objects fr [] None comparisons) = c" "en_endpoint (env_of dg c objects fr [] None comparisons) = None"
    by (simp_all add: env_of_def)
  show ?thesis using r(1-3,6) check_tree_carries [OF r(4), unfolded c, OF r(5) refl] by blast
qed

theorem check_plan_sound_witness:
  "\<exists>obj. plain_objective obj = plain_objective game_objective \<and> carries game_env (\<lambda>s entry. terminal game_env s entry = Inr True \<and>
     (\<exists>p. entry = Some p \<and> within_objective game_contract obj s p)) game_tree game_state None"
proof -
  obtain plan digest where p: "gp_policy plan = Some game_tree" "check_plan demo_digests game_contract demo_objects plan None = Inr digest"
    "gp_objective plan = Some game_objective"
    using game_plan_growth by auto
  from check_plan_sound [OF p(2)] p(1,3) show ?thesis by (fastforce simp: game_initial game_compare)
qed

text \<open>
  C24: What the planner finds, its checker accepts (\<open>plan_growth\<close> and \<open>check_plan\<close>): a plan with a policy
  passes the independent check of the same inputs, with the very checker digest that the plan carries.
\<close>

theorem plan_growth_checked:
  assumes "plan_growth dg c objects fr = Inr plan" and "gp_policy plan = Some tree"
  shows "\<exists>digest. gp_checker plan = Some digest \<and> check_plan dg c objects plan fr = Inr digest"
proof -
  obtain best p q env start ok x where q: "checked_plan dg c objects fr env start p = Inr q"
    "gp_policy p = map_option ca_node (best :: candidate option)"
    "(Inr (if best = None \<and> ok then q\<lparr>gp_fallback_search := Some x\<rparr> else q) :: growth_error + growth_plan) = Inr plan"
    using assms(1) unfolding plan_growth_def Let_def case_prod_beta res_bind_Inr require_Inr
    by (elim exE conjE) (rule that, assumption, simp only: growth_plan.simps, assumption)
  note passed = checked_plan_passed [OF q(1)]
  have "best \<noteq> None" using assms(2) passed q(2,3) by (cases best) (auto split: if_splits)
  then show ?thesis using passed q(2,3) by auto
qed

theorem plan_growth_checked_witness:
  "\<exists>plan digest. plan_growth demo_digests game_contract demo_objects None = Inr plan \<and> gp_policy plan = Some game_tree \<and>
     gp_checker plan = Some digest \<and> check_plan demo_digests game_contract demo_objects plan None = Inr digest"
  using game_plan_growth plan_growth_checked [of demo_digests game_contract demo_objects None] by blast

end
