(* ===== verification/Epistemic_Knowledge.thy ===== *)
theory Epistemic_Knowledge
  imports Epistemic_Facts
begin

text \<open>
  The methods of a domain against its worlds: the branches of an action hold exactly the worlds their symbol
  leaves possible, and a replayed history exactly those the whole history leaves possible.
\<close>

section \<open>Groups by symbol\<close>

definition members :: "groups \<Rightarrow> ident \<Rightarrow> hypothesis set" where
  "members groups symbol = set (dict_get_default groups symbol [])"

definition tidy :: "groups \<Rightarrow> bool" where
  "tidy groups \<longleftrightarrow> distinct (dict_keys groups) \<and> (\<forall>g \<in> set groups. snd g \<noteq> [])"

lemma members_Nil [simp]: "members [] symbol = {}"
  by (simp add: members_def dict_get_default_def)

lemma tidy_Nil [simp]: "tidy []"
  by (simp add: tidy_def dict_keys_def)

lemma members_set: "members (dict_set groups k v) symbol = (if symbol = k then set v else members groups symbol)"
  by (simp add: members_def)

lemma set_dict_set_subset: "set (dict_set groups k v) \<subseteq> insert (k, v) (set groups)"
  by (induction groups) (auto simp: dict_set_def)

lemma tidy_set: "tidy groups \<Longrightarrow> v \<noteq> [] \<Longrightarrow> tidy (dict_set groups k v)"
  unfolding tidy_def using set_dict_set_subset [of groups k v] by auto

lemma add_observation_Inr: "add_observation d t raw groups = Inr g \<longleftrightarrow>
    (\<exists>k. dict_get (do_map d) raw = Some k \<and> g = dict_set groups k (dict_get_default groups k [] @ [t]))"
  by (auto simp: add_observation_def)

lemma add_observations:
  assumes "fold_res (add_observation d t) raws groups = Inr g" "tidy groups"
  shows "tidy g \<and> (\<forall>symbol. members g symbol = members groups symbol \<union>
    {x. x = t \<and> (\<exists>raw \<in> set raws. dict_get (do_map d) raw = Some symbol)})"
  using assms
proof (induction raws arbitrary: groups)
  case (Cons raw raws)
  then obtain k where k: "dict_get (do_map d) raw = Some k"
    and rest: "fold_res (add_observation d t) raws (dict_set groups k (dict_get_default groups k [] @ [t])) = Inr g"
    by (auto simp: add_observation_Inr)
  have "tidy (dict_set groups k (dict_get_default groups k [] @ [t]))" using Cons.prems(2) by (rule tidy_set) simp
  from Cons.IH [OF rest this] show ?case using k by (auto simp: members_set) (auto simp: members_def)
qed simp

text \<open>One world: after its outcomes every group has the worlds they lead to under its symbol.\<close>

definition grown_by :: "groups \<Rightarrow> (ident \<Rightarrow> hypothesis \<Rightarrow> bool) \<Rightarrow> groups \<Rightarrow> bool" where
  "grown_by groups P g \<longleftrightarrow> tidy g \<and> (\<forall>symbol. members g symbol = members groups symbol \<union> Collect (P symbol))"

lemma grown_by_trans:
  "grown_by groups P g \<Longrightarrow> grown_by g Q k \<Longrightarrow> grown_by groups (\<lambda>symbol t. P symbol t \<or> Q symbol t) k"
  by (auto simp: grown_by_def)

lemma grown_by_cong: "grown_by groups P g \<Longrightarrow> (\<And>symbol t. P symbol t = Q symbol t) \<Longrightarrow> grown_by groups Q g"
  unfolding grown_by_def by blast

definition effects_work :: "epistemic_domain \<Rightarrow> recipe \<Rightarrow> hypothesis \<Rightarrow> successor list \<Rightarrow> bool" where
  "effects_work d r h effects \<longleftrightarrow> (\<forall>effect \<in> set effects. \<exists>after t. step_transition d h r effect = Inr after \<and>
     next_hypothesis d h after = Inr t)"

lemma advance_effects_yields:
  "tidy groups \<Longrightarrow> yields (advance_effects d budgeted r h effects groups :: ('a counters_scheme, groups) stateful)
    (\<lambda>g. effects_work d r h effects \<and> grown_by groups (\<lambda>symbol t. \<exists>effect \<in> set effects. moved d r h effect symbol t) g)"
proof (induction effects arbitrary: groups)
  case Nil
  then show ?case by (auto simp: effects_work_def grown_by_def intro: yields_returns)
next
  case (Cons effect effects)
  have step: "yields (advance_effects d budgeted r h effects g :: ('a counters_scheme, groups) stateful) (\<lambda>g. effects_work d r h (effect # effects) \<and>
      grown_by groups (\<lambda>symbol t. \<exists>effect \<in> set (effect # effects). moved d r h effect symbol t) g)"
    if after: "step_transition d h r effect = Inr after" "next_hypothesis d h after = Inr t"
      "item (do_kernel d) (hy_model h, re_action_digest r, su_id effect) = Inr raws"
      "fold_res (add_observation d t) raws groups = Inr g" for after t raws g
  proof -
    have one: "grown_by groups (moved d r h effect) g"
      using add_observations [OF after(4) Cons.prems] after(1-3) by (auto simp: grown_by_def moved_def)
    then have "tidy g" by (simp add: grown_by_def)
    from Cons.IH [OF this] show ?thesis
      by (rule yields_weaken) (use after(1,2) in \<open>auto simp: effects_work_def intro: grown_by_cong [OF grown_by_trans [OF one]]\<close>)
  qed
  show ?case unfolding advance_effects.simps by (intro yields_maybe_take yields_modify yields_demand yields_call step)
qed

lemma advance_support_yields:
  "tidy groups \<Longrightarrow> yields (advance_support d budgeted r hs groups :: ('a counters_scheme, groups) stateful)
    (\<lambda>g. (\<forall>h \<in> set hs. gs_models (hy_state h) = [hy_model h] \<and> (\<exists>act. step_applicable d h r = Inr act) \<and>
         successors (hy_state h) r \<noteq> [] \<and> effects_work d r h (successors (hy_state h) r)) \<and>
       grown_by groups (\<lambda>symbol t. \<exists>h \<in> set hs. \<exists>effect \<in> set (successors (hy_state h) r). moved d r h effect symbol t) g)"
proof (induction hs arbitrary: groups)
  case Nil
  then show ?case by (auto simp: grown_by_def intro: yields_returns)
next
  case (Cons h hs)
  let ?moved = "\<lambda>symbol t. \<exists>effect \<in> set (successors (hy_state h) r). moved d r h effect symbol t"
  let ?goal = "\<lambda>g. (\<forall>h \<in> set (h # hs). gs_models (hy_state h) = [hy_model h] \<and> (\<exists>act. step_applicable d h r = Inr act) \<and>
         successors (hy_state h) r \<noteq> [] \<and> effects_work d r h (successors (hy_state h) r)) \<and>
       grown_by groups (\<lambda>symbol t. \<exists>h \<in> set (h # hs). \<exists>effect \<in> set (successors (hy_state h) r). moved d r h effect symbol t) g"
  have rest: "yields (advance_support d budgeted r hs g :: ('a counters_scheme, groups) stateful) ?goal"
    if h: "gs_models (hy_state h) = [hy_model h]" "step_applicable d h r = Inr act" "successors (hy_state h) r \<noteq> []"
      and g: "effects_work d r h (successors (hy_state h) r) \<and> grown_by groups ?moved g" for act g
  proof -
    have "tidy g" using g by (simp add: grown_by_def)
    from Cons.IH [OF this] show ?thesis
      by (rule yields_weaken) (use h g in \<open>auto intro: grown_by_cong [OF grown_by_trans [OF conjunct2 [OF g]]]\<close>)
  qed
  show ?case unfolding advance_support.simps Let_def
    by (intro yields_demand yields_call yields_bind [OF advance_effects_yields [OF Cons.prems]] rest)
qed

text \<open>Supports of the branches.\<close>

definition same_members :: "groups \<Rightarrow> groups \<Rightarrow> bool" where
  "same_members groups bs \<longleftrightarrow> list_all2 (\<lambda>g b. fst b = fst g \<and> set (snd b) = set (snd g) \<and> distinct (snd b)) groups bs"

lemma bounded_groups_yields:
  assumes "\<forall>g \<in> set groups. (\<forall>h \<in> set (snd g). normal (hy_state h)) \<and> inj_on (ed_hypothesis (do_digests d)) (set (snd g))"
  shows "yields (bounded_groups d groups :: ('a counters_scheme, groups) stateful) (same_members groups)"
  using assms
proof (induction groups)
  case Nil
  show ?case by (auto simp: same_members_def intro: yields_returns)
next
  case (Cons g groups)
  obtain symbol hs where g: "g = (symbol, hs)" by (cases g)
  have hs: "\<forall>h \<in> set hs. normal (hy_state h)" "inj_on (ed_hypothesis (do_digests d)) (set hs)"
    using Cons.prems by (simp_all add: g)
  have "yields (bounded_groups d groups :: ('a counters_scheme, groups) stateful) (same_members groups)" using Cons.IH Cons.prems by simp
  then show ?case unfolding g bounded_groups.simps
    by (intro yields_bind [OF bounded_yields [OF hs]] yields_bind [where Q = "same_members groups"] yields_returns)
      (simp_all add: same_members_def)
qed

text \<open>Where no two worlds have the same digest, the branches are the worlds sorted by what is seen.\<close>

definition branches_exact :: "epistemic_domain \<Rightarrow> hypothesis list \<Rightarrow> ident \<Rightarrow> groups \<Rightarrow> bool" where
  "branches_exact d support a bs \<longleftrightarrow> distinct (dict_keys bs) \<and>
     (\<forall>symbol S. (symbol, S) \<in> set bs \<longrightarrow> set S = {t. \<exists>h \<in> set support. observes d a h symbol t} \<and> distinct S) \<and>
     (\<forall>symbol t. (\<exists>h \<in> set support. observes d a h symbol t) \<longrightarrow> symbol \<in> set (dict_keys bs)) \<and>
     (\<forall>h \<in> set support. works d a h)"

lemma tidy_sorted:
  assumes "tidy groups"
  shows "distinct (dict_keys (sort_key fst groups))" "(symbol, hs) \<in> set (sort_key fst groups) \<Longrightarrow> set hs = members groups symbol"
    "members groups symbol \<noteq> {} \<Longrightarrow> symbol \<in> set (dict_keys (sort_key fst groups))"
proof -
  have d: "distinct (map fst groups)" using assms by (simp add: tidy_def dict_keys_def)
  then have "distinct (map fst (sort_key fst groups))"
    by (metis (no_types) distinct_sort distinct_map inj_on_def set_sort)
  then show "distinct (dict_keys (sort_key fst groups))" by (simp add: dict_keys_def)
  show "set hs = members groups symbol" if "(symbol, hs) \<in> set (sort_key fst groups)"
    using that d by (simp add: members_def dict_get_default_def)
  show "symbol \<in> set (dict_keys (sort_key fst groups))" if "members groups symbol \<noteq> {}"
    using that by (cases "map_of groups symbol")
      (auto simp: members_def dict_get_default_def dict_keys_def dest!: map_of_SomeD intro: rev_image_eqI)
qed

lemma same_membersD:
  assumes "same_members groups bs"
  shows "dict_keys bs = dict_keys groups"
    "(symbol, S) \<in> set bs \<Longrightarrow> \<exists>hs. (symbol, hs) \<in> set groups \<and> set S = set hs \<and> distinct S"
  using assms
proof -
  have all: "length groups = length bs" "\<And>i. i < length bs \<Longrightarrow> fst (bs ! i) = fst (groups ! i) \<and>
      set (snd (bs ! i)) = set (snd (groups ! i)) \<and> distinct (snd (bs ! i))"
    using assms by (auto simp: same_members_def list_all2_conv_all_nth)
  then show "dict_keys bs = dict_keys groups" by (auto simp: dict_keys_def intro!: nth_equalityI)
  assume "(symbol, S) \<in> set bs"
  then obtain i where i: "i < length bs" "bs ! i = (symbol, S)" by (auto simp: in_set_conv_nth)
  then have "groups ! i \<in> set groups" using all(1) by simp
  moreover have "groups ! i = (symbol, snd (groups ! i))" using all(2) [OF i(1)] i(2) by (cases "groups ! i") simp
  ultimately show "\<exists>hs. (symbol, hs) \<in> set groups \<and> set S = set hs \<and> distinct S"
    using all(2) [OF i(1)] i(2) by (metis snd_conv)
qed

lemma advance_yields:
  assumes "set support \<subseteq> worlds d" "inj_on (ed_hypothesis (do_digests d)) (worlds d)"
  shows "yields (advance d budgeted support a :: ('a counters_scheme, groups) stateful) (branches_exact d support a)"
proof (cases "dict_get (do_recipes d) a")
  case None
  then show ?thesis unfolding advance_def by (intro yields_demand) (auto intro: yields_lift)
next
  case (Some r)
  let ?moved = "\<lambda>symbol t. \<exists>h \<in> set support. \<exists>effect \<in> set (successors (hy_state h) r). moved d r h effect symbol t"
  have obs: "(\<exists>h \<in> set support. observes d a h symbol t) = ?moved symbol t" for symbol t
    using Some by (auto simp: observes_def)
  have "yields (bounded_groups d (sort_key fst g) :: ('a counters_scheme, groups) stateful) (branches_exact d support a)"
    if ok: "a \<notin> set (do_excluded_actions d) \<and> set (do_excluded_interactions d) \<inter> set (re_interactions r) = {}"
      and g: "(\<forall>h \<in> set support. gs_models (hy_state h) = [hy_model h] \<and> (\<exists>act. step_applicable d h r = Inr act) \<and>
         successors (hy_state h) r \<noteq> [] \<and> effects_work d r h (successors (hy_state h) r)) \<and> grown_by [] ?moved g" for g
  proof -
    have works: "\<forall>h \<in> set support. works d a h" using ok g Some by (fastforce simp: works_def effects_work_def)
    have tidy: "tidy g" and mem: "\<And>symbol. members g symbol = {t. ?moved symbol t}" using g by (auto simp: grown_by_def)
    have sub: "{t. ?moved symbol t} \<subseteq> worlds d" for symbol
      using assms(1) unfolding obs [symmetric] by (blast intro: worlds.move)
    have "\<forall>k \<in> set (sort_key fst g). (\<forall>h \<in> set (snd k). normal (hy_state h)) \<and>
        inj_on (ed_hypothesis (do_digests d)) (set (snd k))"
    proof
      fix k assume k: "k \<in> set (sort_key fst g)"
      then have "set (snd k) \<subseteq> worlds d" using tidy_sorted(2) [OF tidy, of "fst k" "snd k"] mem sub by simp
      then show "(\<forall>h \<in> set (snd k). normal (hy_state h)) \<and> inj_on (ed_hypothesis (do_digests d)) (set (snd k))"
        using assms(2) worlds_normal inj_on_subset by blast
    qed
    from bounded_groups_yields [OF this] show ?thesis
    proof (rule yields_weaken)
      fix bs assume bs: "same_members (sort_key fst g) bs"
      show "branches_exact d support a bs" unfolding branches_exact_def obs
      proof (intro conjI allI impI works)
        show "distinct (dict_keys bs)" using same_membersD(1) [OF bs] tidy_sorted(1) [OF tidy] by simp
        fix symbol S assume "(symbol, S) \<in> set bs"
        then obtain hs where "(symbol, hs) \<in> set (sort_key fst g)" "set S = set hs" "distinct S"
          using same_membersD(2) [OF bs] by blast
        then show "set S = {t. ?moved symbol t}" "distinct S" using tidy_sorted(2) [OF tidy] mem by simp_all
      next
        fix symbol t assume "?moved symbol t"
        then have "members g symbol \<noteq> {}" using mem by blast
        then show "symbol \<in> set (dict_keys bs)" using tidy_sorted(3) [OF tidy] same_membersD(1) [OF bs] by simp
      qed
    qed
  qed
  then show ?thesis unfolding advance_def Some option.case
    by (intro yields_demand yields_bind [OF advance_support_yields [OF tidy_Nil]])
qed

section \<open>Histories\<close>

text \<open>The worlds that a history of actions, observed symbols and marked entries leaves possible.\<close>

inductive possible :: "epistemic_domain \<Rightarrow> epistemic_step list \<Rightarrow> hypothesis \<Rightarrow> bool" for d where
  nothing: "starts d h \<Longrightarrow> possible d [] h"
| more: "possible d history h \<Longrightarrow>
    observes d (ep_action step) (if ep_entry step then marked h else h) (ep_observation step) t \<Longrightarrow>
    possible d (history @ [step]) t"

inductive_cases possible_elim: "possible d [] h"

lemma possible_Nil [simp]: "possible d [] h = starts d h"
  by (auto intro: possible.nothing elim: possible_elim)

lemma possible_snoc: "possible d (history @ [step]) t \<longleftrightarrow>
    (\<exists>h. possible d history h \<and> observes d (ep_action step) (if ep_entry step then marked h else h) (ep_observation step) t)"
proof
  assume "possible d (history @ [step]) t"
  then show "\<exists>h. possible d history h \<and> observes d (ep_action step) (if ep_entry step then marked h else h) (ep_observation step) t"
    by cases auto
qed (blast intro: possible.more)

definition knows :: "epistemic_domain \<Rightarrow> epistemic_step list \<Rightarrow> hypothesis list \<Rightarrow> bool" where
  "knows d history S \<longleftrightarrow> set S = {h. possible d history h} \<and> distinct S \<and> set S \<subseteq> worlds d"

lemma map_res_set: "map_res f xs = Inr ys \<Longrightarrow> set ys = {y. \<exists>x \<in> set xs. f x = Inr y}"
  by (induction xs arbitrary: ys) auto

lemma initial_support_yields:
  assumes "inj_on (ed_hypothesis (do_digests d)) (worlds d)"
  shows "yields (initial_support d :: ('a counters_scheme, hypothesis list) stateful) (knows d [])"
  unfolding initial_support_def
proof (intro yields_call)
  fix s hs
  assume s: "initial_state (ed_growth (do_digests d)) (do_contract d) (do_frontier d) = Inr s"
    and hs: "map_res (\<lambda>theta. res_bind (make_hypothesis theta (s\<lparr>gs_models := [theta]\<rparr>) None 0) (pay d)) (sort (gs_models s)) = Inr hs"
  have set: "set hs = {h. starts d h}"
    using s by (auto simp: map_res_set [OF hs] starts_def make_hypothesis_def)
  then have sub: "set hs \<subseteq> worlds d" by (auto intro: worlds.start)
  show "yields (bounded d hs :: ('a counters_scheme, hypothesis list) stateful) (knows d [])"
    by (rule yields_weaken [OF bounded_yields])
      (use set sub assms worlds_normal in \<open>auto simp: knows_def intro: inj_on_subset\<close>)
qed

lemma mark_entry_yields:
  assumes "set support \<subseteq> worlds d" "inj_on (ed_hypothesis (do_digests d)) (worlds d)"
  shows "yields (mark_entry d support comparisons :: ('a counters_scheme, hypothesis list) stateful)
    (\<lambda>S. set S = marked ` set support \<and> set S \<subseteq> worlds d \<and> distinct S \<and>
       (\<forall>h \<in> set support. hy_entry h = None \<and> entry_allowed (growth_env d None comparisons) (hy_state h) = Inr True))"
  unfolding mark_entry_def
proof (intro yields_call yields_demand)
  fix ok hs
  assume ok: "(if support = [] then Inr False else all_in (\<lambda>h. if hy_entry h = None
      then entry_allowed (growth_env d None comparisons) (hy_state h) else Inr False) support) = Inr ok" "ok"
    and hs: "map_res (\<lambda>h. res_bind (make_checkpoint (gs_elapsed (hy_state h)) (gs_capacities (hy_state h)))
      (\<lambda>p. Inr (h\<lparr>hy_entry := Some p\<rparr>))) support = Inr hs"
  have allowed: "\<forall>h \<in> set support. hy_entry h = None \<and> entry_allowed (growth_env d None comparisons) (hy_state h) = Inr True"
    using ok by (auto split: if_splits)
  have all: "map_res (\<lambda>h. res_bind (make_checkpoint (gs_elapsed (hy_state h)) (gs_capacities (hy_state h)))
      (\<lambda>p. Inr (h\<lparr>hy_entry := Some p\<rparr>))) xs = Inr ys \<Longrightarrow> ys = map marked xs" for xs ys :: "hypothesis list"
    by (induction xs arbitrary: ys) (auto simp: make_checkpoint_def marked_def)
  have set: "set hs = marked ` set support" using all [OF hs] by simp
  then have sub: "set hs \<subseteq> worlds d" using allowed assms(1) by (auto intro: worlds.entry)
  show "yields (bounded d hs :: ('a counters_scheme, hypothesis list) stateful)
      (\<lambda>S. set S = marked ` set support \<and> set S \<subseteq> worlds d \<and> distinct S \<and>
       (\<forall>h \<in> set support. hy_entry h = None \<and> entry_allowed (growth_env d None comparisons) (hy_state h) = Inr True))"
    by (rule yields_weaken [OF bounded_yields])
      (use set sub assms worlds_normal allowed in \<open>auto intro: inj_on_subset\<close>)
qed

lemma replay_step_yields:
  assumes inj: "inj_on (ed_hypothesis (do_digests d)) (worlds d)" and S: "knows d history S"
  shows "yields (replay_step d reference comparisons (index, step) S :: ('a counters_scheme, hypothesis list) stateful)
    (knows d (history @ [step]))"
  unfolding replay_step_def Let_def prod.case
proof (rule yields_demand)
  let ?entered = "\<lambda>T. set T = (if ep_entry step then marked else id) ` set S \<and> set T \<subseteq> worlds d"
  have sub: "set S \<subseteq> worlds d" using S unfolding knows_def by blast
  have enter: "yields (if ep_entry step
        then bind_run (if ep_comparisons step \<noteq> 0 then reference (ep_comparisons step) else returns comparisons) (mark_entry d S)
        else returns S :: ('a counters_scheme, hypothesis list) stateful) ?entered"
    using sub by (auto intro!: yields_skip yields_returns yields_weaken [OF mark_entry_yields [OF sub inj]])
  have go: "yields (bind_run (advance d False T (ep_action step)) (\<lambda>branches. case dict_get branches (ep_observation step) of
        None \<Rightarrow> lift (Inl (GrowthError ''epistemic_observation_mismatch'')) | Some s \<Rightarrow> returns s)
        :: ('a counters_scheme, hypothesis list) stateful) (knows d (history @ [step]))"
    if T: "?entered T" for T
  proof (rule yields_bind [OF advance_yields [OF conjunct2 [OF T] inj]])
    fix bs assume bs: "branches_exact d T (ep_action step) bs"
    have "knows d (history @ [step]) s" if "dict_get bs (ep_observation step) = Some s" for s
    proof -
      have "(ep_observation step, s) \<in> set bs" using that by (rule dict_get_SomeD)
      then have s: "set s = {t. \<exists>h \<in> set T. observes d (ep_action step) h (ep_observation step) t}" "distinct s"
        using bs by (auto simp: branches_exact_def)
      moreover have "set s \<subseteq> worlds d" using s(1) conjunct2 [OF T] by (blast intro: worlds.move)
      ultimately show ?thesis using T S by (auto simp: knows_def possible_snoc)
    qed
    then show "yields ((case dict_get bs (ep_observation step) of None \<Rightarrow> lift (Inl (GrowthError ''epistemic_observation_mismatch''))
        | Some s \<Rightarrow> returns s) :: ('a counters_scheme, hypothesis list) stateful) (knows d (history @ [step]))"
      by (auto intro!: yields_lift yields_returns split: option.splits)
  qed
  show "yields (bind_run (if ep_entry step
        then bind_run (if ep_comparisons step \<noteq> 0 then reference (ep_comparisons step) else returns comparisons) (mark_entry d S)
        else returns S) (\<lambda>support. bind_run (advance d False support (ep_action step)) (\<lambda>branches.
        case dict_get branches (ep_observation step) of None \<Rightarrow> lift (Inl (GrowthError ''epistemic_observation_mismatch''))
        | Some s \<Rightarrow> returns s)) :: ('a counters_scheme, hypothesis list) stateful) (knows d (history @ [step]))"
    by (rule yields_bind [OF enter go])
qed

lemma replay_steps_yields:
  assumes inj: "inj_on (ed_hypothesis (do_digests d)) (worlds d)"
  shows "knows d history S \<Longrightarrow> yields (fold_run (replay_step d reference comparisons) (List.enumerate n steps) S
    :: ('a counters_scheme, hypothesis list) stateful) (knows d (history @ steps))"
proof (induction steps arbitrary: history S n)
  case Nil
  then show ?case by (simp add: yields_returns)
next
  case (Cons step steps)
  have "yields (fold_run (replay_step d reference comparisons) (List.enumerate (Suc n) steps) T
      :: ('a counters_scheme, hypothesis list) stateful) (knows d (history @ step # steps))" if "knows d (history @ [step]) T" for T
    using Cons.IH [OF that] by simp
  then show ?case by (auto intro!: yields_bind [OF replay_step_yields [OF inj Cons.prems]])
qed

lemma replay_with_yields:
  assumes "inj_on (ed_hypothesis (do_digests d)) (worlds d)"
  shows "yields (replay_with d reference history comparisons :: ('a counters_scheme, hypothesis list) stateful) (knows d history)"
  unfolding replay_with_def
  by (intro yields_demand yields_bind [OF initial_support_yields [OF assms]])
    (use replay_steps_yields [OF assms, of "[]"] in simp)

end
