(* ===== verification/Epistemic_Checking.thy ===== *)
theory Epistemic_Checking
  imports Epistemic_Knowledge Growth_Checking
begin

text \<open>
  The checker of epistemic plans against the worlds: what it means that a policy succeeds in a world whatever
  the outcomes, and why an accepted policy does so in every world its history leaves possible.
\<close>

section \<open>Policies in a world\<close>

text \<open>
  A policy that reaches the goal: where it acts, the action works in the world and every world it may lead to
  has its branch under every symbol that may be seen.
\<close>

inductive succeeds :: "epistemic_domain \<Rightarrow> (hypothesis \<Rightarrow> bool) \<Rightarrow> epistemic_node \<Rightarrow> hypothesis \<Rightarrow> bool" for d goal where
  stop: "en_action node = None \<Longrightarrow> goal h \<Longrightarrow> succeeds d goal node h"
| act: "\<lbrakk>en_action node = Some a; h' = (if en_entry node then marked h else h); works d a h';
    \<And>symbol t. observes d a h' symbol t \<Longrightarrow>
      \<exists>child. dict_get (en_branches node) symbol = Some child \<and> succeeds d goal child t\<rbrakk> \<Longrightarrow> succeeds d goal node h"

lemma succeeds_mono: "succeeds d goal node h \<Longrightarrow> (\<And>t. goal t \<Longrightarrow> goal' t) \<Longrightarrow> succeeds d goal' node h"
proof (induction rule: succeeds.induct)
  case (act node a h' h)
  then show ?case by (intro succeeds.act [of node a h' h]) blast+
qed (auto intro: succeeds.stop)

text \<open>The worlds of the leaves, which a checker found to be as \<open>Q\<close> says.\<close>

definition reached :: "(hypothesis \<Rightarrow> bool) \<Rightarrow> hypothesis list list \<Rightarrow> hypothesis \<Rightarrow> bool" where
  "reached Q groups h \<longleftrightarrow> h \<in> set (concat groups) \<and> Q h"

definition ended :: "epistemic_domain \<Rightarrow> hypothesis \<Rightarrow> bool" where
  "ended d h \<longleftrightarrow> terminal (growth_env d None []) (hy_state h) (hy_entry h) = Inr True"

lemma reached_append: "reached Q groups h \<Longrightarrow> reached Q (before @ groups @ later) h"
  by (auto simp: reached_def)

definition entered :: "epistemic_node \<Rightarrow> hypothesis \<Rightarrow> hypothesis" where
  "entered node h = (if en_entry node then marked h else h)"

lemma entry_yields:
  assumes "set current \<subseteq> worlds d" "inj_on (ed_hypothesis (do_digests d)) (worlds d)"
  shows "yields (if en_entry node then mark_entry d current comparisons else returns current)
    (\<lambda>S. set S = entered node ` set current \<and> set S \<subseteq> worlds d)"
proof (cases "en_entry node")
  case True
  then have "entered node = marked" by (auto simp: entered_def)
  then show ?thesis using True by (auto intro: yields_weaken [OF mark_entry_yields [OF assms]])
next
  case False
  then have "entered node = (\<lambda>h. h)" by (auto simp: entered_def)
  then show ?thesis using False assms(1) by (simp add: yields_returns)
qed

lemma next_node_yields:
  assumes "set current \<subseteq> worlds d" "inj_on (ed_hypothesis (do_digests d)) (worlds d)"
  shows "yields (next_node d node current depth comparisons) (\<lambda>S. set S = entered node ` set current \<and> set S \<subseteq> worlds d)"
  unfolding next_node_def
  by (intro yields_modify yields_skip [where m = "get_run _"] yields_demand entry_yields [OF assms])

lemma branch_loop_yields:
  assumes "\<And>symbol after child. (symbol, after) \<in> set bs \<Longrightarrow> dict_get branches symbol = Some child \<Longrightarrow>
    yields (chk child after) (\<lambda>groups. \<forall>t \<in> set after. succeeds d (reached Q groups) child t)"
  shows "yields (fold_run (\<lambda>(symbol, after) leaves. case dict_get branches symbol of
        None \<Rightarrow> lift (Inl KeyError)
      | Some child \<Rightarrow> bind_run (chk child after) (\<lambda>more. returns (leaves @ more))) bs leaves)
    (\<lambda>out. (\<exists>more. out = leaves @ more) \<and> (\<forall>(symbol, after) \<in> set bs. \<exists>child. dict_get branches symbol = Some child \<and>
       (\<forall>t \<in> set after. succeeds d (reached Q out) child t)))"
  using assms
proof (induction bs arbitrary: leaves)
  case Nil
  show ?case by (auto intro: yields_returns)
next
  case (Cons b bs)
  obtain symbol after where b: "b = (symbol, after)" by (cases b)
  let ?loop = "fold_run (\<lambda>(symbol, after) leaves. case dict_get branches symbol of
        None \<Rightarrow> lift (Inl KeyError)
      | Some child \<Rightarrow> bind_run (chk child after) (\<lambda>more. returns (leaves @ more)))"
  let ?goal = "\<lambda>out. (\<exists>more. out = leaves @ more) \<and> (\<forall>(symbol, after) \<in> set (b # bs). \<exists>child. dict_get branches symbol = Some child \<and>
       (\<forall>t \<in> set after. succeeds d (reached Q out) child t))"
  have go: "yields (?loop bs (leaves @ more)) ?goal"
    if child: "dict_get branches symbol = Some child" and ok: "\<forall>t \<in> set after. succeeds d (reached Q more) child t" for child more
  proof -
    have "yields (?loop bs (leaves @ more)) (\<lambda>out. (\<exists>later. out = (leaves @ more) @ later) \<and>
        (\<forall>(symbol, after) \<in> set bs. \<exists>child. dict_get branches symbol = Some child \<and>
          (\<forall>t \<in> set after. succeeds d (reached Q out) child t)))"
      by (rule Cons.IH) (rule Cons.prems; simp)
    then show ?thesis
    proof (rule yields_weaken)
      fix out
      assume out: "(\<exists>later. out = (leaves @ more) @ later) \<and> (\<forall>(symbol, after) \<in> set bs. \<exists>child.
          dict_get branches symbol = Some child \<and> (\<forall>t \<in> set after. succeeds d (reached Q out) child t))"
      then obtain later where later: "out = leaves @ more @ later" by auto
      have "\<forall>t \<in> set after. succeeds d (reached Q out) child t"
        using ok unfolding later by (blast intro: succeeds_mono reached_append)
      then show "?goal out" using out child later by (auto simp: b)
    qed
  qed
  show ?case
  proof (cases "dict_get branches symbol")
    case None
    then show ?thesis by (auto simp: b intro!: yields_bind [where Q = "\<lambda>_. False"] yields_lift)
  next
    case (Some child)
    have "yields (chk child after) (\<lambda>groups. \<forall>t \<in> set after. succeeds d (reached Q groups) child t)"
      using Cons.prems [of symbol after child] Some b by simp
    then have "yields (bind_run (chk child after) (\<lambda>more. returns (leaves @ more)))
        (\<lambda>l. \<exists>more. l = leaves @ more \<and> (\<forall>t \<in> set after. succeeds d (reached Q more) child t))"
      by (rule yields_bind) (auto intro: yields_returns)
    then have "yields (bind_run (bind_run (chk child after) (\<lambda>more. returns (leaves @ more))) (?loop bs)) ?goal"
      by (rule yields_bind) (use go [OF Some] in blast)
    then show ?thesis using Some by (simp add: b)
  qed
qed

lemma support_terminal_all:
  "support_terminal d endpoint S = Inr True \<Longrightarrow> h \<in> set S \<Longrightarrow> terminal (growth_env d endpoint []) (hy_state h) (hy_entry h) = Inr True"
  by (auto simp: support_terminal_def split: if_splits)

text \<open>
  The loop over the branches of an action, as both checkers of this library run it: a checker of the
  children that is right about the worlds it is given is right about the node.
\<close>

lemma act_yields:
  assumes act: "en_action node = Some a" and S: "set S = entered node ` set current" "set S \<subseteq> worlds d"
    and bs: "branches_exact d S a bs"
    and each: "\<And>symbol after child. dict_get (en_branches node) symbol = Some child \<Longrightarrow> set after \<subseteq> worlds d \<Longrightarrow>
      yields (chk child after) (\<lambda>groups. \<forall>t \<in> set after. succeeds d (reached Q groups) child t)"
  shows "yields (fold_run (\<lambda>(symbol, after) leaves. case dict_get (en_branches node) symbol of
        None \<Rightarrow> lift (Inl KeyError)
      | Some child \<Rightarrow> bind_run (chk child after) (\<lambda>more. returns (leaves @ more))) bs [])
    (\<lambda>groups. \<forall>h \<in> set current. succeeds d (reached Q groups) node h)"
proof -
  have child: "yields (chk child after) (\<lambda>groups. \<forall>t \<in> set after. succeeds d (reached Q groups) child t)"
    if "(symbol, after) \<in> set bs" "dict_get (en_branches node) symbol = Some child" for symbol after child
  proof -
    have "set after = {t. \<exists>h \<in> set S. observes d a h symbol t}" using that(1) bs unfolding branches_exact_def by blast
    then have "set after \<subseteq> worlds d" using S(2) by (blast intro: worlds.move)
    then show ?thesis by (rule each [OF that(2)])
  qed
  have loop: "yields (fold_run (\<lambda>(symbol, after) leaves. case dict_get (en_branches node) symbol of
      None \<Rightarrow> lift (Inl KeyError)
    | Some child \<Rightarrow> bind_run (chk child after) (\<lambda>more. returns (leaves @ more))) bs [])
    (\<lambda>out. (\<exists>more. out = [] @ more) \<and> (\<forall>(symbol, after) \<in> set bs. \<exists>child. dict_get (en_branches node) symbol = Some child \<and>
      (\<forall>t \<in> set after. succeeds d (reached Q out) child t)))"
    using child by (rule branch_loop_yields)
  then show ?thesis
  proof (rule yields_weaken, intro ballI)
    fix out h
    assume out: "(\<exists>more. out = [] @ more) \<and> (\<forall>(symbol, after) \<in> set bs. \<exists>child. dict_get (en_branches node) symbol = Some child \<and>
      (\<forall>t \<in> set after. succeeds d (reached Q out) child t))" and h: "h \<in> set current"
    have inS: "entered node h \<in> set S" using S(1) h by simp
    show "succeeds d (reached Q out) node h"
    proof (rule succeeds.act [OF act refl])
      show "works d a (if en_entry node then marked h else h)"
        using bs inS by (simp add: branches_exact_def entered_def)
      fix symbol t assume t: "observes d a (if en_entry node then marked h else h) symbol t"
      then have "symbol \<in> set (dict_keys bs)" using bs inS by (fastforce simp: branches_exact_def entered_def)
      then obtain after where after: "(symbol, after) \<in> set bs" by (auto simp: dict_keys_def)
      then have "t \<in> set after" using bs inS t by (fastforce simp: branches_exact_def entered_def)
      then show "\<exists>child. dict_get (en_branches node) symbol = Some child \<and> succeeds d (reached Q out) child t"
        using out after by fastforce
    qed
  qed
qed

lemma leaf_yields:
  assumes "en_action node = None" "\<not> en_entry node" "set S = entered node ` set current" "\<forall>h \<in> set S. Q h"
  shows "\<forall>h \<in> set current. succeeds d (reached Q [S]) node h"
  using assms by (auto simp: reached_def entered_def intro: succeeds.stop)

lemma check_node_yields:
  assumes inj: "inj_on (ed_hypothesis (do_digests d)) (worlds d)" and sub: "set current \<subseteq> worlds d"
  shows "yields (check_node d comparisons node current depth)
    (\<lambda>groups. \<forall>h \<in> set current. succeeds d (reached (ended d) groups) node h)"
  using sub
proof (induction "size node" arbitrary: node current depth rule: less_induct)
  case less
  let ?goal = "\<lambda>groups. \<forall>h \<in> set current. succeeds d (reached (ended d) groups) node h"
  show ?case
  proof (cases "en_action node")
    case None
    have "yields (bind_run (lift (if en_branches node = [] \<and> \<not> en_entry node then support_terminal d None S else Inr False)) (\<lambda>ok.
        bind_run (demand ok ''epistemic_continuation_missing'') (\<lambda>_. returns [S])) :: (reference_search, hypothesis list list) stateful) ?goal"
      if S: "set S = entered node ` set current" for S
      by (intro yields_call yields_demand yields_returns leaf_yields [OF None _ S])
        (auto simp: ended_def split: if_splits dest: support_terminal_all)
    then show ?thesis unfolding check_node.simps [of d comparisons node] None option.case
      by (intro yields_bind [OF next_node_yields [OF less.prems inj]]) blast
  next
    case (Some a)
    have step: "yields (fold_run (\<lambda>(symbol, after) leaves. case dict_get (en_branches node) symbol of
          None \<Rightarrow> lift (Inl KeyError)
        | Some child \<Rightarrow> bind_run (check_node d comparisons child after (depth + 1)) (\<lambda>more. returns (leaves @ more))) bs []) ?goal"
      if "set S = entered node ` set current" "set S \<subseteq> worlds d" "branches_exact d S a bs" for S bs
      by (rule act_yields [OF Some that]) (rule less.hyps [OF epistemic_child_size])
    show ?thesis unfolding check_node.simps [of d comparisons node] Some option.case
      by (intro yields_bind [OF next_node_yields [OF less.prems inj]] yields_call yields_demand yields_bind [OF advance_yields [OF _ inj]])
        (use step in blast)+
  qed
qed

section \<open>Objectives\<close>

definition meets :: "contract \<Rightarrow> objective \<Rightarrow> hypothesis \<Rightarrow> bool" where
  "meets c obj h \<longleftrightarrow> (\<exists>p. hy_entry h = Some p \<and> within_objective c obj (hy_state h) p)"

lemma leaves_objective_meets:
  assumes obj: "leaves_objective d state leaves = Inr obj" and h: "h \<in> set leaves" and entry: "hy_entry h \<noteq> None"
  shows "meets (do_contract d) obj h"
proof -
  obtain p where p: "hy_entry h = Some p" using entry by blast
  have "within_objective (do_contract d) obj (hy_state h) p"
    by (rule objective_of_within [OF obj [unfolded leaves_objective_def]])
      (use h p in \<open>force simp: List.map_filter_def\<close>)+
  then show ?thesis using p by (simp add: meets_def)
qed

end
