(* ===== verification/Epistemic_Demo.thy ===== *)
theory Epistemic_Demo
  imports Game_Demo Epistemic_Checking
begin

text \<open>
  The demo game under partial observation, for the witnesses: one model, one symbol, a history of one step and
  a plan of one step.
\<close>

section \<open>The domain\<close>

definition game_label :: "hypothesis \<Rightarrow> digest" where
  "game_label h = show_nat (hy_steps h) @ (case hy_entry h of None \<Rightarrow> ''n'' | Some p \<Rightarrow> if cp_time p = 1 then ''a'' else ''b'')"

definition game_digests :: epistemic_digests where
  "game_digests = \<lparr>ed_growth = demo_digests, ed_hypothesis = game_label, ed_support = (\<lambda>hs. concat (map game_label hs)), ed_size = length, ed_contract = (\<lambda>_. ''ec''),
     ed_domain = (\<lambda>_ _ _ _ _. ''do''), ed_node = (\<lambda>_. ''no'')\<rparr>"

definition game_envelope :: envelope where
  "game_envelope = \<lparr>ev_tenant = ''t'', ev_workspace = ''w'', ev_object = ''o'', ev_created = 0, ev_extensions = ''{}''\<rparr>"

text \<open>The fee of a workflow, all categories of which cost nothing; the game is with it or without.\<close>

definition game_fee :: cost_event where
  "game_fee = \<lparr>ce_id = ''workflow-r'', ce_source = ''sha256:r'', ce_after = 0, ce_charges = map (\<lambda>k. (k, [])) COST_CATEGORIES,
     ce_duration = 0, ce_reserved = 100\<rparr>"

definition game_epistemic :: "bool \<Rightarrow> epistemic_contract" where
  "game_epistemic paid = \<lparr>ec_envelope = game_envelope, ec_growth = ''k'', ec_frontier = None, ec_alphabet = [''ok''],
     ec_kernel = map (\<lambda>(m, e). \<lparr>kr_model = m, kr_action = ''a'', kr_successor = e, kr_observations = [''ok'']\<rparr>)
       [(''m'', ''e1''), (''m2'', ''e2''), (''m2'', ''e3''), (''m2'', ''e4'')],
     ec_max_support = 8, ec_max_bytes = 100, ec_max_history = 4, ec_cost_events = (if paid then [game_fee] else [])\<rparr>"

definition game :: "bool \<Rightarrow> epistemic_domain" where
  "game paid = \<lparr>do_digests = game_digests, do_contract = game_contract, do_objects = demo_objects, do_epistemic = game_epistemic paid,
     do_frontier = None, do_map = [(''ok'', ''ok'')], do_excluded_actions = [], do_excluded_interactions = [],
     do_recipes = [(''act'', game_recipe)], do_kernel = map (\<lambda>(m, e). ((m, ''a'', e), [''ok''])) [(''m'', ''e1''), (''m2'', ''e2''), (''m2'', ''e3''), (''m2'', ''e4'')]\<rparr>"

definition game_step :: epistemic_step where
  "game_step = \<lparr>ep_action = ''act'', ep_observation = ''ok'', ep_entry = True, ep_comparisons = 0\<rparr>"

definition game_node :: epistemic_node where
  "game_node = EpistemicNode ''0n'' (Some ''act'') True [(''ok'', EpistemicNode ''1a'' None False [])]"

definition game_plan :: epistemic_plan where
  "game_plan = \<lparr>el_input = ''do'', el_contract = ''ec'', el_history = [], el_map = [(''ok'', ''ok'')], el_excluded_actions = [],
     el_excluded_interactions = [], el_code = ''epistemic_policy_found'', el_policy = Some game_node, el_policy_digest = Some ''no'',
     el_objective = Some game_objective, el_search = counters_report (gc_search_limits game_contract) fresh_counters,
     el_comparisons = [], el_peak = 1, el_transitions = 1\<rparr>"

section \<open>Its states\<close>

lemma game_fields [simp]:
  "do_digests (game paid) = game_digests" "do_contract (game paid) = game_contract" "do_objects (game paid) = demo_objects"
  "do_frontier (game paid) = None" "do_epistemic (game paid) = game_epistemic paid" "do_map (game paid) = [(''ok'', ''ok'')]"
  "do_excluded_actions (game paid) = []" "do_excluded_interactions (game paid) = []" "do_recipes (game paid) = [(''act'', game_recipe)]"
  "do_kernel (game paid) = map (\<lambda>(m, e). ((m, ''a'', e), [''ok''])) [(''m'', ''e1''), (''m2'', ''e2''), (''m2'', ''e3''), (''m2'', ''e4'')]"
  "ed_growth game_digests = demo_digests" "ec_cost_events (game_epistemic paid) = (if paid then [game_fee] else [])"
  "ec_max_support (game_epistemic paid) = 8" "ec_max_bytes (game_epistemic paid) = 100" "ec_max_history (game_epistemic paid) = 4"
  "ed_size game_digests = length" "ed_support game_digests hs = concat (map game_label hs)"
  by (simp_all add: game_def game_digests_def game_epistemic_def)

lemma game_growth_env: "growth_env (game paid) None [] = game_env"
  by (simp add: growth_env_def game_env_def)

definition game_begin :: "checkpoint option \<Rightarrow> hypothesis" where
  "game_begin entry = \<lparr>hy_model = ''m'', hy_state = game_state, hy_entry = entry, hy_steps = 0\<rparr>"

definition game_ended :: "checkpoint option \<Rightarrow> hypothesis" where
  "game_ended entry = \<lparr>hy_model = ''m'', hy_state = game_after, hy_entry = entry, hy_steps = 1\<rparr>"

lemma game_worlds_fields [simp]:
  "hy_model (game_begin entry) = ''m''" "hy_state (game_begin entry) = game_state" "hy_entry (game_begin entry) = entry"
  "hy_steps (game_begin entry) = 0" "hy_state (game_ended entry) = game_after" "hy_entry (game_ended entry) = entry"
  "hy_steps (game_ended entry) = 1"
  by (simp_all add: game_begin_def game_ended_def)

lemma game_updates [simp]: "game_state\<lparr>gs_models := [''m'']\<rparr> = game_state" "game_begin entry\<lparr>hy_entry := entry'\<rparr> = game_begin entry'"
  "game_begin entry\<lparr>hy_state := game_state\<rparr> = game_begin entry"
  by (rule gstate.equality) (simp_all add: game_begin_def)

lemma game_labels [simp]: "game_label (game_begin None) = ''0n''" "game_label (game_begin (Some game_mark)) = ''0a''"
  "game_label (game_ended None) = ''1n''" "game_label (game_ended (Some game_mark)) = ''1a''"
  "game_label (game_ended (Some \<lparr>cp_time = 2, cp_capacities = caps\<rparr>)) = ''1b''"
proof -
  have n: "show_nat 0 = ''0''" "show_nat (Suc 0) = ''1''" by code_simp+
  show "game_label (game_begin None) = ''0n''" "game_label (game_begin (Some game_mark)) = ''0a''"
    "game_label (game_ended None) = ''1n''" "game_label (game_ended (Some game_mark)) = ''1a''"
    "game_label (game_ended (Some \<lparr>cp_time = 2, cp_capacities = caps\<rparr>)) = ''1b''"
    by (simp_all add: game_label_def game_mark_def n)
qed

lemma game_leaf_objective: "leaves_objective (game paid) state [game_ended (Some game_mark)] = Inr game_objective"
  using game_after_facts(8) by (simp add: leaves_objective_def List.map_filter_def game_mark_def objective_of_def)

lemma game_marked: "marked (game_begin entry) = game_begin (Some game_mark)"
  "marked (game_ended entry) = game_ended (Some \<lparr>cp_time = 2, cp_capacities = gs_capacities game_after\<rparr>)"
  by (simp_all add: marked_def game_begin_def game_ended_def game_mark_def game_after_facts)

lemma game_totals: "event_totals game_contract game_fee = [(''money'', 0)]"
  by code_simp

lemma game_pay [simp]: "pay (game paid) (game_begin entry) = Inr (game_begin entry)" "pay (game paid) (game_ended entry) = Inr (game_ended entry)"
  by (simp_all add: pay_def pay_event_def Let_def game_fee_def [THEN arg_cong, of ce_after] game_totals
      game_fee_def [THEN arg_cong, of ce_duration] game_paid check_def)

lemma game_next: "next_hypothesis (game paid) (game_begin entry) game_after = Inr (game_ended entry)"
  using game_pay(2) [of paid entry] by (simp add: next_hypothesis_def make_hypothesis_def check_def game_ended_def)

lemma game_step: "step_transition (game paid) (game_begin entry) game_recipe game_effect = Inr game_after"
  by (simp add: step_transition_def game_move)

section \<open>Its worlds\<close>

lemma game_starts: "starts (game paid) h \<longleftrightarrow> h = game_begin None"
  using game_pay(1) [of paid None] by (auto simp: starts_def game_initial game_begin_def)

lemma game_observes: "observes (game paid) a (game_begin entry) symbol t \<longleftrightarrow> a = ''act'' \<and> symbol = ''ok'' \<and> t = game_ended entry"
  by (auto simp: observes_def moved_def game_successors game_step game_next dict_get_def split: if_splits)

lemma game_no_more: "\<not> observes (game paid) a (game_ended entry) symbol t"
proof
  assume "observes (game paid) a (game_ended entry) symbol t"
  then obtain effect after where "transition demo_digests game_contract game_after game_recipe effect demo_objects None = Inr after"
    by (auto simp: observes_def moved_def step_transition_def dict_get_def split: if_splits)
  then show False using game_after_facts(5) by (auto elim: transition_Inr)
qed

lemma game_worlds: "h \<in> worlds (game paid) \<Longrightarrow>
    h \<in> {game_begin None, game_begin (Some game_mark), game_ended None, game_ended (Some game_mark),
      game_ended (Some \<lparr>cp_time = 2, cp_capacities = gs_capacities game_after\<rparr>)}"
  by (induction rule: worlds.induct) (auto simp: game_starts game_observes game_no_more game_marked)

lemma game_no_collision: "inj_on (ed_hypothesis (do_digests (game paid))) (worlds (game paid))"
proof (rule inj_on_subset)
  show "worlds (game paid) \<subseteq> {game_begin None, game_begin (Some game_mark), game_ended None, game_ended (Some game_mark),
      game_ended (Some \<lparr>cp_time = 2, cp_capacities = gs_capacities game_after\<rparr>)}"
    using game_worlds by blast
  show "inj_on (ed_hypothesis (do_digests (game paid))) {game_begin None, game_begin (Some game_mark), game_ended None,
      game_ended (Some game_mark), game_ended (Some \<lparr>cp_time = 2, cp_capacities = gs_capacities game_after\<rparr>)}"
    by (auto simp: inj_on_def game_digests_def)
qed

section \<open>Its methods\<close>

lemma game_normal: "normal game_state" "normal game_after"
  using initial_state_normal [OF game_initial] transition_normal [OF game_move] by auto

lemma game_bounded:
  assumes "normal (hy_state h)"
  shows "bounded (game paid) [h] st = (Inr [h], st\<lparr>cs_peak := max (cs_peak st) 1\<rparr>)"
proof -
  have "map_res (\<lambda>h. res_bind (normalize (hy_state h)) (\<lambda>s. Inr (h\<lparr>hy_state := s\<rparr>))) [h] = Inr [h]"
    by (rule map_res_states) (simp add: assms)
  then have "canonical_support game_digests [h] = Inr [h]"
    unfolding canonical_support_def by (simp only: res_bind_simps) (simp add: dict_of_def dict_update_def dict_set_def)
  then show ?thesis
    by (simp add: bounded_def bind_run_def lift_def demand_def check_def modify_def returns_def)
qed

lemma game_initial_support: "initial_support (game paid) st = (Inr [game_begin None], st\<lparr>cs_peak := max (cs_peak st) 1\<rparr>)"
  using game_bounded [of "game_begin None"] game_normal game_pay(1) [of paid None]
  by (simp add: initial_support_def game_initial bind_run_def lift_def make_hypothesis_def flip: game_begin_def)

lemma game_mark_entry: "mark_entry (game paid) [game_begin None] [] st = (Inr [game_begin (Some game_mark)], st\<lparr>cs_peak := max (cs_peak st) 1\<rparr>)"
  using game_bounded [of "game_begin (Some game_mark)"] game_normal
  by (simp add: mark_entry_def bind_run_def lift_def demand_def check_def game_growth_env game_allowed game_mark_made)

lemma game_bounded_ended: "bounded (game paid) [game_ended entry] st = (Inr [game_ended entry], st\<lparr>cs_peak := max (cs_peak st) 1\<rparr>)"
  using game_bounded [of "game_ended entry"] game_normal by simp

lemma game_advance:
  assumes "budgeted \<Longrightarrow> cs_expansions st < 100"
  shows "advance (game paid) budgeted [game_begin entry] ''act'' st = (Inr [(''ok'', [game_ended entry])],
    st\<lparr>cs_expansions := cs_expansions st + (if budgeted then 1 else 0), cs_transitions := cs_transitions st + 1,
        cs_peak := max (cs_peak st) 1\<rparr>)"
proof -
  have app: "\<exists>act. step_applicable (game paid) (game_begin entry) game_recipe = Inr act"
    using game_applicable by (simp add: step_applicable_def)
  show ?thesis using app assms
    by (auto simp: advance_def bind_run_def lift_def demand_def check_def game_successors game_step game_next budget_take_def
        domain_limits_def modify_def returns_def add_observation_def dict_set_def dict_get_def item_def dict_get_default_def
        game_bounded_ended)
qed

lemma game_goal: "support_terminal (game paid) None [game_ended (Some game_mark)] = Inr True"
  using game_after_facts(1,4)
  by (simp add: support_terminal_def terminal_def growth_env_def env_of_def game_mark_def Let_def del: all_in.simps)

lemma game_no_goal: "support_terminal (game paid) None [game_begin (Some game_mark)] = Inr False"
  by (simp add: support_terminal_def terminal_def growth_env_def env_of_def game_mark_def Let_def)

lemma game_replay: "\<exists>st'. replay (game paid) [game_step] [] st = (Inr [game_ended (Some game_mark)], st')"
  by (simp add: replay_def replay_with_def replay_step_def game_step_def bind_run_def lift_def demand_def check_def returns_def
    game_initial_support game_mark_entry game_advance dict_get_def)

lemma game_check_node: "\<exists>st'. check_node (game paid) [] game_node [game_begin None] 0
    (fresh_reference\<lparr>cs_peak := 1\<rparr>) = (Inr [[game_ended (Some game_mark)]], st')"
  by (simp add: check_node.simps next_node_def game_node_def bind_run_def lift_def demand_def check_def returns_def get_run_def modify_def
      domain_limits_def game_mark_entry dict_keys_def dict_get_def game_advance game_goal game_no_goal
      fresh_reference_def fresh_counters_def counters.defs)

lemma game_reference: "reference_comparisons (game paid) [] st = (Inr [], st)"
  by (simp add: reference_comparisons_def comparator_grid_def lift_def)

lemma game_start: "replay (game paid) [] [] fresh_reference = (Inr [game_begin None], fresh_reference\<lparr>cs_peak := 1\<rparr>)"
  by (simp add: replay_def replay_with_def bind_run_def lift_def demand_def check_def returns_def game_initial_support)
    (simp add: fresh_reference_def fresh_counters_def counters.defs)

lemma game_accepted:
  assumes "el_input plan = ''do''" "el_contract plan = ''ec''" "el_history plan = []" "el_map plan = [(''ok'', ''ok'')]"
    "el_excluded_actions plan = []" "el_excluded_interactions plan = []" "el_policy plan = Some game_node"
    "el_policy_digest plan = Some ''no''" "el_objective plan = Some game_objective"
  shows "\<exists>result. check_epistemic_plan (game paid) plan = Inr result \<and> pk_objective result = game_objective"
proof -
  have ids: "domain_digest (game paid) = ''do''" "ed_contract game_digests (game_epistemic paid) = ''ec''" "ed_node game_digests game_node = ''no''"
    "sorted_set [] = ([] :: ident list)"
    by (simp_all add: domain_digest_def game_digests_def sorted_set_def)
  obtain st where st: "check_node (game paid) [] game_node [game_begin None] 0 (fresh_reference\<lparr>cs_peak := 1\<rparr>) =
      (Inr [[game_ended (Some game_mark)]], st)"
    using game_check_node by blast
  show ?thesis
    by (simp add: check_epistemic_plan_def assms check_def require_some_def bind_run_def returns_def ids game_reference game_start st [simplified]
        game_leaf_objective)
qed

lemma game_check: "\<exists>result. check_epistemic_plan (game paid) game_plan = Inr result \<and> pk_objective result = game_objective"
  by (rule game_accepted) (simp_all add: game_plan_def)

section \<open>Its policies\<close>

definition game_policy :: epistemic_policy where
  "game_policy = \<lparr>po_node = game_node, po_leaves = [game_ended (Some game_mark)], po_nodes = 2\<rparr>"

lemma game_unfinished: "support_terminal (game paid) None [game_begin None] = Inr False"
  "support_terminal (game paid) None [game_ended None] = Inr False"
  by (simp_all add: support_terminal_def terminal_def growth_env_def env_of_def)

lemma game_hidden: "mark_entry (game paid) [game_ended None] [] st = (Inl (GrowthError ''epistemic_hidden_entry''), st)"
  by (simp add: mark_entry_def bind_run_def lift_def demand_def check_def game_growth_env game_after_facts(6))

lemma game_stuck:
  "\<exists>code. advance (game paid) True [game_ended None] ''act'' st = (Inl (GrowthError code), st) \<and> code \<notin> set LIMIT_CODES"
proof -
  obtain code where "applicable demo_digests game_contract game_after game_recipe demo_objects None = Inl (GrowthError code)"
    "take 6 code = ''growth''"
    using game_after_facts(5) by blast
  moreover have "code \<notin> set LIMIT_CODES" using calculation(2) by (auto simp: LIMIT_CODES_def)
  ultimately show ?thesis
    by (intro exI [of _ code])
      (simp add: advance_def bind_run_def lift_def demand_def check_def dict_get_def step_applicable_def game_after_facts(3) game_ended_def)
qed

abbreviation game_search :: "bool \<Rightarrow> policy_env" where
  "game_search paid \<equiv> \<lparr>pe_domain = game paid, pe_comparisons = [], pe_endpoint = None\<rparr>"

lemma game_dead_end:
  assumes "ps_memo st = []" "cs_states st < 100" "cs_complete st"
  shows "policies_body recur (game_search paid) [game_ended None] 1 st =
    (Inr [], st\<lparr>cs_states := cs_states st + 1, cs_depth := max (cs_depth st) 1, ps_memo := [((''1n'', 1), [])]\<rparr>)"
proof -
  obtain code where stuck: "advance (game paid) True [game_ended None] ''act'' s = (Inl (GrowthError (code s)), s)" "code s \<notin> set LIMIT_CODES"
      for s :: policy_search
    using game_stuck [where ?'a = "\<lparr>ps_memo :: (digest \<times> nat, epistemic_policy list) dict, ps_stored :: nat\<rparr>"] by metis
  show ?thesis using assms
    by (simp add: policies_body_def Let_def bind_run_def get_run_def budget_take_def domain_limits_def modify_def lift_def returns_def
        game_unfinished history_limit_def last_time_def game_after_facts policies_here_def selections_of_def catching_def game_hidden
        dict_keys_def try_action_def stuck dict_set_def)
qed

lemma game_finish:
  assumes "dict_get (ps_memo st) (''1a'', 1) = None" "cs_states st < 100"
  shows "policies_body recur (game_search paid) [game_ended (Some game_mark)] 1 st =
    (Inr [\<lparr>po_node = EpistemicNode ''1a'' None False [], po_leaves = [game_ended (Some game_mark)], po_nodes = 1\<rparr>],
     st\<lparr>cs_states := cs_states st + 1, cs_depth := max (cs_depth st) 1\<rparr>)"
  using assms
  by (simp add: policies_body_def Let_def bind_run_def get_run_def budget_take_def domain_limits_def modify_def lift_def returns_def game_goal)

lemma game_enumeration:
  "\<exists>st. enumerate_supports (game_search paid) [game_begin None] 0 (fresh_policies\<lparr>cs_peak := Suc 0\<rparr>) = (Inr [game_policy], st) \<and>
     cs_complete st"
proof -
  have fuel: "policies_from 5 e = policies_body (policies_from 4 e) e" "policies_from 4 e = policies_body (policies_from 3 e) e" for e
    using policies_from.simps(2) [of 4] policies_from.simps(2) [of 3] by (auto intro!: ext)
  have node: "make_node ''0n'' (Some ''act'') True [(''ok'', EpistemicNode ''1a'' None False [])] = Inr game_node"
    by code_simp
  show ?thesis
    by (simp add: enumerate_supports_def fuel) (simp add: policies_body_def [of "policies_body (policies_from 3 (game_search paid)) (game_search paid)"] Let_def bind_run_def get_run_def budget_take_def
        domain_limits_def modify_def lift_def returns_def game_unfinished history_limit_def last_time_def policies_here_def
        selections_of_def catching_def game_mark_entry dict_keys_def dict_values_def try_action_def game_advance game_dead_end [simplified]
        game_finish [simplified] policy_fits_def node dict_set_def dict_get_def game_policy_def fresh_policies_def fresh_counters_def counters.defs)
qed

lemma game_no_comparators: "compare_epistemic (game paid) [] st = (Inr [], st)"
  by (simp add: compare_epistemic_def comparator_grid_def returns_def)

lemma game_choices:
  "plan_choices (game paid) [] [] fresh_policies = enumerate_supports (game_search paid) [game_begin None] 0 (fresh_policies\<lparr>cs_peak := Suc 0\<rparr>)"
  by (simp add: plan_choices_def replay_def replay_with_def bind_run_def lift_def demand_def check_def returns_def game_initial_support)
    (simp add: fresh_policies_def fresh_counters_def counters.defs)

lemma game_orders: "gc_cost_order game_contract = [''money'']" "sort (dict_keys (gc_domains game_contract)) = [''research'', ''task'', ''verification'']"
  by code_simp+

lemma game_policy_objective: "policy_objective (game paid) game_policy = Inr game_objective"
  by (simp add: policy_objective_def game_policy_def check_def game_leaf_objective)

lemma game_key: "\<exists>k. policy_key (game paid) game_policy = Inr k"
  by (simp add: policy_key_def game_policy_objective game_orders) (simp add: game_objective_def item_def dict_get_def)

section \<open>Its plan\<close>

lemma game_input [simp]: "domain_digest (game paid) = ''do''"
  by (simp add: domain_digest_def game_digests_def)

lemma game_recipes: "recipes_by_action game_contract demo_objects = Inr [(''act'', game_recipe)]"
  by code_simp

lemma game_kernel: "fold_res (kernel_step [''ok'']) (ec_kernel (game_epistemic paid)) [] = Inr (do_kernel (game paid))"
proof -
  have "fold_res (kernel_step [''ok'']) (ec_kernel (game_epistemic p)) [] = Inr (do_kernel (game p))" if "p \<in> {True, False}" for p
    using that by (simp add: game_epistemic_def kernel_step_def Let_def dict_keys_def dict_set_def)
  then show ?thesis by (cases paid) auto
qed

lemma game_rows: "expected_rows [(''act'', game_recipe)] = set (dict_keys (do_kernel (game paid)))"
proof -
  have effects: "map (\<lambda>e. (su_id e, su_models e)) (re_successors game_recipe) =
      [(''e1'', [''m'']), (''e2'', [''m2'']), (''e3'', [''m2'']), (''e4'', [''m2''])]"
    by code_simp
  have "expected_rows [(''act'', game_recipe)] =
      (\<Union>(i, models) \<in> set (map (\<lambda>e. (su_id e, su_models e)) (re_successors game_recipe)). (\<lambda>theta. (theta, ''a'', i)) ` set models)"
    by (auto simp: expected_rows_def dict_values_def)
  then show ?thesis unfolding effects by (simp add: dict_keys_def insert_commute)
qed

lemma game_make: "make_domain game_digests game_contract demo_objects (game_epistemic paid) None (Some [(''ok'', ''ok'')]) [] [] =
    Inr (game paid)"
proof -
  have fields: "ec_growth (game_epistemic paid) = ''k''" "ec_frontier (game_epistemic paid) = None"
    "ec_alphabet (game_epistemic paid) = [''ok'']" "dg_contract demo_digests game_contract = ''k''"
    by (simp_all add: game_epistemic_def demo_digests_def)
  have fee: "cost_event_ok game_contract game_fee" by code_simp
  show ?thesis
    by (simp add: make_domain_def Let_def game_valid fields check_def game_recipes game_kernel game_rows [symmetric] fee observation_map_of_def
        del: game_fields(10))
      (simp add: game_def dict_keys_def dict_values_def)
qed

lemma ex_weaken: "\<exists>x. P x \<and> Q x \<Longrightarrow> \<exists>x. P x"
  by blast

lemma game_plan_found:
  "\<exists>plan. plan_epistemic (game paid) [] = Inr plan \<and> el_policy plan = Some game_node \<and> el_objective plan = Some game_objective \<and>
     rp_complete (el_search plan) \<and> (\<exists>result. check_epistemic_plan (game paid) plan = Inr result)"
proof -
  obtain st where st: "enumerate_supports (game_search paid) [game_begin None] 0 (fresh_policies\<lparr>cs_peak := Suc 0\<rparr>) = (Inr [game_policy], st)"
    "cs_complete st"
    using game_enumeration by blast
  obtain k where k: "policy_key (game paid) game_policy = Inr k" using game_key by blast
  have parts: "is_identifier ''ok''" "sorted_set [] = ([] :: ident list)" by (code_simp, simp add: sorted_set_def)
  show ?thesis
    by (simp add: plan_epistemic_def Let_def game_make game_no_comparators plan_code_choices_def catching_def bind_run_def returns_def game_choices st
        choose_policy_def k game_policy_objective make_plan_def parts dict_values_def dict_keys_def counters_report_def)
      (simp add: game_policy_def, intro ex_weaken [OF game_accepted]; simp add: game_digests_def game_epistemic_def)
qed

end
