(* ===== verification/Workflow.thy ===== *)
theory Workflow
  imports Epistemic_Plan
begin

text \<open>
  Named compositions of primitive actions (\<open>v6/composition.py\<close>): the domain a formation is paid in, the library of
  primitives, and \<open>check_composition\<close>, which unfolds a submitted observation tree afresh. Digests of the
  documents are parameters. A workflow document is equal to another up to the order of dict members.
\<close>

section \<open>Documents\<close>

record primitive_binding =
  pb_action :: digest
  pb_capability :: digest
  pb_input :: digest
  pb_output :: digest
  pb_policy :: digest

record workflow_request =
  wr_envelope :: envelope
  wr_input :: digest
  wr_history :: "epistemic_step list"
  wr_library :: "primitive_binding list"
  wr_input_schema :: digest
  wr_output_schema :: digest
  wr_targets :: "(ident, rat) dict"
  wr_spent :: "(ident, rat) dict"
  wr_formation :: "(ident, (ident, rat) dict) dict"
  wr_formation_duration :: rat
  wr_per_use :: "(ident, (ident, rat) dict) dict"
  wr_per_use_duration :: rat
  wr_max_steps :: nat
  wr_max_candidates :: nat

record workflow_candidate =
  wn_envelope :: envelope
  wn_request :: digest
  wn_domain :: digest
  wn_id :: ident
  wn_ir :: epistemic_node
  wn_constituents :: "digest list"
  wn_steps :: nat
  wn_expires :: rat

record workflow_certificate =
  wc_envelope :: envelope
  wc_request :: digest
  wc_candidate :: digest
  wc_input :: digest
  wc_initial :: digest
  wc_terminals :: "digest list"
  wc_objective :: objective
  wc_steps :: nat

record workflow_digests =
  wd_request :: "workflow_request \<Rightarrow> digest"
  wd_candidate :: "workflow_candidate \<Rightarrow> digest"
  wd_certificate :: "workflow_certificate \<Rightarrow> digest"

text \<open>A document made with the metadata of another has no extensions.\<close>

definition with_metadata :: "envelope \<Rightarrow> envelope" where
  "with_metadata e = e\<lparr>ev_extensions := ''{}''\<rparr>"

definition remove_prefix :: "string \<Rightarrow> string \<Rightarrow> string" where
  "remove_prefix p s = (if take (length p) s = p then drop (length p) s else s)"

definition workflow_name :: "digest \<Rightarrow> ident" where
  "workflow_name d = ''workflow-'' @ remove_prefix ''sha256:'' d"

section \<open>The domain of a formation\<close>

definition request_ok :: "epistemic_domain \<Rightarrow> workflow_request \<Rightarrow> bool" where
  "request_ok d r \<longleftrightarrow>
     set (dict_keys (wr_targets r)) \<subseteq> set (dict_keys (gc_domains (do_contract d))) \<and>
     set (dict_keys (wr_spent r)) = set (dict_keys (gc_resource_units (do_contract d))) \<and>
     (\<forall>v \<in> set (dict_values (wr_targets r) @ dict_values (wr_spent r)). v \<ge> 0) \<and>
     wr_formation_duration r \<ge> 0 \<and> wr_per_use_duration r \<ge> 0"

definition make_cost_event ::
  "ident \<Rightarrow> digest \<Rightarrow> nat \<Rightarrow> (ident, (ident, rat) dict) dict \<Rightarrow> rat \<Rightarrow> nat \<Rightarrow> growth_error + cost_event" where
  "make_cost_event i source after charges duration reserved =
     require (is_identifier i \<and> after \<le> 16 \<and> charges \<noteq> [] \<and> length charges \<le> 6 \<and> fits duration \<and> reserved \<le> 1000000)
       ValidationError
       (Inr \<lparr>ce_id = i, ce_source = source, ce_after = after, ce_charges = charges, ce_duration = duration,
             ce_reserved = reserved\<rparr>)"

definition formation_event :: "workflow_digests \<Rightarrow> epistemic_domain \<Rightarrow> workflow_request \<Rightarrow> growth_error + cost_event" where
  "formation_event wd d r =
     make_cost_event (workflow_name (wd_request wd r)) (wd_request wd r) (length (wr_history r))
       (dict_update (wr_formation r) (wr_per_use r)) (wr_formation_duration r + wr_per_use_duration r)
       (li_max_expansions (domain_limits d))"

definition reserved_expansions :: "cost_event list \<Rightarrow> nat" where
  "reserved_expansions events = sum_list (map ce_reserved events)"

definition formation_domain ::
  "workflow_digests \<Rightarrow> epistemic_domain \<Rightarrow> workflow_request \<Rightarrow> growth_error + epistemic_domain" where
  "formation_domain wd d r =
     (let events = ec_cost_events (do_epistemic d) in
      then_do (check (wr_input r = domain_digest d) ''composition_input_binding'')
     (then_do (check (set (dict_keys (wr_formation r)) = {''construction'', ''search'', ''checking'', ''transport''} \<and>
                      set (dict_keys (wr_per_use r)) = {''maintenance'', ''application''}) ''composition_costs_missing'')
     (then_do (check (request_ok d r) ''composition_domain_invalid'')
     (res_bind (formation_event wd d r) (\<lambda>event.
      then_do (check (reserved_expansions events + ce_reserved event \<le> 1000000) ''catalogue_synthesis_quota'')
     (require (length (events @ [event]) \<le> 16) ValidationError
       (make_domain (do_digests d) (do_contract d) (do_objects d) ((do_epistemic d)\<lparr>ec_cost_events := events @ [event]\<rparr>)
         (do_frontier d) (Some (do_map d)) (do_excluded_actions d) (do_excluded_interactions d))))))))"

section \<open>Primitives\<close>

type_synonym library = "(ident, primitive_binding) dict"

definition library_step :: "epistemic_domain \<Rightarrow> primitive_binding \<Rightarrow> library \<Rightarrow> growth_error + library" where
  "library_step d b known =
     (case (dict_get (do_objects d) (pb_action b), dict_get (do_objects d) (pb_capability b), dict_get (do_objects d) (pb_policy b)) of
        (Some (ActionDoc action), Some (CapabilityDoc cap), Some (PolicyDoc images)) \<Rightarrow>
          then_do (check ((case dict_get (do_recipes d) (ac_id action) of None \<Rightarrow> False
                           | Some r \<Rightarrow> ac_id action \<notin> set (dict_keys known) \<and> re_action_digest r = pb_action b) \<and>
                          ac_capability action = pb_capability b \<and> cap_output_schema_digest cap = pb_output b \<and>
                          cap_policy_digest cap = pb_policy b) ''composition_primitive_binding'')
            (Inr (dict_set known (ac_id action) b))
      | _ \<Rightarrow> Inl (GrowthError ''composition_primitive_missing''))"

definition primitive_library :: "epistemic_domain \<Rightarrow> workflow_request \<Rightarrow> growth_error + library" where
  "primitive_library d r = fold_res (library_step d) (wr_library r) []"

text \<open>
  The walk over a tree keeps a stack; its top is the head of the list. A tree is never its own ancestor, so the check
  of the identities on the way up always passes.
\<close>

lemma stack_size:
  "sum_list (map (\<lambda>x. size (fst x)) (map (\<lambda>child. (child, depth)) (rev (dict_values (en_branches node))))) < size node"
proof -
  have "sum_list (map (\<lambda>x. size (snd x)) bs) \<le> size_list (size_prod (\<lambda>x. 0) size) bs" for bs :: "(ident \<times> epistemic_node) list"
    by (induction bs) auto
  then show ?thesis by (cases node) (simp add: dict_values_def comp_def rev_map [symmetric] le_imp_less_Suc)
qed

function members_loop ::
  "(epistemic_node \<times> nat) list \<Rightarrow> nat \<Rightarrow> ident list \<Rightarrow> nat \<Rightarrow> growth_error + ident list \<times> nat" where
  "members_loop [] visited members longest = Inr (members, longest)"
| "members_loop ((node, depth) # stack) visited members longest =
     (if \<not> (depth \<le> 16 \<and> visited + 1 \<le> 4096) then Inl (GrowthError ''composition_grammar_bound'')
      else let (members, longest) = (case en_action node of None \<Rightarrow> (members, longest)
                 | Some a \<Rightarrow> (List.insert a members, max longest (depth + 1))) in
           members_loop (map (\<lambda>child. (child, depth + 1)) (rev (dict_values (en_branches node))) @ stack)
             (visited + 1) members longest)"
  by pat_completeness auto
termination
proof (relation "measure (\<lambda>(stack, _). sum_list (map (\<lambda>x. size (fst x)) stack))", simp)
  fix node depth stack visited members longest x xa y
  show "((map (\<lambda>child. (child, depth + 1)) (rev (dict_values (en_branches node))) @ stack, visited + 1, xa, y),
     (node, depth) # stack, visited, members, longest) \<in> measure (\<lambda>(stack, _). sum_list (map (\<lambda>x. size (fst x)) stack))"
    using stack_size [of "depth + 1" node] by simp
qed

definition ir_members :: "epistemic_node \<Rightarrow> growth_error + ident list \<times> nat" where
  "ir_members node = members_loop [(node, 0)] 0 [] 0"

definition constituent_digests :: "library \<Rightarrow> ident list \<Rightarrow> growth_error + digest list" where
  "constituent_digests known ids =
     then_do (check (set ids \<subseteq> set (dict_keys known)) ''composition_primitive_missing'')
     (res_bind (map_res (item known) ids) (\<lambda>bs.
       Inr (sorted_set (concat (map (\<lambda>b. [pb_action b, pb_capability b, pb_input b, pb_output b, pb_policy b]) bs)))))"

section \<open>Expiry\<close>

definition lives_of :: "epistemic_domain \<Rightarrow> ident \<Rightarrow> growth_error + lifecycle list" where
  "lives_of d name =
     res_bind (item (do_recipes d) name) (\<lambda>r.
     res_bind (action_at (do_objects d) (re_action_digest r)) (\<lambda>action.
     res_bind (capability_at (do_objects d) (ac_capability action)) (\<lambda>cap.
     Inr (List.map_filter (\<lambda>x. doc_lifecycle (dict_get (do_objects d) x))
            (re_action_digest r # ac_capability action # cap_policy_digest cap # ac_required action) @
          (case do_frontier d of None \<Rightarrow> []
           | Some f \<Rightarrow> map bi_lifecycle (filter (\<lambda>b. bi_action_id b = name) (fr_bindings f)))))))"

definition life_ends :: "contract \<Rightarrow> rat \<Rightarrow> lifecycle \<Rightarrow> growth_error + rat list" where
  "life_ends c scale life =
     require (scale \<noteq> 0) ZeroDivision
       (Inr (map (\<lambda>t. seconds_from c t / scale)
          (lc_valid_until life # (case lc_withdrawn_at life of None \<Rightarrow> [] | Some w \<Rightarrow> [w]))))"

definition expiry :: "epistemic_domain \<Rightarrow> ident list \<Rightarrow> growth_error + rat" where
  "expiry d ids =
     (let c = do_contract d in
      res_bind (time_scale c (do_objects d)) (\<lambda>scale.
      res_bind (map_res (\<lambda>name. res_bind (item (do_recipes d) name) (\<lambda>r. Inr (re_expires r))) ids) (\<lambda>expires.
      res_bind (map_res (lives_of d) ids) (\<lambda>lives.
      res_bind (map_res (life_ends c scale) (concat lives)) (\<lambda>later.
      min_of (gc_deadline c # expires @ concat later))))))"

section \<open>Unfolding a composition\<close>

text \<open>The target capacities and the bounds on spending, read in every hypothesis of a leaf.\<close>

definition targets_met :: "workflow_request \<Rightarrow> gstate \<Rightarrow> growth_error + bool" where
  "targets_met r s =
     res_bind (all_in (\<lambda>(k, v). res_bind (item (gs_capacities s) k) (\<lambda>i. Inr (iv_lower i \<ge> v))) (wr_targets r)) (\<lambda>reached.
     Inr (reached \<and> (\<forall>(k, v) \<in> set (wr_spent r). dict_get_default (gs_spent s) k 0 \<le> v)))"

definition unfold_leaf :: "epistemic_domain \<Rightarrow> workflow_request \<Rightarrow> epistemic_node \<Rightarrow> hypothesis list \<Rightarrow> digest \<Rightarrow>
   (reference_search, hypothesis list list) stateful" where
  "unfold_leaf d r node support record_type =
     bind_run (lift (if en_branches node = [] \<and> \<not> en_entry node \<and> record_type = wr_output_schema r
                     then support_terminal d None support else Inr False)) (\<lambda>ended.
     bind_run (demand ended ''composition_postcondition'') (\<lambda>_.
     bind_run (lift (all_in (\<lambda>h. targets_met r (hy_state h)) support)) (\<lambda>met.
     bind_run (demand met ''composition_postcondition'') (\<lambda>_. returns [support]))))"

definition unfold_node :: "epistemic_domain \<Rightarrow> workflow_request \<Rightarrow> epistemic_node \<Rightarrow> hypothesis list \<Rightarrow> nat \<Rightarrow> comparison list \<Rightarrow>
   (reference_search, hypothesis list) stateful" where
  "unfold_node d r node support depth comparisons =
     bind_run (modify (\<lambda>st. st\<lparr>rs_nodes := rs_nodes st + 1\<rparr>)) (\<lambda>_.
     bind_run (get_run rs_nodes) (\<lambda>nodes.
     bind_run (demand (nodes \<le> li_max_witness_nodes (domain_limits d) \<and> depth \<le> wr_max_steps r)
       ''composition_check_budget'') (\<lambda>_.
     bind_run (demand (en_support node = ed_support (do_digests d) support) ''composition_support_tampered'') (\<lambda>_.
     if en_entry node then mark_entry d support comparisons else returns support))))"

definition typed_binding :: "library \<Rightarrow> ident \<Rightarrow> digest \<Rightarrow> growth_error + primitive_binding" where
  "typed_binding known a record_type =
     (case dict_get known a of
        Some b \<Rightarrow> then_do (check (pb_input b = record_type) ''composition_interface_type'') (Inr b)
      | None \<Rightarrow> Inl (GrowthError ''composition_interface_type''))"

function unfold :: "epistemic_domain \<Rightarrow> workflow_request \<Rightarrow> library \<Rightarrow> comparison list \<Rightarrow>
   epistemic_node \<Rightarrow> hypothesis list \<Rightarrow> digest \<Rightarrow> nat \<Rightarrow> (reference_search, hypothesis list list) stateful" where
  "unfold d r known comparisons node support record_type depth =
     bind_run (unfold_node d r node support depth comparisons) (\<lambda>support.
     case en_action node of
       None \<Rightarrow> unfold_leaf d r node support record_type
     | Some a \<Rightarrow>
         bind_run (lift (typed_binding known a record_type)) (\<lambda>b.
         bind_run (lift (support_terminal d None support)) (\<lambda>ended.
         bind_run (demand (\<not> ended) ''composition_endpoint_overrun'') (\<lambda>_.
         bind_run (advance d True support a) (\<lambda>outcomes.
         bind_run (demand (set (dict_keys outcomes) = set (dict_keys (en_branches node)))
           ''composition_observation_branch_missing'') (\<lambda>_.
         fold_run (\<lambda>(symbol, after) leaves.
           case dict_get (en_branches node) symbol of
             None \<Rightarrow> lift (Inl KeyError)
           | Some child \<Rightarrow> bind_run (unfold d r known comparisons child after (pb_output b) (depth + 1))
                             (\<lambda>more. returns (leaves @ more)))
           outcomes []))))))"
  by pat_completeness auto
termination
  by (relation "measure (\<lambda>(d, r, known, comparisons, node, _). size node)") (auto intro: epistemic_child_size)

declare unfold.simps [simp del]

definition make_certificate :: "workflow_digests \<Rightarrow> workflow_request \<Rightarrow> workflow_candidate \<Rightarrow> digest \<Rightarrow> digest \<Rightarrow>
   digest list \<Rightarrow> objective \<Rightarrow> nat \<Rightarrow> growth_error + workflow_certificate" where
  "make_certificate wd r c input start terminals obj steps =
     require (1 \<le> length terminals \<and> length terminals \<le> 4096 \<and> 1 \<le> steps \<and> steps \<le> 16) ValidationError
       (Inr \<lparr>wc_envelope = with_metadata (wr_envelope r), wc_request = wd_request wd r, wc_candidate = wd_candidate wd c,
             wc_input = input, wc_initial = start, wc_terminals = terminals, wc_objective = obj, wc_steps = steps\<rparr>)"

text \<open>What the unfolding of a submitted tree finds: the digest of its start and the supports of its leaves.\<close>

definition unfolded :: "epistemic_domain \<Rightarrow> workflow_request \<Rightarrow> library \<Rightarrow> epistemic_node \<Rightarrow>
   (reference_search, digest \<times> hypothesis list list) stateful" where
  "unfolded d r known ir =
     (let history = wr_history r in
      bind_run (reference_comparisons d history) (\<lambda>comparisons.
      bind_run (if history = [] then returns comparisons else reference_comparisons d []) (\<lambda>start.
      bind_run (replay d history start) (\<lambda>support.
      bind_run (unfold d r known comparisons ir support (wr_input_schema r) 0) (\<lambda>leaves.
      returns (ed_support (do_digests d) support, leaves))))))"

definition candidate_bound :: "workflow_digests \<Rightarrow> epistemic_domain \<Rightarrow> workflow_request \<Rightarrow> workflow_candidate \<Rightarrow>
   growth_error + library \<times> nat" where
  "candidate_bound wd d r c =
     then_do (check (wn_request c = wd_request wd r \<and> wn_domain c = domain_digest d) ''composition_candidate_binding'')
     (res_bind (primitive_library d r) (\<lambda>known.
      res_bind (ir_members (wn_ir c)) (\<lambda>(ids, steps).
      then_do (check (ids \<noteq> [] \<and> steps = wn_steps c \<and> steps \<le> wr_max_steps r \<and>
                      steps + length (wr_history r) \<le> gc_max_decisions (do_contract d)) ''composition_primitive_budget'')
     (res_bind (constituent_digests known ids) (\<lambda>constituents.
      res_bind (if wn_constituents c = constituents then res_bind (expiry d ids) (\<lambda>e. Inr (wn_expires c = e))
                else Inr False) (\<lambda>same.
      then_do (check same ''composition_constituent_tampered'')
     (then_do (check (wn_id c = workflow_name (ed_node (do_digests d) (wn_ir c))) ''composition_ir_identity'')
       (Inr (known, steps)))))))))"

definition check_composition ::
  "workflow_digests \<Rightarrow> epistemic_domain \<Rightarrow> workflow_request \<Rightarrow> workflow_candidate \<Rightarrow> growth_error + workflow_certificate" where
  "check_composition wd given r c =
     res_bind (formation_domain wd given r) (\<lambda>d.
     res_bind (candidate_bound wd d r c) (\<lambda>(known, steps).
     res_bind (fst (unfolded d r known (wn_ir c) fresh_reference)) (\<lambda>(start, leaves).
     res_bind (leaves_objective d start (concat leaves)) (\<lambda>obj.
     make_certificate wd r c (domain_digest d) start (sort (map (ed_support (do_digests d)) leaves)) obj steps))))"

end
