(* ===== verification/Workflow_Catalogue.thy ===== *)
theory Workflow_Catalogue
  imports Workflow "HOL-Library.Sublist"
begin

text \<open>
  Synthesis of compositions (\<open>v6/synthesis.py\<close>) and revisions of the catalogue they enter
  (\<open>v6/catalogue_revision.py\<close>). Documents compare equal up to the order of dict members.
\<close>

section \<open>Synthesis\<close>

record workflow_synthesis =
  ws_envelope :: envelope
  ws_request :: digest
  ws_contract :: epistemic_contract
  ws_code :: string
  ws_candidates :: "workflow_candidate list"
  ws_certificates :: "workflow_certificate list"
  ws_search :: report
  ws_alternative :: epistemic_plan
  ws_preferred :: "bool option"

text \<open>The local variables of \<open>synthesize\<close>: its search and the two lists.\<close>

record synthesis =
  sy_search :: policy_search
  sy_candidates :: "workflow_candidate list"
  sy_certificates :: "workflow_certificate list"

definition on_search :: "(policy_search, 'a) stateful \<Rightarrow> (synthesis, 'a) stateful" where
  "on_search m = (\<lambda>st. let (out, s) = m (sy_search st) in (out, st\<lparr>sy_search := s\<rparr>))"

definition make_candidate :: "workflow_digests \<Rightarrow> epistemic_domain \<Rightarrow> workflow_request \<Rightarrow> epistemic_node \<Rightarrow> digest list \<Rightarrow> nat \<Rightarrow>
   rat \<Rightarrow> growth_error + workflow_candidate" where
  "make_candidate wd d r node constituents steps expires =
     (let name = workflow_name (ed_node (do_digests d) node) in
      require (is_identifier name \<and> 1 \<le> length constituents \<and> length constituents \<le> 64 \<and> 1 \<le> steps \<and> steps \<le> 16 \<and>
          fits expires) ValidationError
        (Inr \<lparr>wn_envelope = with_metadata (wr_envelope r), wn_request = wd_request wd r, wn_domain = domain_digest d,
              wn_id = name, wn_ir = node, wn_constituents = constituents, wn_steps = steps, wn_expires = expires\<rparr>))"

definition candidate_of :: "workflow_digests \<Rightarrow> epistemic_domain \<Rightarrow> workflow_request \<Rightarrow> library \<Rightarrow> epistemic_policy \<Rightarrow>
   growth_error + workflow_candidate option" where
  "candidate_of wd d r known p =
     res_bind (ir_members (po_node p)) (\<lambda>(ids, steps).
     if ids = [] \<or> \<not> set ids \<subseteq> set (dict_keys known) \<or> steps > wr_max_steps r then Inr None
     else res_bind (constituent_digests known ids) (\<lambda>constituents.
          res_bind (expiry d ids) (\<lambda>e.
          res_bind (make_candidate wd d r (po_node p) constituents steps e) (\<lambda>c. Inr (Some c)))))"

definition incomplete_search :: "(synthesis, unit) stateful" where
  "incomplete_search = on_search (modify incomplete)"

text \<open>One policy of the loop; \<open>Return\<close> is \<open>break\<close>.\<close>

definition synthesis_step :: "workflow_digests \<Rightarrow> epistemic_domain \<Rightarrow> epistemic_domain \<Rightarrow> workflow_request \<Rightarrow> library \<Rightarrow>
   epistemic_policy \<Rightarrow> (synthesis, unit flow) stateful" where
  "synthesis_step wd given d r known p =
     bind_run (lift (candidate_of wd d r known p)) (\<lambda>made.
     case made of
       None \<Rightarrow> returns (Onward ())
     | Some c \<Rightarrow>
         bind_run (catching (lift (check_composition wd given r c))) (\<lambda>out.
         case out of
           Inl code \<Rightarrow> if sublist ''budget'' code then bind_run incomplete_search (\<lambda>_. returns (Return ()))
                       else returns (Onward ())
         | Inr certificate \<Rightarrow>
             bind_run (get_run (\<lambda>st. length (sy_candidates st) = wr_max_candidates r)) (\<lambda>full.
             if full then bind_run incomplete_search (\<lambda>_. returns (Return ()))
             else bind_run (modify (\<lambda>st. st\<lparr>sy_candidates := sy_candidates st @ [c],
                      sy_certificates := sy_certificates st @ [certificate]\<rparr>)) (\<lambda>_. returns (Onward ())))))"

fun synthesis_loop :: "workflow_digests \<Rightarrow> epistemic_domain \<Rightarrow> epistemic_domain \<Rightarrow> workflow_request \<Rightarrow> library \<Rightarrow>
   epistemic_policy list \<Rightarrow> (synthesis, unit) stateful" where
  "synthesis_loop wd given d r known [] = returns ()"
| "synthesis_loop wd given d r known (p # ps) =
     bind_run (synthesis_step wd given d r known p) (\<lambda>out.
     case out of Return u \<Rightarrow> returns u | Onward u \<Rightarrow> synthesis_loop wd given d r known ps)"

definition sorted_policies :: "epistemic_domain \<Rightarrow> epistemic_policy list \<Rightarrow> growth_error + epistemic_policy list" where
  "sorted_policies d ps =
     res_bind (map_res (\<lambda>p. res_bind (policy_key d p) (\<lambda>k. Inr (p, k))) ps) (\<lambda>keyed. Inr (map fst (sort_key snd keyed)))"

definition synthesis_search :: "workflow_digests \<Rightarrow> epistemic_domain \<Rightarrow> epistemic_domain \<Rightarrow> workflow_request \<Rightarrow> library \<Rightarrow>
   comparison list \<Rightarrow> (synthesis, unit) stateful" where
  "synthesis_search wd given d r known comparisons =
     bind_run (catching (
       bind_run (on_search (plan_choices d (wr_history r) comparisons)) (\<lambda>policies.
       bind_run (lift (sorted_policies d policies)) (synthesis_loop wd given d r known)))) (\<lambda>out.
     case out of
       Inr u \<Rightarrow> returns u
     | Inl code \<Rightarrow> if code \<in> set LIMIT_CODES then incomplete_search else lift (Inl (GrowthError code)))"

definition rank :: "contract \<Rightarrow> objective \<Rightarrow> growth_error + rat list" where
  "rank c obj =
     res_bind (map_res (item (ob_cost obj)) (gc_cost_order c)) (\<lambda>costs.
     res_bind (map_res (item (ob_debt obj)) (sort (dict_keys (gc_domains c)))) (\<lambda>debts.
     Inr ([ob_entry obj, - ob_attainment obj] @ costs @ debts @ [ob_duration obj])))"

definition preferred :: "contract \<Rightarrow> epistemic_plan \<Rightarrow> bool \<Rightarrow> workflow_certificate list \<Rightarrow> growth_error + bool option" where
  "preferred c primitive exact certificates =
     (if \<not> (rp_complete (el_search primitive) \<and> exact) then Inr None
      else case el_objective primitive of
        Some obj \<Rightarrow>
          if certificates = [] then Inr (Some True)
          else res_bind (rank c obj) (\<lambda>own.
               res_bind (map_res (\<lambda>x. rank c (wc_objective x)) certificates) (\<lambda>ranks.
               Inr (Some (own \<le> Min (set ranks)))))
      | None \<Rightarrow> Inr (if certificates = [] then None else Some False))"

definition synthesize :: "workflow_digests \<Rightarrow> epistemic_domain \<Rightarrow> workflow_request \<Rightarrow> growth_error + workflow_synthesis" where
  "synthesize wd given r =
     res_bind (formation_domain wd given r) (\<lambda>d.
     res_bind (primitive_library d r) (\<lambda>known.
     let (compared, st) = compare_epistemic d (wr_history r) fresh_policies in
     res_bind compared (\<lambda>comparisons.
     let begun = \<lparr>sy_search = st\<lparr>cs_complete := \<forall>x \<in> set comparisons. rp_complete (cm_search x)\<rparr>, sy_candidates = [],
                  sy_certificates = []\<rparr>;
         (out, st) = synthesis_search wd given d r known comparisons begun in
     res_bind out (\<lambda>_.
     res_bind (plan_epistemic given (wr_history r)) (\<lambda>primitive.
     let exact = cs_complete (sy_search st) in
     res_bind (preferred (do_contract given) primitive exact (sy_certificates st)) (\<lambda>choice.
     require (length (sy_candidates st) \<le> 128 \<and> length (sy_certificates st) \<le> 128) ValidationError
       (Inr \<lparr>ws_envelope = with_metadata (wr_envelope r), ws_request = wd_request wd r, ws_contract = do_epistemic d,
             ws_code = (if \<not> exact then ''composition_search_unknown''
                        else if sy_candidates st \<noteq> [] then ''composition_candidates_checked''
                        else ''composition_no_candidate''),
             ws_candidates = sy_candidates st, ws_certificates = sy_certificates st,
             ws_search = counters_report (domain_limits d) (sy_search st), ws_alternative = primitive,
             ws_preferred = choice\<rparr>)))))))"

section \<open>Equal documents\<close>

primrec plain_node :: "epistemic_node \<Rightarrow> epistemic_node" where
  "plain_node (EpistemicNode d a e bs) = EpistemicNode d a e (plain (map (map_prod id plain_node) bs))"

definition plain_candidate :: "workflow_candidate \<Rightarrow> workflow_candidate" where
  "plain_candidate c = c\<lparr>wn_ir := plain_node (wn_ir c)\<rparr>"

definition plain_certificate :: "workflow_certificate \<Rightarrow> workflow_certificate" where
  "plain_certificate c = c\<lparr>wc_objective := plain_objective (wc_objective c)\<rparr>"

definition plain_contract :: "epistemic_contract \<Rightarrow> epistemic_contract" where
  "plain_contract e = e\<lparr>ec_cost_events :=
     map (\<lambda>x. x\<lparr>ce_charges := plain (map (\<lambda>(k, v). (k, plain v)) (ce_charges x))\<rparr>) (ec_cost_events e)\<rparr>"

section \<open>Catalogue revisions\<close>

record catalogue_revision =
  ct_envelope :: envelope
  ct_parent :: "digest option"
  ct_parent_contract :: digest
  ct_contract :: epistemic_contract
  ct_history :: "epistemic_step list"
  ct_request :: digest
  ct_candidate :: digest
  ct_certificate :: digest
  ct_number :: nat
  ct_expansions :: nat
  ct_step_limit :: nat

definition make_revision :: "catalogue_revision \<Rightarrow> growth_error + catalogue_revision" where
  "make_revision v =
     require (length (ct_history v) \<le> 16 \<and> 1 \<le> ct_number v \<and> ct_number v \<le> 4 \<and> ct_expansions v \<le> 1000000 \<and>
              1 \<le> ct_step_limit v \<and> ct_step_limit v \<le> 16) ValidationError (Inr v)"

definition parent_matches :: "epistemic_domain \<Rightarrow> workflow_request \<Rightarrow> nat \<Rightarrow> catalogue_revision \<Rightarrow> bool" where
  "parent_matches d r number parent \<longleftrightarrow>
     plain_contract (ct_contract parent) = plain_contract (do_epistemic d) \<and> ct_number parent = number - 1 \<and>
     take (length (ct_history parent)) (wr_history r) = ct_history parent \<and>
     ct_step_limit parent = gc_max_decisions (do_contract d)"

definition propose_catalogue :: "workflow_digests \<Rightarrow> (catalogue_revision \<Rightarrow> digest) \<Rightarrow> epistemic_domain \<Rightarrow> workflow_request \<Rightarrow>
   workflow_synthesis \<Rightarrow> workflow_candidate \<Rightarrow> catalogue_revision option \<Rightarrow> growth_error + catalogue_revision" where
  "propose_catalogue wd revision_digest d r synthesis c parent =
     (let events = ec_cost_events (do_epistemic d); number = length events + 1;
          previous = reserved_expansions events; work = previous + li_max_expansions (domain_limits d) in
      then_do (check (ws_request synthesis = wd_request wd r \<and>
          plain_candidate c \<in> plain_candidate ` set (ws_candidates synthesis)) ''catalogue_candidate_missing'')
     (res_bind (check_composition wd d r c) (\<lambda>checked.
      then_do (check (plain_certificate checked \<in> plain_certificate ` set (ws_certificates synthesis))
        ''catalogue_certificate_tampered'')
     (res_bind (formation_domain wd d r) (\<lambda>proposed.
      then_do (check (plain_contract (do_epistemic proposed) = plain_contract (ws_contract synthesis))
        ''catalogue_proposal_tampered'')
     (then_do (check (number \<le> 4) ''catalogue_revision_quota'')
     (then_do (case parent of
         Some v \<Rightarrow> then_do (check (parent_matches d r number v) ''catalogue_parent_mismatch'')
                     (check (ct_expansions v = previous) ''catalogue_parent_mismatch'')
       | None \<Rightarrow> check (number = 1) ''catalogue_parent_missing'')
     (then_do (check (work \<le> 1000000) ''catalogue_synthesis_quota'')
       (make_revision \<lparr>ct_envelope = with_metadata (wr_envelope r), ct_parent = map_option revision_digest parent,
         ct_parent_contract = ed_contract (do_digests d) (do_epistemic d), ct_contract = do_epistemic proposed,
         ct_history = wr_history r, ct_request = wd_request wd r, ct_candidate = wd_candidate wd c,
         ct_certificate = wd_certificate wd checked, ct_number = number, ct_expansions = work,
         ct_step_limit = gc_max_decisions (do_contract d)\<rparr>)))))))))"

record catalogue_replan =
  cr_revision :: digest
  cr_selected :: "digest option"
  cr_steps :: "nat option"
  cr_plan :: epistemic_plan
  cr_check :: "plan_check option"
  cr_entry :: ident

definition replan_with :: "workflow_digests \<Rightarrow> (catalogue_revision \<Rightarrow> digest) \<Rightarrow> epistemic_domain \<Rightarrow> workflow_candidate \<Rightarrow>
   workflow_certificate \<Rightarrow> catalogue_revision \<Rightarrow> growth_error + catalogue_replan" where
  "replan_with wd revision_digest proposed c fresh v =
     res_bind (plan_epistemic proposed (ct_history v)) (\<lambda>planned.
     res_bind (case el_policy planned of
         Some _ \<Rightarrow> Inr planned
       | None \<Rightarrow> then_do (check (\<not> rp_complete (el_search planned)) ''catalogue_search_contradiction'')
           (Inr (planned\<lparr>el_code := ''epistemic_incumbent'', el_policy := Some (wn_ir c),
              el_policy_digest := Some (ed_node (do_digests proposed) (wn_ir c)), el_objective := Some (wc_objective fresh)\<rparr>)))
      (\<lambda>plan.
     let selected = (if map_option plain_node (el_policy plan) = Some (plain_node (wn_ir c))
                     then Some (wd_candidate wd c) else None) in
     res_bind (case el_policy plan of None \<Rightarrow> Inr None
       | Some _ \<Rightarrow> res_bind (check_epistemic_plan proposed plan) (\<lambda>k. Inr (Some k))) (\<lambda>checked.
     Inr \<lparr>cr_revision = revision_digest v, cr_selected = selected,
          cr_steps = (if selected \<noteq> None then Some (wn_steps c) else None), cr_plan = plan, cr_check = checked,
          cr_entry = wn_id c\<rparr>)))"

definition replan_catalogue :: "workflow_digests \<Rightarrow> (catalogue_revision \<Rightarrow> digest) \<Rightarrow> epistemic_domain \<Rightarrow> workflow_request \<Rightarrow>
   workflow_candidate \<Rightarrow> workflow_certificate \<Rightarrow> catalogue_revision \<Rightarrow> bool \<Rightarrow> growth_error + catalogue_replan" where
  "replan_catalogue wd revision_digest d r c certificate v opt_in =
     then_do (check opt_in ''catalogue_model_only_opt_in_required'')
     (then_do (check (ct_parent_contract v = ed_contract (do_digests d) (do_epistemic d) \<and> ct_request v = wd_request wd r \<and>
          ct_candidate v = wd_candidate wd c \<and> ct_certificate v = wd_certificate wd certificate \<and>
          ct_history v = wr_history r \<and> ct_step_limit v = gc_max_decisions (do_contract d) \<and>
          ct_number v = length (ec_cost_events (do_epistemic d)) + 1) ''catalogue_revision_binding'')
     (res_bind (check_composition wd d r c) (\<lambda>fresh.
      then_do (check (plain_certificate fresh = plain_certificate certificate) ''catalogue_certificate_tampered'')
     (res_bind (formation_domain wd d r) (\<lambda>proposed.
      then_do (check (plain_contract (do_epistemic proposed) = plain_contract (ct_contract v)) ''catalogue_proposal_tampered'')
     (then_do (check (ct_expansions v = reserved_expansions (ec_cost_events (do_epistemic proposed)))
        ''catalogue_synthesis_quota'')
       (replan_with wd revision_digest proposed c fresh v)))))))"

end
