(* ===== verification/Workflow_Facts.thy ===== *)
theory Workflow_Facts
  imports Workflow_Catalogue Epistemic_Checking
begin

text \<open>
  What an unfolded composition is: a tree whose primitives fit each other by their schemas, and a policy that
  succeeds in every world of the start, ending where the targets of the request are met.
\<close>

section \<open>Well-typed trees\<close>

text \<open>
  A tree of primitives from one schema to another: each primitive accepts the schema at its node, and hands
  the one it declares to every branch.
\<close>

inductive typed :: "library \<Rightarrow> digest \<Rightarrow> epistemic_node \<Rightarrow> digest \<Rightarrow> bool" for known out where
  stop: "en_action node = None \<Longrightarrow> en_branches node = [] \<Longrightarrow> typed known out node out"
| act: "\<lbrakk>en_action node = Some a; dict_get known a = Some b;
    \<And>symbol child. dict_get (en_branches node) symbol = Some child \<Longrightarrow> typed known out child (pb_output b)\<rbrakk> \<Longrightarrow>
    typed known out node (pb_input b)"

primrec tree_actions :: "epistemic_node \<Rightarrow> ident set" where
  "tree_actions (EpistemicNode d a e bs) = set_option a \<union> \<Union> (set (map snd (map (map_prod id tree_actions) bs)))"

text \<open>The primitives on the longest path of a tree.\<close>

definition greatest :: "nat list \<Rightarrow> nat" where
  "greatest ns = foldr max ns 0"

definition longer :: "nat \<Rightarrow> nat \<Rightarrow> nat" where
  "longer depth n = (if n = 0 then 0 else depth + n)"

primrec tree_steps :: "epistemic_node \<Rightarrow> nat" where
  "tree_steps (EpistemicNode d a e bs) =
     max (if a = None then 0 else 1) (longer 1 (greatest (map snd (map (map_prod id tree_steps) bs))))"

lemma tree_facts:
  "tree_actions node = set_option (en_action node) \<union> (\<Union>child \<in> set (dict_values (en_branches node)). tree_actions child)"
  "tree_steps node = max (if en_action node = None then 0 else 1) (longer 1 (greatest (map tree_steps (dict_values (en_branches node)))))"
  by (cases node; auto simp: dict_values_def comp_def)+

lemma greatest_simps [simp]: "greatest [] = 0" "greatest (n # ns) = max n (greatest ns)"
  by (simp_all add: greatest_def)

lemma greatest_append [simp]: "greatest (xs @ ys) = max (greatest xs) (greatest ys)"
  by (induction xs) simp_all

lemma greatest_rev [simp]: "greatest (rev xs) = greatest xs"
  by (induction xs) (simp_all add: max.commute)

lemma longer_greatest: "greatest (map (\<lambda>x. longer depth (f x)) xs) = longer depth (greatest (map f xs))"
  by (induction xs) (auto simp: longer_def max_def)

lemma longer_node:
  "longer depth (tree_steps node) =
     max (if en_action node = None then 0 else depth + 1)
       (greatest (map (\<lambda>child. longer (depth + 1) (tree_steps child)) (dict_values (en_branches node))))"
  unfolding longer_greatest by (subst tree_facts(2)) (auto simp: longer_def max_def)

lemma members_loop_exact:
  "members_loop stack seen found longest = Inr (ids, steps) \<Longrightarrow>
     set ids = set found \<union> (\<Union>(node, depth) \<in> set stack. tree_actions node) \<and>
     steps = max longest (greatest (map (\<lambda>(node, depth). longer depth (tree_steps node)) stack))"
proof (induction stack seen found longest arbitrary: ids steps rule: members_loop.induct)
  case (2 node depth stack seen found longest)
  obtain found' longest' where top: "(found', longest') = (case en_action node of None \<Rightarrow> (found, longest)
      | Some a \<Rightarrow> (List.insert a found, max longest (depth + 1)))"
    by (cases "en_action node") auto
  let ?below = "map (\<lambda>child. (child, depth + 1)) (rev (dict_values (en_branches node)))"
  have ok: "depth \<le> 16 \<and> seen + 1 \<le> 4096" "members_loop (?below @ stack) (seen + 1) found' longest' = Inr (ids, steps)"
    using "2.prems" by (auto simp flip: top split: if_splits)
  have "set ids = set found' \<union> (\<Union>(node, depth) \<in> set (?below @ stack). tree_actions node)"
    and "steps = max longest' (greatest (map (\<lambda>(node, depth). longer depth (tree_steps node)) (?below @ stack)))"
    using "2.IH" [OF _ top refl ok(2)] ok(1) by blast+
  moreover have "set found' = set found \<union> set_option (en_action node)"
    and "longest' = max longest (if en_action node = None then 0 else depth + 1)"
    using top by (auto split: option.splits)
  moreover have "greatest (map (\<lambda>(node, depth). longer depth (tree_steps node)) ?below) =
      greatest (map (\<lambda>child. longer (depth + 1) (tree_steps child)) (dict_values (en_branches node)))"
    by (simp add: comp_def rev_map [symmetric])
  ultimately show ?case by (auto simp: tree_facts(1) [of node] longer_node [of depth node] max.assoc)
qed simp

lemma ir_members_exact: "ir_members node = Inr (ids, steps) \<Longrightarrow> set ids = tree_actions node \<and> steps = tree_steps node"
  unfolding ir_members_def by (drule members_loop_exact) (simp add: longer_def)

section \<open>Unfolding\<close>

definition fulfils :: "workflow_request \<Rightarrow> gstate \<Rightarrow> bool" where
  "fulfils r s \<longleftrightarrow> (\<forall>(k, v) \<in> set (wr_targets r). \<exists>i. dict_get (gs_capacities s) k = Some i \<and> v \<le> iv_lower i) \<and>
     (\<forall>(k, v) \<in> set (wr_spent r). dict_get_default (gs_spent s) k 0 \<le> v)"

lemma targets_met_fulfils: "targets_met r s = Inr True \<Longrightarrow> fulfils r s"
  by (fastforce simp: targets_met_def fulfils_def item_def split: option.splits)

lemma unfold_node_yields:
  assumes "set support \<subseteq> worlds d" "inj_on (ed_hypothesis (do_digests d)) (worlds d)"
  shows "yields (unfold_node d r node support depth comparisons) (\<lambda>S. set S = entered node ` set support \<and> set S \<subseteq> worlds d)"
  unfolding unfold_node_def
  by (intro yields_modify yields_skip [where m = "get_run _"] yields_demand entry_yields [OF assms])

definition finished :: "epistemic_domain \<Rightarrow> workflow_request \<Rightarrow> hypothesis \<Rightarrow> bool" where
  "finished d r h \<longleftrightarrow> ended d h \<and> fulfils r (hy_state h)"

lemma unfold_leaf_yields:
  assumes "en_action node = None" "set S = entered node ` set support"
  shows "yields (unfold_leaf d r node S record_type) (\<lambda>groups. \<forall>h \<in> set support. succeeds d (reached (finished d r) groups) node h)"
  unfolding unfold_leaf_def
  by (intro yields_call yields_demand yields_returns leaf_yields [OF assms(1) _ assms(2)])
    (auto simp: finished_def ended_def split: if_splits dest: support_terminal_all targets_met_fulfils)

lemma unfold_yields:
  assumes inj: "inj_on (ed_hypothesis (do_digests d)) (worlds d)" and sub: "set support \<subseteq> worlds d"
  shows "yields (unfold d r known comparisons node support record_type depth)
    (\<lambda>groups. \<forall>h \<in> set support. succeeds d (reached (finished d r) groups) node h)"
  using sub
proof (induction "size node" arbitrary: node support record_type depth rule: less_induct)
  case less
  let ?goal = "\<lambda>groups. \<forall>h \<in> set support. succeeds d (reached (finished d r) groups) node h"
  show ?case
  proof (cases "en_action node")
    case None
    show ?thesis unfolding unfold.simps [of d r known comparisons node] None option.case
      by (intro yields_bind [OF unfold_node_yields [OF less.prems inj]] unfold_leaf_yields [OF None]) blast
  next
    case (Some a)
    have step: "yields (fold_run (\<lambda>(symbol, after) leaves. case dict_get (en_branches node) symbol of
          None \<Rightarrow> lift (Inl KeyError)
        | Some child \<Rightarrow> bind_run (unfold d r known comparisons child after (pb_output b) (depth + 1))
            (\<lambda>more. returns (leaves @ more))) bs []) ?goal"
      if "set S = entered node ` set support" "set S \<subseteq> worlds d" "branches_exact d S a bs" for S bs b
      by (rule act_yields [OF Some that]) (rule less.hyps [OF epistemic_child_size])
    show ?thesis unfolding unfold.simps [of d r known comparisons node] Some option.case
      by (intro yields_bind [OF unfold_node_yields [OF less.prems inj]] yields_call yields_demand yields_bind [OF advance_yields [OF _ inj]])
        (use step in blast)+
  qed
qed

lemma fold_run_each:
  assumes "\<And>x acc. x \<in> set xs \<Longrightarrow> yields (f x acc) (\<lambda>_. P x)"
  shows "yields (fold_run f xs acc) (\<lambda>_. \<forall>x \<in> set xs. P x)"
  using assms
proof (induction xs arbitrary: acc)
  case Nil
  show ?case by (simp add: yields_returns)
next
  case (Cons x xs)
  have "yields (fold_run f xs acc') (\<lambda>_. \<forall>x \<in> set (x # xs). P x)" if "P x" for acc'
    using Cons.IH [of acc'] Cons.prems that by (auto intro: yields_weaken)
  then show ?case by (auto intro: yields_bind [OF Cons.prems])
qed

lemma unfold_typed:
  "yields (unfold d r known comparisons node support record_type depth) (\<lambda>_. typed known (wr_output_schema r) node record_type)"
proof (induction "size node" arbitrary: node support record_type depth rule: less_induct)
  case less
  show ?case
  proof (cases "en_action node")
    case None
    have "yields (unfold_leaf d r node S record_type) (\<lambda>_. typed known (wr_output_schema r) node record_type)" for S
      unfolding unfold_leaf_def
      by (intro yields_call yields_demand yields_returns) (auto split: if_splits intro: typed.stop [OF None])
    then show ?thesis unfolding unfold.simps [of d r known comparisons node] None option.case
      by (intro yields_skip)
  next
    case (Some a)
    have loop: "yields (fold_run (\<lambda>(symbol, after) leaves. case dict_get (en_branches node) symbol of
          None \<Rightarrow> lift (Inl KeyError)
        | Some child \<Rightarrow> bind_run (unfold d r known comparisons child after (pb_output b) (depth + 1))
            (\<lambda>more. returns (leaves @ more))) outcomes []) (\<lambda>_. typed known (wr_output_schema r) node record_type)"
      if b: "typed_binding known a record_type = Inr b"
        and ks: "set (dict_keys outcomes) = set (dict_keys (en_branches node))" for b outcomes
    proof (rule yields_weaken [OF fold_run_each [where P = "\<lambda>(symbol, after). \<forall>child.
          dict_get (en_branches node) symbol = Some child \<longrightarrow> typed known (wr_output_schema r) child (pb_output b)"]])
      fix x :: "ident \<times> hypothesis list" and acc
      obtain symbol after where x: "x = (symbol, after)" by (cases x)
      show "yields ((\<lambda>(symbol, after) leaves. case dict_get (en_branches node) symbol of
          None \<Rightarrow> lift (Inl KeyError)
        | Some child \<Rightarrow> bind_run (unfold d r known comparisons child after (pb_output b) (depth + 1))
            (\<lambda>more. returns (leaves @ more))) x acc) (\<lambda>_. case x of (symbol, after) \<Rightarrow> \<forall>child.
          dict_get (en_branches node) symbol = Some child \<longrightarrow> typed known (wr_output_schema r) child (pb_output b))"
      proof (cases "dict_get (en_branches node) symbol")
        case None
        then show ?thesis by (simp add: x yields_lift)
      next
        case (Some child)
        have "yields (unfold d r known comparisons child after (pb_output b) (depth + 1))
            (\<lambda>_. typed known (wr_output_schema r) child (pb_output b))"
          by (rule less.hyps [OF epistemic_child_size [OF Some]])
        then show ?thesis by (auto simp: x Some intro: yields_bind yields_returns)
      qed
    next
      assume each: "\<forall>x \<in> set outcomes. case x of (symbol, after) \<Rightarrow> \<forall>child.
          dict_get (en_branches node) symbol = Some child \<longrightarrow> typed known (wr_output_schema r) child (pb_output b)"
      have b': "dict_get known a = Some b" "record_type = pb_input b"
        using b by (auto simp: typed_binding_def split: option.splits)
      have "typed known (wr_output_schema r) child (pb_output b)" if "dict_get (en_branches node) symbol = Some child" for symbol child
      proof -
        have "symbol \<in> set (dict_keys outcomes)"
          using that dict_get_SomeD [OF that] unfolding ks by (force simp: dict_keys_def)
        then show ?thesis using each that by (auto simp: dict_keys_def)
      qed
      then show "typed known (wr_output_schema r) node record_type" unfolding b'(2) by (rule typed.act [OF Some b'(1)])
    qed
    show ?thesis unfolding unfold.simps [of d r known comparisons node] Some option.case
      by (intro yields_skip [where m = "unfold_node _ _ _ _ _ _"] yields_call yields_demand yields_skip [where m = "advance _ _ _ _"] loop)
  qed
qed

section \<open>Accepted compositions\<close>

lemma unfolded_yields:
  assumes "inj_on (ed_hypothesis (do_digests d)) (worlds d)"
  shows "yields (unfolded d r known ir) (\<lambda>(_, leaves).
    \<forall>h. possible d (wr_history r) h \<longrightarrow> succeeds d (reached (finished d r) leaves) ir h)"
  unfolding unfolded_def Let_def replay_def
  by (rule yields_skip, rule yields_skip, rule yields_bind [OF replay_with_yields [OF assms]],
      rule yields_bind [OF unfold_yields [OF assms]])
    (auto simp: knows_def intro!: yields_returns)

lemma unfolded_typed: "yields (unfolded d r known ir) (\<lambda>_. typed known (wr_output_schema r) ir (wr_input_schema r))"
  unfolding unfolded_def Let_def
  by (intro yields_skip [where m = "reference_comparisons _ _"] yields_skip [where m = "replay _ _ _"]
      yields_skip [where m = "if _ then _ else _"] yields_bind [OF unfold_typed] yields_returns)

text \<open>An accepted composition, with what the checker computed on the way.\<close>

lemma check_composition_Inr:
  assumes "check_composition wd given r c = Inr certificate"
  obtains d known ids start leaves st where "formation_domain wd given r = Inr d" "primitive_library d r = Inr known"
    "candidate_bound wd d r c = Inr (known, wc_steps certificate)" "ir_members (wn_ir c) = Inr (ids, wc_steps certificate)"
    "set ids \<subseteq> set (dict_keys known)" "ids \<noteq> []"
    "unfolded d r known (wn_ir c) fresh_reference = (Inr (start, leaves), st)"
    "leaves_objective d start (concat leaves) = Inr (wc_objective certificate)"
proof -
  obtain d known steps start leaves obj where *: "formation_domain wd given r = Inr d"
      "candidate_bound wd d r c = Inr (known, steps)"
      "fst (unfolded d r known (wn_ir c) fresh_reference) = Inr (start, leaves)"
      "leaves_objective d start (concat leaves) = Inr obj"
      "make_certificate wd r c (domain_digest d) start (sort (map (ed_support (do_digests d)) leaves)) obj steps = Inr certificate"
    using assms by (auto simp: check_composition_def)
  obtain ids where ids: "ir_members (wn_ir c) = Inr (ids, steps)" "primitive_library d r = Inr known"
      "set ids \<subseteq> set (dict_keys known)" "ids \<noteq> []"
    using *(2) by (auto simp: candidate_bound_def constituent_digests_def)
  have "certificate = \<lparr>wc_envelope = with_metadata (wr_envelope r), wc_request = wd_request wd r,
      wc_candidate = wd_candidate wd c, wc_input = domain_digest d, wc_initial = start,
      wc_terminals = sort (map (ed_support (do_digests d)) leaves), wc_objective = obj, wc_steps = steps\<rparr>"
    using *(5) by (simp add: make_certificate_def)
  then show thesis using * ids by (intro that) (auto simp: prod_eq_iff)
qed

lemma library_step_Inr:
  assumes "library_step d b known = Inr known'"
  shows "\<exists>a recipe. dict_get (do_recipes d) a = Some recipe \<and> re_action_digest recipe = pb_action b \<and>
    dict_get known a = None \<and> known' = dict_set known a b"
  using assms
  by (auto simp: library_step_def dict_get_None split: option.splits document.splits if_splits)

lemma primitive_library_declared:
  assumes "primitive_library d r = Inr known" and "dict_get known a = Some b"
  shows "b \<in> set (wr_library r) \<and> (\<exists>recipe. dict_get (do_recipes d) a = Some recipe \<and> re_action_digest recipe = pb_action b)"
proof -
  have "\<forall>a b. dict_get known a = Some b \<longrightarrow> b \<in> set (wr_library r) \<and>
      (\<exists>recipe. dict_get (do_recipes d) a = Some recipe \<and> re_action_digest recipe = pb_action b)"
    by (rule fold_res_invariant [OF assms(1) [unfolded primitive_library_def]])
      (fastforce dest: library_step_Inr split: if_splits)+
  then show ?thesis using assms(2) by blast
qed

end
