(* ===== verification/Workflow_Demo.thy ===== *)
theory Workflow_Demo
  imports Epistemic_Demo Workflow_Facts
begin

text \<open>
  A composition of the demo game for the witnesses: a request over its one primitive, the candidate that takes
  it once, and what the checker makes of them.
\<close>

section \<open>The documents\<close>

definition flow_binding :: primitive_binding where
  "flow_binding = \<lparr>pb_action = ''a'', pb_capability = ''c'', pb_input = ''in'', pb_output = ''out'', pb_policy = ''pol''\<rparr>"

definition flow_request :: workflow_request where
  "flow_request = \<lparr>wr_envelope = game_envelope, wr_input = ''do'', wr_history = [], wr_library = [flow_binding],
     wr_input_schema = ''in'', wr_output_schema = ''out'', wr_targets = [(''task'', 4)], wr_spent = [(''money'', 5)],
     wr_formation = [(''construction'', []), (''search'', []), (''checking'', []), (''transport'', [])], wr_formation_duration = 0,
     wr_per_use = [(''maintenance'', []), (''application'', [])], wr_per_use_duration = 0, wr_max_steps = 2, wr_max_candidates = 4\<rparr>"

definition flow_digests :: workflow_digests where
  "flow_digests = \<lparr>wd_request = (\<lambda>_. ''sha256:r''), wd_candidate = (\<lambda>_. ''sha256:c''), wd_certificate = (\<lambda>_. ''sha256:k'')\<rparr>"

definition flow_candidate :: workflow_candidate where
  "flow_candidate = \<lparr>wn_envelope = game_envelope, wn_request = ''sha256:r'', wn_domain = ''do'', wn_id = ''workflow-no'', wn_ir = game_node,
     wn_constituents = [''a'', ''c'', ''in'', ''out'', ''pol''], wn_steps = 1, wn_expires = 90\<rparr>"

definition flow_certificate :: workflow_certificate where
  "flow_certificate = \<lparr>wc_envelope = game_envelope, wc_request = ''sha256:r'', wc_candidate = ''sha256:c'', wc_input = ''do'',
     wc_initial = ''0n'', wc_terminals = [''1a''], wc_objective = game_objective, wc_steps = 1\<rparr>"

lemma flow_fields [simp]:
  "wr_history flow_request = []" "wr_input_schema flow_request = ''in''" "wr_output_schema flow_request = ''out''"
  "wr_max_steps flow_request = 2" "wr_max_candidates flow_request = 4" "wn_ir flow_candidate = game_node" "wr_envelope flow_request = game_envelope"
  "wd_request flow_digests r = ''sha256:r''" "wd_candidate flow_digests c = ''sha256:c''" "wr_input flow_request = ''do''"
  "wr_library flow_request = [flow_binding]"
  by (simp_all add: flow_request_def flow_digests_def flow_candidate_def)

section \<open>Its domain\<close>

lemma flow_event: "formation_event flow_digests (game False) flow_request = Inr game_fee"
proof -
  have parts: "dict_update (wr_formation flow_request) (wr_per_use flow_request) = map (\<lambda>k. (k, [])) COST_CATEGORIES"
    "workflow_name ''sha256:r'' = ''workflow-r''" "is_identifier ''workflow-r''" "fits 0" "length COST_CATEGORIES = 6"
    by code_simp+
  have durations: "wr_formation_duration flow_request = 0" "wr_per_use_duration flow_request = 0" "COST_CATEGORIES \<noteq> []"
    by (simp_all add: flow_request_def COST_CATEGORIES_def)
  show ?thesis
    by (simp add: formation_event_def make_cost_event_def domain_limits_def parts durations) (simp add: game_fee_def)
qed

lemma flow_domain: "formation_domain flow_digests (game False) flow_request = Inr (game True)"
proof -
  have ok: "set (dict_keys (wr_formation flow_request)) = {''construction'', ''search'', ''checking'', ''transport''}"
    "set (dict_keys (wr_per_use flow_request)) = {''maintenance'', ''application''}"
    by code_simp+
  have keys: "dict_keys (gc_domains game_contract) = [''task'', ''research'', ''verification'']" "dict_keys (gc_resource_units game_contract) = [''money'']"
    by code_simp+
  have req: "request_ok (game False) flow_request"
    by (simp add: request_ok_def keys) (simp add: flow_request_def dict_keys_def dict_values_def)
  have fee: "game_epistemic False\<lparr>ec_cost_events := [game_fee]\<rparr> = game_epistemic True" "ce_reserved game_fee = 100"
    by (simp_all add: game_epistemic_def game_fee_def)
  show ?thesis
    by (simp add: formation_domain_def Let_def check_def ok req flow_event reserved_expansions_def fee game_make)
qed

section \<open>Its check\<close>

lemma flow_docs:
  "dict_get demo_objects ''a'' = Some (ActionDoc demo_action)" "dict_get demo_objects ''c'' = Some (CapabilityDoc demo_capability)"
  "dict_get demo_objects ''pol'' = Some (PolicyDoc [''img''])" "dict_get [(''act'', recipe)] ''act'' = Some recipe"
  "ac_id demo_action = ''act''" "ac_capability demo_action = ''c''" "ac_required demo_action = [''a'']"
  "cap_policy_digest demo_capability = ''pol''" "cap_output_schema_digest demo_capability = ''out''"
  by (simp_all add: demo_objects_def dict_get_def demo_action_def demo_capability_def)

lemma flow_library: "primitive_library (game True) flow_request = Inr [(''act'', flow_binding)]"
proof -
  have fields: "pb_action flow_binding = ''a''" "pb_capability flow_binding = ''c''" "pb_output flow_binding = ''out''"
    "pb_policy flow_binding = ''pol''"
    by (simp_all add: flow_binding_def)
  show ?thesis by (simp add: primitive_library_def library_step_def fields flow_docs check_def dict_keys_def dict_set_def)
qed

lemma flow_members: "ir_members game_node = Inr ([''act''], 1)"
  by code_simp

lemma flow_constituents: "constituent_digests [(''act'', flow_binding)] [''act''] = Inr [''a'', ''c'', ''in'', ''out'', ''pol'']"
  by code_simp

lemma flow_expiry: "expiry (game True) [''act''] = Inr 90"
proof -
  have parts: "time_scale game_contract demo_objects = Inr 1" "re_expires game_recipe = 90" "gc_deadline game_contract = 100"
    "action_at demo_objects ''a'' = Inr demo_action" "capability_at demo_objects ''c'' = Inr demo_capability"
    by code_simp+
  show ?thesis
    by (simp add: expiry_def Let_def parts item_def lives_of_def flow_docs) (simp add: min_of_def)
qed

lemma flow_bound: "candidate_bound flow_digests (game True) flow_request flow_candidate = Inr ([(''act'', flow_binding)], 1)"
proof -
  have name: "workflow_name ''no'' = ''workflow-no''" "ed_node game_digests game_node = ''no''"
    by (simp_all add: workflow_name_def remove_prefix_def game_digests_def)
  show ?thesis
    by (simp add: candidate_bound_def check_def flow_library flow_members flow_constituents flow_expiry name)
      (simp add: flow_candidate_def)
qed

lemma flow_targets: "targets_met flow_request game_after = Inr True"
proof -
  obtain i rest where caps: "gs_capacities game_after = (''task'', i) # rest" "iv_lower i = 4"
    using game_after_facts(10) by (auto simp: map_eq_Cons_conv)
  show ?thesis
    by (simp add: targets_met_def flow_request_def caps item_def dict_get_def game_after_facts(9) dict_get_default_def)
qed

lemma flow_unfold: "\<exists>st'. unfold (game True) flow_request [(''act'', flow_binding)] [] game_node [game_begin None] ''in'' 0
    (fresh_reference\<lparr>cs_peak := 1\<rparr>) = (Inr [[game_ended (Some game_mark)]], st')"
  by (simp add: unfold.simps unfold_node_def unfold_leaf_def game_node_def bind_run_def lift_def demand_def check_def returns_def
      get_run_def modify_def domain_limits_def game_mark_entry dict_keys_def dict_get_def game_advance game_goal game_no_goal
      typed_binding_def flow_binding_def flow_targets fresh_reference_def fresh_counters_def counters.defs)

lemma flow_unfolded: "fst (unfolded (game True) flow_request [(''act'', flow_binding)] game_node fresh_reference) =
    Inr (''0n'', [[game_ended (Some game_mark)]])"
proof -
  obtain st where st: "unfold (game True) flow_request [(''act'', flow_binding)] [] game_node [game_begin None] ''in'' 0
      (fresh_reference\<lparr>cs_peak := 1\<rparr>) = (Inr [[game_ended (Some game_mark)]], st)"
    using flow_unfold by blast
  show ?thesis
    by (simp add: unfolded_def bind_run_def returns_def game_reference game_start st [simplified])
qed

lemma flow_check: "check_composition flow_digests (game False) flow_request flow_candidate = Inr flow_certificate"
  by (simp add: check_composition_def flow_domain flow_bound flow_unfolded game_leaf_objective make_certificate_def)
    (simp add: flow_certificate_def with_metadata_def game_envelope_def)

section \<open>Its synthesis\<close>

lemma flow_candidate_of: "candidate_of flow_digests (game True) flow_request [(''act'', flow_binding)] game_policy = Inr (Some flow_candidate)"
proof -
  have name: "workflow_name ''no'' = ''workflow-no''" "ed_node game_digests game_node = ''no''" "po_node game_policy = game_node"
    by (simp_all add: workflow_name_def remove_prefix_def game_digests_def game_policy_def)
  have parts: "is_identifier ''workflow-no''" "fits 90" by code_simp+
  show ?thesis
    by (simp add: candidate_of_def name flow_members flow_constituents flow_expiry make_candidate_def parts dict_keys_def)
      (simp add: flow_candidate_def with_metadata_def game_envelope_def)
qed

lemma flow_rank: "\<exists>ranked. rank game_contract game_objective = Inr ranked"
  by (simp add: rank_def game_orders game_objective_def item_def dict_get_def)

lemma flow_synthesis:
  "\<exists>s. synthesize flow_digests (game False) flow_request = Inr s \<and> ws_request s = ''sha256:r'' \<and> ws_contract s = game_epistemic True \<and>
     ws_candidates s = [flow_candidate] \<and> ws_certificates s = [flow_certificate] \<and> ws_code s = ''composition_candidates_checked'' \<and>
     ws_preferred s = Some True"
proof -
  obtain plan where plan: "plan_epistemic (game False) [] = Inr plan" "el_objective plan = Some game_objective" "rp_complete (el_search plan)"
    using game_plan_found by blast
  obtain st where st: "enumerate_supports (game_search True) [game_begin None] 0 (fresh_policies\<lparr>cs_peak := Suc 0\<rparr>) = (Inr [game_policy], st)"
    "cs_complete st"
    using game_enumeration by blast
  obtain k where k: "policy_key (game True) game_policy = Inr k" using game_key by blast
  have sorted: "sorted_policies (game True) [game_policy] = Inr [game_policy]" by (simp add: sorted_policies_def k)
  obtain ranked where ranked: "rank game_contract game_objective = Inr ranked" using flow_rank by blast
  have fresh: "fresh_policies\<lparr>cs_complete := True\<rparr> = fresh_policies" "wc_objective flow_certificate = game_objective"
    by (simp_all add: fresh_policies_def fresh_counters_def counters.defs flow_certificate_def)
  show ?thesis
    by (simp add: synthesize_def Let_def flow_domain flow_library game_no_comparators fresh synthesis_search_def catching_def on_search_def
        game_choices st sorted synthesis_step_def bind_run_def lift_def returns_def flow_candidate_of flow_check
        get_run_def modify_def plan preferred_def ranked counters_report_def)
qed

end
