(* ===== verification/Epistemic_Properties.thy ===== *)
theory Epistemic_Properties
  imports Epistemic_Demo Growth_Properties
begin

text \<open>
  What the epistemic planner promises: a replayed history leaves exactly the worlds it is compatible with,
  every hypothesis in them is a valid state of the game under one fixed model, and a checked policy reaches
  its objective in all of them.
\<close>

section \<open>Valid worlds\<close>

text \<open>A hypothesis after some steps: a valid, normalized ledger with the one model of the hypothesis.\<close>

definition world_ok :: "epistemic_domain \<Rightarrow> nat \<Rightarrow> hypothesis \<Rightarrow> bool" where
  "world_ok d n h \<longleftrightarrow> kept (do_contract d) (hy_state h) \<and> normal (hy_state h) \<and> gs_models (hy_state h) = [hy_model h] \<and>
     hy_model h \<in> set (gs_models (gc_initial_state (do_contract d))) \<and> hy_steps h = n"



lemma kept_initial [simp]: "kept (c\<lparr>gc_initial_state := s, gc_planning_charge := x, gc_planning_duration := y,
    gc_planning_boundary := z\<rparr>) t = kept c t"
  by (simp add: kept_def queue_kept_def)





lemma marked_ok [simp]: "world_ok d n (marked h) = world_ok d n h"
  by (simp add: world_ok_def marked_def)



section \<open>The walk of the checker\<close>





section \<open>Properties\<close>







end
