(* ===== verification/Workflow_Properties.thy ===== *)
theory Workflow_Properties
  imports Workflow_Demo Epistemic_Properties
begin

text \<open>
  The properties of compositions and of the catalogue: an accepted composition is typed and succeeds in every
  world, a synthesis only lists what the checker certifies, a proposal can be replanned, and what a replan
  returns succeeds in every world.
\<close>

section \<open>Synthesis\<close>

definition all_certified :: "workflow_digests \<Rightarrow> epistemic_domain \<Rightarrow> workflow_request \<Rightarrow> synthesis \<Rightarrow> bool" where
  "all_certified wd given r st \<longleftrightarrow> length (sy_candidates st) \<le> wr_max_candidates r \<and>
     list_all2 (\<lambda>c k. check_composition wd given r c = Inr k) (sy_candidates st) (sy_certificates st)"

named_theorems keeps_rules \<open>computations that keep the lists of a synthesis certified\<close>

definition keeps :: "('s \<Rightarrow> bool) \<Rightarrow> ('s, 'a) stateful \<Rightarrow> bool" where
  "keeps P m \<longleftrightarrow> (\<forall>st. P st \<longrightarrow> P (snd (m st)))"

lemma keeps_bind [keeps_rules]:
  assumes "keeps P m" "\<And>x. keeps P (f x)"
  shows "keeps P (bind_run m f)"
  unfolding keeps_def
proof (intro allI impI)
  fix st
  assume "P st"
  moreover obtain out st' where m: "m st = (out, st')" by fastforce
  ultimately have "P st'" using assms(1) unfolding keeps_def by (metis snd_conv)
  then show "P (snd (bind_run m f st))" using m assms(2) by (cases out) (auto simp: bind_run_def keeps_def)
qed

lemma keeps_plain [keeps_rules]: "keeps P (returns x)" "keeps P (lift m)" "keeps P (get_run g)"
  by (simp_all add: keeps_def returns_def lift_def get_run_def)

lemma keeps_catching [keeps_rules]:
  assumes "keeps P m"
  shows "keeps P (catching m)"
proof -
  have "snd (catching m st) = snd (m st)" for st
    by (cases "m st") (auto simp: catching_def split: sum.splits growth_error.splits)
  then show ?thesis using assms by (simp add: keeps_def)
qed

lemma keeps_on_search [keeps_rules]: "keeps (all_certified wd given r) (on_search m)"
  by (auto simp: keeps_def on_search_def all_certified_def split: prod.splits)

lemma keeps_incomplete [keeps_rules]: "keeps (all_certified wd given r) incomplete_search"
  unfolding incomplete_search_def by (rule keeps_on_search)

lemma synthesis_step_keeps [keeps_rules]: "keeps (all_certified wd given r) (synthesis_step wd given d r known p)"
proof -
  have add: "all_certified wd given r (snd (bind_run (get_run (\<lambda>st. length (sy_candidates st) = wr_max_candidates r)) (\<lambda>full.
      if full then bind_run incomplete_search (\<lambda>_. returns (Return ()))
      else bind_run (modify (\<lambda>st. st\<lparr>sy_candidates := sy_candidates st @ [c], sy_certificates := sy_certificates st @ [k]\<rparr>))
        (\<lambda>_. returns (Onward ()))) st))"
    if "check_composition wd given r c = Inr k" "all_certified wd given r st" for c k st
    using that
    by (auto simp: bind_run_def get_run_def modify_def returns_def incomplete_search_def on_search_def all_certified_def
        intro: list_all2_appendI)
  show ?thesis unfolding synthesis_step_def
  proof (intro keeps_rules)
    fix made
    show "keeps (all_certified wd given r) (case made of None \<Rightarrow> returns (Onward ()) | Some c \<Rightarrow>
         bind_run (catching (lift (check_composition wd given r c))) (\<lambda>out.
         case out of
           Inl code \<Rightarrow> if sublist ''budget'' code then bind_run incomplete_search (\<lambda>_. returns (Return ()))
                       else returns (Onward ())
         | Inr certificate \<Rightarrow>
             bind_run (get_run (\<lambda>st. length (sy_candidates st) = wr_max_candidates r)) (\<lambda>full.
             if full then bind_run incomplete_search (\<lambda>_. returns (Return ()))
             else bind_run (modify (\<lambda>st. st\<lparr>sy_candidates := sy_candidates st @ [c],
                      sy_certificates := sy_certificates st @ [certificate]\<rparr>)) (\<lambda>_. returns (Onward ())))))"
    proof (cases made)
      case None
      then show ?thesis by (simp add: keeps_plain)
    next
      case (Some c)
      have budget: "keeps (all_certified wd given r) (if sublist ''budget'' code then bind_run incomplete_search (\<lambda>_. returns (Return ()))
          else returns (Onward ()) :: (synthesis, unit flow) stateful)" for code
        by (auto intro: keeps_rules)
      show ?thesis
      proof (cases "check_composition wd given r c")
        case (Inl er)
        then show ?thesis using budget
          by (cases er) (auto simp: Some keeps_def bind_run_def catching_def lift_def)
      next
        case (Inr k)
        then show ?thesis using add [OF Inr] by (simp add: Some keeps_def catching_def lift_def bind_run_def [of "Pair (Inr (Inr k))"])
      qed
    qed
  qed
qed

lemma synthesis_loop_keeps [keeps_rules]: "keeps (all_certified wd given r) (synthesis_loop wd given d r known ps)"
  by (induction ps) (auto intro!: keeps_rules split: flow.splits)

lemma synthesis_search_keeps: "keeps (all_certified wd given r) (synthesis_search wd given d r known comparisons)"
  unfolding synthesis_search_def by (intro keeps_rules) (auto intro: keeps_rules split: sum.splits)

section \<open>Properties\<close>



text \<open>
  C15: An accepted composition is well typed (\<open>check_composition\<close>): its primitives are those of the request's
  library, each bound to the action of a recipe of the domain; they fit by their schemas from the input of
  the request to its output; and the steps of the certificate are the primitives on its longest path, within the
  request's bound and the decisions the history leaves.
\<close>

theorem check_composition_typed:
  assumes "check_composition wd given r c = Inr certificate"
  shows "\<exists>d known. formation_domain wd given r = Inr d \<and> typed known (wr_output_schema r) (wn_ir c) (wr_input_schema r) \<and>
    (\<forall>a. a \<in> tree_actions (wn_ir c) \<longrightarrow> (\<exists>b recipe. dict_get known a = Some b \<and> b \<in> set (wr_library r) \<and>
       dict_get (do_recipes d) a = Some recipe \<and> re_action_digest recipe = pb_action b)) \<and>
    wc_steps certificate = tree_steps (wn_ir c) \<and> wc_steps certificate \<le> wr_max_steps r \<and>
    wc_steps certificate + length (wr_history r) \<le> gc_max_decisions (do_contract d)"
proof -
  obtain d known ids start leaves st where *: "formation_domain wd given r = Inr d" "primitive_library d r = Inr known"
    "candidate_bound wd d r c = Inr (known, wc_steps certificate)" "ir_members (wn_ir c) = Inr (ids, wc_steps certificate)"
    "set ids \<subseteq> set (dict_keys known)" "unfolded d r known (wn_ir c) fresh_reference = (Inr (start, leaves), st)"
    using assms by (rule check_composition_Inr)
  have members: "set ids = tree_actions (wn_ir c)" "wc_steps certificate = tree_steps (wn_ir c)"
    using ir_members_exact [OF *(4)] by auto
  have "\<exists>b recipe. dict_get known a = Some b \<and> b \<in> set (wr_library r) \<and> dict_get (do_recipes d) a = Some recipe \<and>
      re_action_digest recipe = pb_action b" if "a \<in> tree_actions (wn_ir c)" for a
  proof -
    have "dict_get known a \<noteq> None" using that members(1) *(5) by (auto simp: dict_get_None)
    then show ?thesis using primitive_library_declared [OF *(2)] by blast
  qed
  moreover have "wc_steps certificate \<le> wr_max_steps r" "wc_steps certificate + length (wr_history r) \<le> gc_max_decisions (do_contract d)"
    using *(3) by (auto simp: candidate_bound_def *(4))
  ultimately show ?thesis using *(1) yieldsD [OF unfolded_typed *(6)] members(2) by blast
qed

theorem check_composition_typed_witness:
  "\<exists>known. typed known ''out'' game_node ''in'' \<and> wc_steps flow_certificate = 1 \<and> tree_steps game_node = 1"
  using check_composition_typed [OF flow_check] by (auto simp: flow_certificate_def)

text \<open>
  C27: A synthesis lists only certified compositions (\<open>synthesize\<close>): every candidate stands beside the certificate
  that a check of it against the same request returns, there are at most as many as the request allows, and the
  contract it proposes is the one of the formation domain.
\<close>

theorem synthesize_certified:
  assumes "synthesize wd given r = Inr s"
  shows "list_all2 (\<lambda>c k. check_composition wd given r c = Inr k) (ws_candidates s) (ws_certificates s) \<and>
    length (ws_candidates s) \<le> wr_max_candidates r \<and>
    (\<exists>d. formation_domain wd given r = Inr d \<and> ws_contract s = do_epistemic d)"
proof -
  obtain d known comparisons st where d: "formation_domain wd given r = Inr d"
    and s: "ws_contract s = do_epistemic d"
      "ws_candidates s = sy_candidates (snd (synthesis_search wd given d r known comparisons \<lparr>sy_search = st, sy_candidates = [], sy_certificates = []\<rparr>))"
      "ws_certificates s = sy_certificates (snd (synthesis_search wd given d r known comparisons \<lparr>sy_search = st, sy_candidates = [], sy_certificates = []\<rparr>))"
    using assms unfolding synthesize_def Let_def case_prod_beta res_bind_Inr require_Inr
    by (elim exE conjE) (rule that, assumption, auto)
  have "all_certified wd given r \<lparr>sy_search = st, sy_candidates = [], sy_certificates = []\<rparr>" by (simp add: all_certified_def)
  then have "all_certified wd given r (snd (synthesis_search wd given d r known comparisons \<lparr>sy_search = st, sy_candidates = [], sy_certificates = []\<rparr>))"
    using synthesis_search_keeps unfolding keeps_def by blast
  then show ?thesis using d s by (simp add: all_certified_def)
qed

theorem synthesize_certified_witness:
  "\<exists>s. synthesize flow_digests (game False) flow_request = Inr s \<and> ws_candidates s = [flow_candidate] \<and>
     ws_certificates s = [flow_certificate] \<and>
     list_all2 (\<lambda>c k. check_composition flow_digests (game False) flow_request c = Inr k) (ws_candidates s) (ws_certificates s)"
  using flow_synthesis synthesize_certified by blast

section \<open>The catalogue\<close>

lemma make_domain_epistemic: "make_domain ed c os ec fr given x y = Inr d \<Longrightarrow> do_epistemic d = ec"
  by (clarsimp simp: make_domain_def Let_def)

lemma formation_expansions:
  assumes "formation_domain wd given r = Inr d"
  shows "reserved_expansions (ec_cost_events (do_epistemic d)) =
    reserved_expansions (ec_cost_events (do_epistemic given)) + li_max_expansions (domain_limits given)"
proof -
  obtain event where event: "formation_event wd given r = Inr event"
    "do_epistemic d = (do_epistemic given)\<lparr>ec_cost_events := ec_cost_events (do_epistemic given) @ [event]\<rparr>"
    using assms by (auto simp: formation_domain_def Let_def dest: make_domain_epistemic)
  have "ce_reserved event = li_max_expansions (domain_limits given)"
    using event(1) by (auto simp: formation_event_def make_cost_event_def)
  then show ?thesis by (simp add: event(2) reserved_expansions_def)
qed

lemma proposal_replanned:
  assumes "propose_catalogue wd revision_digest d r synthesis c parent = Inr v"
  shows "\<exists>certificate proposed. check_composition wd d r c = Inr certificate \<and> formation_domain wd d r = Inr proposed \<and>
    ct_contract v = do_epistemic proposed \<and>
    replan_catalogue wd revision_digest d r c certificate v True = replan_with wd revision_digest proposed c certificate v"
proof -
  obtain checked proposed where *: "check_composition wd d r c = Inr checked" "formation_domain wd d r = Inr proposed"
    "v = \<lparr>ct_envelope = with_metadata (wr_envelope r), ct_parent = map_option revision_digest parent,
         ct_parent_contract = ed_contract (do_digests d) (do_epistemic d), ct_contract = do_epistemic proposed,
         ct_history = wr_history r, ct_request = wd_request wd r, ct_candidate = wd_candidate wd c,
         ct_certificate = wd_certificate wd checked, ct_number = length (ec_cost_events (do_epistemic d)) + 1,
         ct_expansions = reserved_expansions (ec_cost_events (do_epistemic d)) + li_max_expansions (domain_limits d),
         ct_step_limit = gc_max_decisions (do_contract d)\<rparr>"
    using assms by (auto simp: propose_catalogue_def Let_def make_revision_def)
  then show ?thesis by (simp add: replan_catalogue_def check_def formation_expansions)
qed

text \<open>
  C28: A proposal can be replanned (\<open>propose_catalogue\<close>, \<open>replan_catalogue\<close>): from a revision that was proposed
  for a candidate, replanning with the certificate of the candidate passes every check of binding, certificate,
  proposal and quota, and does the planning over the formation domain.
\<close>

theorem proposal_replans:
  assumes "propose_catalogue wd revision_digest d r synthesis c parent = Inr v"
  shows "\<exists>certificate proposed. check_composition wd d r c = Inr certificate \<and> formation_domain wd d r = Inr proposed \<and>
    ct_contract v = do_epistemic proposed \<and>
    replan_catalogue wd revision_digest d r c certificate v True = replan_with wd revision_digest proposed c certificate v"
  by (rule proposal_replanned [OF assms])

lemma flow_proposal:
  "\<exists>s v. synthesize flow_digests (game False) flow_request = Inr s \<and>
     propose_catalogue flow_digests (\<lambda>_. ''sha256:v'') (game False) flow_request s flow_candidate None = Inr v"
proof -
  obtain s where s: "synthesize flow_digests (game False) flow_request = Inr s" "ws_request s = ''sha256:r''"
    "ws_contract s = game_epistemic True" "ws_candidates s = [flow_candidate]" "ws_certificates s = [flow_certificate]"
    using flow_synthesis by blast
  show ?thesis
    by (rule exI [of _ s])
      (simp add: s propose_catalogue_def check_def flow_check flow_domain reserved_expansions_def domain_limits_def make_revision_def)
qed

theorem proposal_replans_witness:
  "\<exists>v certificate. replan_catalogue flow_digests (\<lambda>_. ''sha256:v'') (game False) flow_request flow_candidate certificate v True =
     replan_with flow_digests (\<lambda>_. ''sha256:v'') (game True) flow_candidate certificate v"
  using flow_proposal proposal_replans [of flow_digests "\<lambda>_. ''sha256:v''" "game False" flow_request _ flow_candidate None]
  by (fastforce simp: flow_domain)





end
