(* ===== verification/Spec2Isabelle.thy ===== *)
theory Spec2Isabelle
  imports Flux Prefix Coordination_Binding Canonical_Reader Raf_Properties Curves Growth_Properties Frontier_Properties
    Growth_Plan Search_Properties Plan_Properties Workflow_Properties
begin

text \<open>
  A verification library for the model layer of the collective phase control fabric, version 6
  (\<open>src/collective_phase_control_fabric/v6\<close>, paths below are relative to it). The program plans the growth of a
  group's capacities under budgets, checks plans it did not make itself, analyses the structure of the
  transformations a group has, and validates coordination sessions that keep proposals independent. All of it
  is exact and finite: rational arithmetic, declared models, explicit limits on work. What the program decides
  is data for people and services that may act on it, so what matters is that its answers are right.

  \<^bold>\<open>Conventions\<close> (\<open>Prelude\<close>, \<open>Growth_Model\<close>). A pydantic class is a record or datatype with a prefix per class; a
  \<open>Rational\<close> string is the number it denotes; a Python dict is an association list in insertion order
  (\<open>dict_set\<close> keeps the place of a present key), and documents are compared with their dicts sorted by key, as
  dict equality does. An exception is the left side of a sum: \<open>GrowthError code\<close> for \<open>GrowthError\<close>, a
  constructor each for a missing key, an empty \<open>min\<close>, a pydantic rejection and so on; a loop over a body
  that may raise is \<open>fold_res\<close>, \<open>map_res\<close>, \<open>each\<close> or \<open>all_in\<close>. Methods that assign fields are computations over
  a record of those fields (\<open>stateful\<close>, in \<open>Growth_Search\<close>): what they wrote stays when they raise.

  \<^bold>\<open>Growth game\<close> (\<open>growth.py\<close>, \<open>growth_frontier.py\<close>, \<open>models.py\<close>).
  \<^item> \<open>Growth_Model\<close>: the documents. \<open>Growth_Ledger\<close>: \<open>normalize\<close>, state digests, \<open>check_state\<close> and its parts.
  \<^item> \<open>Growth_Frontier\<close>: capability frontiers: seeding, the lineage check, liveness of bindings, use and
    activation. \<open>Growth_Kernel\<close>: \<open>initial_state\<close>, \<open>applicable\<close>, \<open>successors\<close>, \<open>transition\<close>, attainment.
  \<^item> \<open>Growth_Contract\<close>: \<open>validate_contract\<close> and \<open>validate_frontier\<close>, every check in the order of the code.
  \<^item> \<open>Growth_Search\<close>: \<open>Budget\<close> and \<open>Search\<close> with \<open>scalar\<close> and \<open>enumerate\<close>, memo tables included.
    \<open>Growth_Plan\<close>: objectives, comparators, \<open>check_tree\<close>, \<open>diagnostics\<close>, \<open>plan_growth\<close>, \<open>check_plan\<close>.
  \<^item> Lemmas: \<open>Growth_Facts\<close> reads \<open>check_state\<close> as the declarative invariant \<open>kept\<close>; \<open>Growth_Steps\<close> reads a
    transition as a ledger step; \<open>Growth_Activation\<close> the frontier's lineage. \<open>Growth_Properties\<close> and
    \<open>Frontier_Properties\<close> prove conservation of resources and work, protected objects, bounded runs,
    derivations of enabled actions. \<open>Search_Facts\<close> reads a search as \<open>certified\<close> and \<open>optimal\<close> against the
    complete policies of the game (\<open>guarantees\<close>), \<open>Search_Bounds\<close> as staying within limits and returning;
    \<open>Search_Properties\<close> concludes. \<open>Growth_Checking\<close> and \<open>Plan_Properties\<close>: an accepted plan carries the
    initial state to its goal whatever the outcomes, and the planner's plans are accepted.

  \<^bold>\<open>Epistemic planning\<close> (\<open>epistemic.py\<close>, \<open>epistemic_planning.py\<close>, \<open>epistemic_checking.py\<close>,
  \<open>information_value.py\<close>).
  \<^item> \<open>Epistemic\<close>: \<open>Domain\<close>: supports are lists of hypotheses, each a model with a whole ledger state; \<open>advance\<close>
    splits a support by the declared symbols. \<open>Epistemic_Search\<close>: \<open>PolicySearch\<close> and the reference comparisons.
    \<open>Epistemic_Plan\<close>: \<open>compare_epistemic\<close>, \<open>plan_epistemic\<close>, the checker and the value of information.
  \<^item> Lemmas: \<open>Epistemic_Facts\<close> defines the worlds of a domain and what a method \<open>yields\<close>;
    \<open>Epistemic_Knowledge\<close> shows that branches and replayed supports are exactly the worlds that the symbols
    leave possible (\<open>possible\<close>); \<open>Epistemic_Checking\<close> that an accepted policy succeeds in each of them;
    \<open>Epistemic_Properties\<close> states the results.

  \<^bold>\<open>Workflows\<close> (\<open>composition.py\<close>, \<open>synthesis.py\<close>, \<open>catalogue_revision.py\<close>).
  \<^item> \<open>Workflow\<close>: a request pays for forming a workflow (\<open>formation_domain\<close>), binds primitives by their schemas, and
    \<open>check_composition\<close> unfolds a submitted tree over the epistemic domain. \<open>Workflow_Catalogue\<close>: \<open>synthesize\<close>
    enumerates and checks trees, \<open>propose_catalogue\<close> and \<open>replan_catalogue\<close> revise the catalogue.
  \<^item> Lemmas: \<open>Workflow_Facts\<close> reads an unfolding as a typed tree (\<open>typed\<close>) and as a policy that succeeds in every
    world with the targets of the request met, and the grammar walk as the actions and height of the tree;
    \<open>Workflow_Properties\<close> concludes, and carries the guarantee through synthesis, proposal and replan.

  \<^bold>\<open>Structural analyses\<close> (\<open>structural_analysis.py\<close>, the operation budget of \<open>science.py\<close>).
  \<^item> \<open>Structural\<close>: closures, siphons, cut and enablement sets, autocatalytic sets (RAFs), all within a budget;
    \<open>Structural_Facts\<close>, \<open>Structural_Properties\<close> and \<open>Raf_Properties\<close> show that they list exactly what they name.
  \<^item> \<open>Linear\<close> and \<open>Flux\<close>: the nullspace basis and flux coupling; \<open>Prefix\<close>: occurrence prefixes of 1-safe nets;
    \<open>Curves\<close>: deviations of arrival and service curves.

  \<^bold>\<open>Coordination\<close> (\<open>coordination.py\<close>). \<open>Coordination\<close>: the walk along the event hash chain and
  \<open>validate_coordination\<close>, one definition per event type. \<open>Coordination_Protocol\<close>: an abstract commit-reveal
  protocol as a step relation, its invariant, and the equivalence of the event loop with its runs.
  \<open>Coordination_Binding\<close>: what a commitment binds.

  \<^bold>\<open>Canonical JSON\<close> (\<open>canonical.py\<close>, here and in the parent package). \<open>Canonical\<close>: the encoder.
  \<open>Canonical_Injective\<close>: equal bytes mean equal documents up to member order. \<open>Canonical_Reader\<close>: the nesting scan
  and the tree validation of the bounded reader.

  \<^bold>\<open>Interfaces\<close>. Locales state what a client relies on: \<open>minimal_search\<close> and \<open>budgeted_search\<close> (an enumeration of
  candidate sets over a test), \<open>monotone_family\<close> (families closed under supersets), \<open>prefix_code\<close> (encodings
  no one of which starts another); each is interpreted on the definitions of the component that provides it.

  \<^bold>\<open>Parameters\<close>. SHA-256 and the digests over \<open>model_dump\<close> (records \<open>digests\<close>, \<open>epistemic_digests\<close> and
  \<open>workflow_digests\<close>), the size of a serialized support, the z3 solver (an answer and whether it is complete) and the
  clock of the operation budget. Results that need a digest not to collide say so, and only on the states or
  worlds the search can visit; witnesses instantiate each parameter.

  \<^bold>\<open>Fuel\<close>. The searches recurse one decision deeper each time and stop at \<open>max_decisions\<close>: their fuel is one more,
  and running out of it is the error \<open>Diverges\<close>, which they are proved not to return. The walk along a lineage
  (\<open>use_loop\<close>) has one more step than it has activations and is proved to return as well; the replay and its reference
  comparisons call each other on ever shorter histories, with the length of the history as fuel. The while
  loops of the closures and the prefix recurse on a budget or on a finite set that shrinks or grows.

  \<^bold>\<open>Demos\<close>. \<open>Growth_Demo\<close>, \<open>Game_Demo\<close>, \<open>Epistemic_Demo\<close> and \<open>Workflow_Demo\<close> hold small concrete games, evaluated in the kernel, for
  the witnesses.

  \<^bold>\<open>Not modelled\<close>. Evidence bindings, trust, authorities, key management, storage, runners, the HTTP service, the
  command lines and the earlier releases (versions 1 to 5) of everything: signatures, databases, files and processes
  carry them, and their logic is of calls to those. Intervention planning over the scientific documents
  (\<open>planning.py\<close>, \<open>science.py\<close>, \<open>intervention.py\<close>), trials, and the projections
  and tables of \<open>projection.py\<close> and \<open>catalog.py\<close> are left out. Constant fields of a document, like
  \<open>execution_authorized\<close>, are left out of records.
\<close>

end
